(* ===== verification/Forge_Prelude.thy ===== *)
theory Forge_Prelude
  imports
    Main
    "HOL-Library.Word"
    "HOL-Library.Char_ord"
    "HOL-Library.List_Lexorder"
    "HOL-Library.Signed_Division"
begin

text \<open>
  The shared vocabulary of the development: the parts of the Rust language and of its
  standard library that the modelled crates use, and the lemmas about them.
  \<^item> a \<open>String\<close> is its list of UTF-8 bytes (\<open>string\<close>, one \<open>char\<close> per byte), so byte
    lengths, byte indexing and the byte-lexicographic order of \<open>str\<close> are the ones of HOL lists;
    the operations of \<open>str\<close> that work on characters go through \<open>utf8_chars\<close>;
  \<^item> a \<open>u64\<close> is a \<open>64 word\<close>; an \<open>i64\<close> is an \<open>int\<close> and every addition that
    the source checks is an option that is \<open>None\<close> outside the 64-bit range;
  \<^item> \<open>Result<T, E>\<close> is the sum \<open>'e + 'a\<close>, with \<open>Inl\<close> the error.
\<close>

named_theorems rust_str \<open>rewrite rules for the string operations\<close>
named_theorems rust_int \<open>rewrite rules for the machine integers\<close>

type_synonym u64 = "64 word"
type_synonym u8 = "8 word"
type_synonym i64 = int

section \<open>Machine integers\<close>

definition i64_min :: int where "i64_min = - (2 ^ 63)"
definition i64_max :: int where "i64_max = 2 ^ 63 - 1"

definition i64_range :: "int \<Rightarrow> bool" where
  "i64_range x \<longleftrightarrow> i64_min \<le> x \<and> x \<le> i64_max"

text \<open>\<open>i64::checked_add\<close> and \<open>i64::try_from(u64)\<close>.\<close>

definition i64_checked_add :: "i64 \<Rightarrow> i64 \<Rightarrow> i64 option" where
  "i64_checked_add a b = (if i64_range (a + b) then Some (a + b) else None)"

definition i64_try_from :: "u64 \<Rightarrow> i64 option" where
  "i64_try_from w = (if uint w \<le> i64_max then Some (uint w) else None)"

text \<open>\<open>u64::checked_add\<close>.\<close>

definition u64_checked_add :: "u64 \<Rightarrow> u64 \<Rightarrow> u64 option" where
  "u64_checked_add a b = (if unat a + unat b < 2 ^ 64 then Some (a + b) else None)"

lemma i64_checked_add_Some [rust_int]:
  "i64_checked_add a b = Some c \<longleftrightarrow> c = a + b \<and> i64_range (a + b)"
  by (auto simp: i64_checked_add_def)

lemma i64_try_from_Some [rust_int]:
  "i64_try_from w = Some c \<longleftrightarrow> c = uint w \<and> uint w \<le> i64_max"
  by (auto simp: i64_try_from_def)

lemma u64_checked_add_Some [rust_int]:
  "u64_checked_add a b = Some c \<longleftrightarrow> c = a + b \<and> unat a + unat b < 2 ^ 64"
  by (auto simp: u64_checked_add_def)

lemma u64_checked_add_unat:
  "u64_checked_add a b = Some c \<Longrightarrow> unat c = unat a + unat b"
  by (auto simp: u64_checked_add_def unat_word_ariths split: if_splits)

lemma u64_checked_succ_None:
  "u64_checked_add a 1 = None \<longleftrightarrow> unat a = 2 ^ 64 - 1"
proof -
  have "unat a < 2 ^ LENGTH(64)" by (rule unsigned_less)
  then have "unat a < 2 ^ 64" by simp
  then show ?thesis by (auto simp: u64_checked_add_def)
qed

lemma u64_succ_greater:
  "u64_checked_add a 1 = Some c \<Longrightarrow> a < c"
  by (drule u64_checked_add_unat) (simp add: word_less_nat_alt)

section \<open>Characters and strings\<close>

text \<open>
  A UTF-8 continuation byte is one of \<open>0x80\<close> to \<open>0xBF\<close>; \<open>utf8_chars\<close> cuts a
  byte string in front of every other byte, which on a valid \<open>String\<close> is the sequence
  \<open>str::chars\<close>, each character given by its encoding.
\<close>

definition is_cont :: "char \<Rightarrow> bool" where
  "is_cont c \<longleftrightarrow> 128 \<le> (of_char c :: nat) \<and> (of_char c :: nat) < 192"

function utf8_chars :: "string \<Rightarrow> string list" where
  "utf8_chars [] = []"
| "utf8_chars (c # cs) = (c # takeWhile is_cont cs) # utf8_chars (dropWhile is_cont cs)"
  by pat_completeness auto
termination
  by (relation "measure length") (auto simp: length_dropWhile_le less_Suc_eq_le)

text \<open>\<open>char::is_whitespace\<close>: the 25 code points of the Unicode property White\_Space.\<close>

definition whitespace_table :: "string list" where
  "whitespace_table =
     [[CHR 0x09], [CHR 0x0A], [CHR 0x0B], [CHR 0x0C], [CHR 0x0D], [CHR 0x20],
      [CHR 0xC2, CHR 0x85], [CHR 0xC2, CHR 0xA0], [CHR 0xE1, CHR 0x9A, CHR 0x80],
      [CHR 0xE2, CHR 0x80, CHR 0x80], [CHR 0xE2, CHR 0x80, CHR 0x81],
      [CHR 0xE2, CHR 0x80, CHR 0x82], [CHR 0xE2, CHR 0x80, CHR 0x83],
      [CHR 0xE2, CHR 0x80, CHR 0x84], [CHR 0xE2, CHR 0x80, CHR 0x85],
      [CHR 0xE2, CHR 0x80, CHR 0x86], [CHR 0xE2, CHR 0x80, CHR 0x87],
      [CHR 0xE2, CHR 0x80, CHR 0x88], [CHR 0xE2, CHR 0x80, CHR 0x89],
      [CHR 0xE2, CHR 0x80, CHR 0x8A], [CHR 0xE2, CHR 0x80, CHR 0xA8],
      [CHR 0xE2, CHR 0x80, CHR 0xA9], [CHR 0xE2, CHR 0x80, CHR 0xAF],
      [CHR 0xE2, CHR 0x81, CHR 0x9F], [CHR 0xE3, CHR 0x80, CHR 0x80]]"

definition char_is_whitespace :: "string \<Rightarrow> bool" where
  "char_is_whitespace ch \<longleftrightarrow> ch \<in> set whitespace_table"

text \<open>\<open>char::is_control\<close>: the general category Cc.\<close>

definition char_is_control :: "string \<Rightarrow> bool" where
  "char_is_control ch =
     (case ch of
        [b] \<Rightarrow> (of_char b :: nat) < 32 \<or> (of_char b :: nat) = 127
      | [b1, b2] \<Rightarrow> b1 = CHR 0xC2 \<and> (of_char b2 :: nat) < 160
      | _ \<Rightarrow> False)"

text \<open>\<open>str::trim\<close>, and the test \<open>s.trim().is_empty()\<close> the source uses for blank fields.\<close>

definition trim :: "string \<Rightarrow> string" where
  "trim s =
     concat (rev (dropWhile char_is_whitespace (rev (dropWhile char_is_whitespace (utf8_chars s)))))"

definition is_blank :: "string \<Rightarrow> bool" where
  "is_blank s \<longleftrightarrow> trim s = []"

lemma utf8_chars_nonempty: "ch \<in> set (utf8_chars s) \<Longrightarrow> ch \<noteq> []"
  by (induction s rule: utf8_chars.induct) auto

lemma concat_utf8_chars [rust_str]: "concat (utf8_chars s) = s"
  by (induction s rule: utf8_chars.induct) auto

lemma all_dropWhile_iff:
  "(\<forall>x \<in> set (dropWhile P xs). P x) \<longleftrightarrow> (\<forall>x \<in> set xs. P x)"
  by (induction xs) auto

lemma concat_eq_Nil_nonempty:
  "(\<And>x. x \<in> set xs \<Longrightarrow> x \<noteq> []) \<Longrightarrow> concat xs = [] \<longleftrightarrow> xs = []"
  by (cases xs) auto

lemma is_blank_iff [rust_str]:
  "is_blank s \<longleftrightarrow> (\<forall>ch \<in> set (utf8_chars s). char_is_whitespace ch)"
proof -
  let ?d = "dropWhile char_is_whitespace (utf8_chars s)"
  let ?e = "dropWhile char_is_whitespace (rev ?d)"
  have "concat (rev ?e) = [] \<longleftrightarrow> rev ?e = []"
    by (rule concat_eq_Nil_nonempty) (auto dest!: set_dropWhileD utf8_chars_nonempty)
  then have "is_blank s \<longleftrightarrow> ?e = []"
    by (simp add: is_blank_def trim_def)
  also have "\<dots> \<longleftrightarrow> (\<forall>ch \<in> set ?d. char_is_whitespace ch)"
    by simp
  finally show ?thesis by (simp only: all_dropWhile_iff)
qed

section \<open>Case folding and splitting\<close>

text \<open>\<open>to_ascii_lowercase\<close>, \<open>eq_ignore_ascii_case\<close>, \<open>is_ascii_alphanumeric\<close>.\<close>

definition ascii_lower :: "char \<Rightarrow> char" where
  "ascii_lower c =
     (if 65 \<le> (of_char c :: nat) \<and> (of_char c :: nat) \<le> 90
      then char_of (of_char c + 32 :: nat) else c)"

definition to_ascii_lowercase :: "string \<Rightarrow> string" where
  "to_ascii_lowercase s = map ascii_lower s"

definition eq_ignore_ascii_case :: "string \<Rightarrow> string \<Rightarrow> bool" where
  "eq_ignore_ascii_case a b \<longleftrightarrow> to_ascii_lowercase a = to_ascii_lowercase b"

definition is_digit :: "char \<Rightarrow> bool" where
  "is_digit c \<longleftrightarrow> 48 \<le> (of_char c :: nat) \<and> (of_char c :: nat) \<le> 57"

definition is_ascii_lowercase :: "char \<Rightarrow> bool" where
  "is_ascii_lowercase c \<longleftrightarrow> 97 \<le> (of_char c :: nat) \<and> (of_char c :: nat) \<le> 122"

definition is_ascii_uppercase :: "char \<Rightarrow> bool" where
  "is_ascii_uppercase c \<longleftrightarrow> 65 \<le> (of_char c :: nat) \<and> (of_char c :: nat) \<le> 90"

definition is_ascii_alphanumeric :: "char \<Rightarrow> bool" where
  "is_ascii_alphanumeric c \<longleftrightarrow> is_digit c \<or> is_ascii_lowercase c \<or> is_ascii_uppercase c"

lemma of_char_ascii_lower:
  "(of_char (ascii_lower c) :: nat) =
     (if is_ascii_uppercase c then of_char c + 32 else of_char c)"
  by (simp add: ascii_lower_def is_ascii_uppercase_def)

lemma ascii_lower_idem [simp]: "ascii_lower (ascii_lower c) = ascii_lower c"
  by (auto simp: ascii_lower_def)

lemma to_ascii_lowercase_idem [simp]:
  "to_ascii_lowercase (to_ascii_lowercase s) = to_ascii_lowercase s"
  by (simp add: to_ascii_lowercase_def)

lemma length_to_ascii_lowercase [simp]: "length (to_ascii_lowercase s) = length s"
  by (simp add: to_ascii_lowercase_def)

text \<open>
  \<open>str::split\<close> at every byte satisfying a predicate: always at least one part, and
  neighbouring separators give empty parts.
\<close>

fun split_on :: "(char \<Rightarrow> bool) \<Rightarrow> string \<Rightarrow> string list" where
  "split_on P [] = [[]]"
| "split_on P (c # cs) =
     (if P c then [] # split_on P cs
      else (case split_on P cs of [] \<Rightarrow> [[c]] | w # ws \<Rightarrow> (c # w) # ws))"

lemma split_on_not_Nil [simp]: "split_on P s \<noteq> []"
  by (cases s) (auto split: list.splits)

lemma split_on_none: "(\<And>c. c \<in> set s \<Longrightarrow> \<not> P c) \<Longrightarrow> split_on P s = [s]"
  by (induction s) auto

lemma split_on_append_sep:
  "(\<And>c. c \<in> set a \<Longrightarrow> \<not> P c) \<Longrightarrow> P c \<Longrightarrow> split_on P (a @ c # b) = a # split_on P b"
  by (induction a) auto

lemma split_on_no_sep: "w \<in> set (split_on P s) \<Longrightarrow> c \<in> set w \<Longrightarrow> \<not> P c"
  by (induction s arbitrary: w) (fastforce split: if_splits list.splits)+

text \<open>\<open>starts_with\<close>, \<open>ends_with\<close> and \<open>contains\<close> of a string pattern.\<close>

definition starts_with :: "string \<Rightarrow> string \<Rightarrow> bool" where
  "starts_with s p \<longleftrightarrow> take (length p) s = p"

definition ends_with :: "string \<Rightarrow> string \<Rightarrow> bool" where
  "ends_with s p \<longleftrightarrow> length p \<le> length s \<and> drop (length s - length p) s = p"

fun contains_str :: "string \<Rightarrow> string \<Rightarrow> bool" where
  "contains_str [] p = (p = [])"
| "contains_str (c # cs) p = (starts_with (c # cs) p \<or> contains_str cs p)"

section \<open>Decimal numbers\<close>

definition digit_char :: "nat \<Rightarrow> char" where
  "digit_char d = char_of (48 + d)"

definition digit_val :: "char \<Rightarrow> nat" where
  "digit_val c = of_char c - 48"

fun show_nat :: "nat \<Rightarrow> string" where
  "show_nat n = (if n < 10 then [digit_char n] else show_nat (n div 10) @ [digit_char (n mod 10)])"

declare show_nat.simps [simp del]

text \<open>The formatting \<open>{x:0w}\<close>: a sign, then zeros up to the total width \<open>w\<close>.\<close>

definition fmt_pad :: "nat \<Rightarrow> int \<Rightarrow> string" where
  "fmt_pad w x =
     (let ds = show_nat (nat \<bar>x\<bar>); sg = (if x < 0 then ''-'' else [])
      in sg @ replicate (w - length sg - length ds) (CHR ''0'') @ ds)"

fun digits_val :: "nat \<Rightarrow> string \<Rightarrow> nat option" where
  "digits_val acc [] = Some acc"
| "digits_val acc (c # cs) = (if is_digit c then digits_val (10 * acc + digit_val c) cs else None)"

text \<open>
  \<open>str::parse\<close> of an integer type: an optional sign (a minus only for the signed types),
  at least one digit, nothing else, and the value in the range of the type.
\<close>

definition parse_digits :: "string \<Rightarrow> nat option" where
  "parse_digits s = (if s = [] then None else digits_val 0 s)"

definition parse_unsigned :: "nat \<Rightarrow> string \<Rightarrow> nat option" where
  "parse_unsigned bound s =
     (case (case s of [] \<Rightarrow> None
            | c # cs \<Rightarrow> if c = CHR ''+'' then parse_digits cs else parse_digits s)
      of None \<Rightarrow> None | Some n \<Rightarrow> if n < bound then Some n else None)"

definition parse_i64 :: "string \<Rightarrow> i64 option" where
  "parse_i64 s =
     (case (case s of [] \<Rightarrow> None
            | c # cs \<Rightarrow>
                if c = CHR ''-'' then map_option (\<lambda>n. - int n) (parse_digits cs)
                else if c = CHR ''+'' then map_option int (parse_digits cs)
                else map_option int (parse_digits s))
      of None \<Rightarrow> None | Some x \<Rightarrow> if i64_range x then Some x else None)"

lemma of_char_digit_char: "d < 10 \<Longrightarrow> (of_char (digit_char d) :: nat) = 48 + d"
  by (simp add: digit_char_def)

lemma is_digit_digit_char [simp]: "d < 10 \<Longrightarrow> is_digit (digit_char d)"
  by (simp add: is_digit_def of_char_digit_char)

lemma digit_val_digit_char [simp]: "d < 10 \<Longrightarrow> digit_val (digit_char d) = d"
  by (simp add: digit_val_def of_char_digit_char)

lemma digits_val_append:
  "digits_val acc (a @ b) = (case digits_val acc a of None \<Rightarrow> None | Some n \<Rightarrow> digits_val n b)"
  by (induction acc a rule: digits_val.induct) auto

lemma digits_val_zeros: "digits_val 0 (replicate k (CHR ''0'') @ s) = digits_val 0 s"
  by (induction k) (auto simp: is_digit_def digit_val_def)

lemma digits_val_show_nat: "digits_val 0 (show_nat n) = Some n"
proof (induction n rule: less_induct)
  case (less n)
  show ?case
  proof (cases "n < 10")
    case True
    then show ?thesis by (simp add: show_nat.simps [of n])
  next
    case False
    with less [of "n div 10"] have "digits_val 0 (show_nat (n div 10)) = Some (n div 10)" by simp
    with False show ?thesis by (simp add: show_nat.simps [of n] digits_val_append)
  qed
qed

lemma show_nat_not_Nil [simp]: "show_nat n \<noteq> []"
  by (subst show_nat.simps) simp

lemma show_nat_digits: "c \<in> set (show_nat n) \<Longrightarrow> is_digit c"
proof (induction n arbitrary: c rule: less_induct)
  case (less n)
  show ?case
  proof (cases "n < 10")
    case True
    with less.prems show ?thesis by (simp add: show_nat.simps [of n])
  next
    case False
    with less.prems less.IH [of "n div 10"] show ?thesis
      by (auto simp: show_nat.simps [of n])
  qed
qed

lemma length_show_nat: "length (show_nat n) \<le> Suc k \<longleftrightarrow> n < 10 ^ Suc k"
proof (induction k arbitrary: n)
  case 0
  show ?case by (subst show_nat.simps) (auto simp: Suc_le_eq)
next
  case (Suc k)
  show ?case
  proof (cases "n < 10")
    case True
    have "(10::nat) ^ 1 \<le> 10 ^ Suc (Suc k)" by (rule power_increasing) simp_all
    with True have "n < 10 ^ Suc (Suc k)" by (simp only: power_one_right)
    with True show ?thesis by (simp add: show_nat.simps [of n])
  next
    case False
    have "n div 10 < 10 ^ Suc k \<longleftrightarrow> n < 10 ^ Suc (Suc k)"
      using less_mult_imp_div_less [of n "10 ^ Suc k" 10] div_less_iff_less_mult [of 10 n "10 ^ Suc k"]
      by (simp add: mult.commute)
    with False Suc.IH [of "n div 10"] show ?thesis by (simp add: show_nat.simps [of n])
  qed
qed

end
