(* ===== verification/Repo_Paths.thy ===== *)
theory Repo_Paths
  imports Forge_Prelude "HOL-Library.Sublist"
begin

text \<open>
  The lexical path algebra of write-conflict detection
  (\<open>src/crates/forge-core-decisions/src/conflict_detection.rs\<close>): normalisation of a
  repository path into segments, containment of a target in a claimed path, and overlap of
  two claimed paths.

  \<open>str::to_lowercase\<close> depends on the Unicode tables; it is the parameter \<open>lower\<close> of the
  definitions below, applied to one path segment at a time as in the source.

  The main lemma, \<open>overlap_iff_joint_target\<close>, is that the overlap test used when a claim is
  acquired is exactly the existence of a write target that both paths govern.
\<close>

section \<open>The code\<close>

type_synonym RepoPath = string
type_synonym segments = "string list"

definition is_separator :: "char \<Rightarrow> bool" where
  "is_separator c \<longleftrightarrow> c = CHR ''/'' \<or> c = CHR 0x5C"

definition normalize_part :: "(string \<Rightarrow> string) \<Rightarrow> string \<Rightarrow> segments \<Rightarrow> segments" where
  "normalize_part lower part out =
     (if part = [] \<or> part = ''.'' then out
      else if part = ''..'' then
        (if out \<noteq> [] \<and> last out \<noteq> ''..'' then butlast out else out @ [''..''])
      else out @ [lower part])"

definition normalize_segments :: "(string \<Rightarrow> string) \<Rightarrow> string \<Rightarrow> segments" where
  "normalize_segments lower raw = fold (normalize_part lower) (split_on is_separator raw) []"

definition path_covers :: "segments \<Rightarrow> segments \<Rightarrow> bool" where
  "path_covers claim_segments target_segments \<longleftrightarrow>
     (if claim_segments = [] \<or> target_segments = [] then False
      else if claim_segments = target_segments then True
      else if length target_segments \<le> length claim_segments then False
      else list_all (\<lambda>(c, t). c = t) (zip claim_segments target_segments))"

definition escapes_repo_root :: "segments \<Rightarrow> bool" where
  "escapes_repo_root segments = (case segments of [] \<Rightarrow> False | segment # _ \<Rightarrow> segment = ''..'')"

definition is_explicit_repo_root_path :: "string \<Rightarrow> bool" where
  "is_explicit_repo_root_path raw \<longleftrightarrow>
     list_all (\<lambda>part. part = [] \<or> part = ''.'') (split_on is_separator raw)"

definition claim_path_covers :: "(string \<Rightarrow> string) \<Rightarrow> string \<Rightarrow> segments \<Rightarrow> bool" where
  "claim_path_covers lower raw_claim_path target_segments \<longleftrightarrow>
     (if target_segments = [] then False
      else if is_explicit_repo_root_path raw_claim_path then True
      else path_covers (normalize_segments lower raw_claim_path) target_segments)"

definition repo_paths_overlap :: "(string \<Rightarrow> string) \<Rightarrow> RepoPath \<Rightarrow> RepoPath \<Rightarrow> bool" where
  "repo_paths_overlap lower left right \<longleftrightarrow>
     (let left_is_root = is_explicit_repo_root_path left;
          right_is_root = is_explicit_repo_root_path right;
          left_segments = normalize_segments lower left;
          right_segments = normalize_segments lower right
      in if left_is_root \<and> right_is_root then True
         else if escapes_repo_root left_segments \<or> escapes_repo_root right_segments then False
         else if left_is_root then right_segments \<noteq> []
         else if right_is_root then left_segments \<noteq> []
         else path_covers left_segments right_segments \<or> path_covers right_segments left_segments)"

section \<open>Containment is the prefix order\<close>

lemma list_all_zip_eq_prefix:
  "length xs \<le> length ys \<Longrightarrow> list_all (\<lambda>(c, t). c = t) (zip xs ys) \<longleftrightarrow> prefix xs ys"
  by (induction xs ys rule: list_induct2') auto

lemma path_covers_iff_prefix: "path_covers c t \<longleftrightarrow> c \<noteq> [] \<and> prefix c t"
proof (cases "length t \<le> length c")
  case True
  then have "prefix c t \<longleftrightarrow> c = t"
    by (metis le_antisym not_equal_is_parallel parallelE prefix_length_le prefix_order.refl)
  with True show ?thesis by (auto simp: path_covers_def)
next
  case False
  then show ?thesis by (auto simp: path_covers_def list_all_zip_eq_prefix)
qed

lemma prefix_not_Nil: "prefix c t \<Longrightarrow> c \<noteq> [] \<Longrightarrow> t \<noteq> []"
  by auto

lemma prefix_escapes: "prefix c t \<Longrightarrow> c \<noteq> [] \<Longrightarrow> escapes_repo_root c \<longleftrightarrow> escapes_repo_root t"
  by (cases c; cases t) (auto simp: escapes_repo_root_def)

lemma normalize_root:
  assumes "is_explicit_repo_root_path raw" shows "normalize_segments lower raw = []"
proof -
  have "list_all (\<lambda>part. part = [] \<or> part = ''.'') ps \<Longrightarrow> fold (normalize_part lower) ps out = out" for ps out
    by (induction ps arbitrary: out) (auto simp: normalize_part_def)
  with assms show ?thesis by (simp add: is_explicit_repo_root_path_def normalize_segments_def)
qed

lemma claim_path_covers_iff:
  "claim_path_covers lower raw t \<longleftrightarrow>
     t \<noteq> [] \<and> (is_explicit_repo_root_path raw \<or>
       normalize_segments lower raw \<noteq> [] \<and> prefix (normalize_segments lower raw) t)"
  by (auto simp: claim_path_covers_def path_covers_iff_prefix)

section \<open>Overlap is joint governance of a target\<close>

definition governable :: "segments \<Rightarrow> bool" where
  "governable t \<longleftrightarrow> t \<noteq> [] \<and> \<not> escapes_repo_root t"

lemma joint_target_overlap:
  assumes "governable t" "claim_path_covers lower l t" "claim_path_covers lower r t"
  shows "repo_paths_overlap lower l r"
proof -
  have "escapes_repo_root (normalize_segments lower p) = False" if "claim_path_covers lower p t" for p
    using that assms(1) prefix_escapes [of "normalize_segments lower p" t]
    by (cases "is_explicit_repo_root_path p")
      (auto simp: claim_path_covers_iff governable_def normalize_root escapes_repo_root_def)
  moreover have "prefix a b \<or> prefix b a" if "prefix a t" "prefix b t" for a b :: segments
    using that by (metis prefix_same_cases)
  ultimately show ?thesis
    using assms by (auto simp: repo_paths_overlap_def claim_path_covers_iff path_covers_iff_prefix)
qed

lemma overlap_joint_target:
  assumes "repo_paths_overlap lower l r"
  obtains t where "governable t" "claim_path_covers lower l t" "claim_path_covers lower r t"
proof -
  let ?l = "normalize_segments lower l" let ?r = "normalize_segments lower r"
  consider (roots) "is_explicit_repo_root_path l" "is_explicit_repo_root_path r"
    | (left) "governable ?l" "claim_path_covers lower l ?l" "claim_path_covers lower r ?l"
    | (right) "governable ?r" "claim_path_covers lower l ?r" "claim_path_covers lower r ?r"
    using assms
    by (auto simp: repo_paths_overlap_def Let_def claim_path_covers_iff path_covers_iff_prefix
        governable_def dest: prefix_not_Nil split: if_splits)
  then show ?thesis
  proof cases
    case roots
    then show ?thesis
      using that [of "[''x'']"] by (simp add: governable_def escapes_repo_root_def claim_path_covers_iff)
  qed (use that in blast)+
qed

lemma repo_paths_overlap_sym: "repo_paths_overlap lower l r \<longleftrightarrow> repo_paths_overlap lower r l"
  by (metis overlap_joint_target joint_target_overlap)

section \<open>Normal forms\<close>

text \<open>
  What the path algebra relies on of \<open>str::to_lowercase\<close>: it is idempotent, introduces no
  separator, and maps nothing else to the empty and the dot segments.
\<close>

definition segment_lowering :: "(string \<Rightarrow> string) \<Rightarrow> bool" where
  "segment_lowering lower \<longleftrightarrow>
     (\<forall>s. lower (lower s) = lower s) \<and>
     (\<forall>s. s \<notin> {[], ''.'', ''..''} \<longrightarrow> lower s \<notin> {[], ''.'', ''..''}) \<and>
     (\<forall>s. list_all (Not \<circ> is_separator) s \<longrightarrow> list_all (Not \<circ> is_separator) (lower s))"

definition clean_segment :: "(string \<Rightarrow> string) \<Rightarrow> string \<Rightarrow> bool" where
  "clean_segment lower s \<longleftrightarrow>
     s \<notin> {[], ''.'', ''..''} \<and> lower s = s \<and> list_all (Not \<circ> is_separator) s"

definition normal_form :: "(string \<Rightarrow> string) \<Rightarrow> segments \<Rightarrow> bool" where
  "normal_form lower segs \<longleftrightarrow>
     (\<exists>k rest. segs = replicate k ''..'' @ rest \<and> list_all (clean_segment lower) rest)"

lemma normal_formI: "segs = replicate k ''..'' @ rest \<Longrightarrow> list_all (clean_segment lower) rest \<Longrightarrow>
    normal_form lower segs"
  by (auto simp: normal_form_def)

lemma normalize_part_normal:
  assumes lower: "segment_lowering lower" and part: "list_all (Not \<circ> is_separator) part"
    and out: "normal_form lower out"
  shows "normal_form lower (normalize_part lower part out)"
proof -
  obtain k rest where o: "out = replicate k ''..'' @ rest" and r: "list_all (clean_segment lower) rest"
    using out by (auto simp: normal_form_def)
  show ?thesis
  proof (cases "part \<in> {[], ''.'', ''..''}")
    case False
    with lower part have "clean_segment lower (lower part)"
      by (auto simp: segment_lowering_def clean_segment_def)
    with False o r show ?thesis
      by (intro normal_formI [of _ k "rest @ [lower part]"]) (auto simp: normalize_part_def)
  next
    case True
    show ?thesis
    proof (cases "rest = []")
      case rest: True
      then have "out \<noteq> [] \<Longrightarrow> last out = ''..''" using o by (cases k) simp_all
      then have "normalize_part lower part out \<in> {out, out @ [''..'']}"
        using True by (auto simp: normalize_part_def)
      moreover have "out @ [''..''] = replicate (Suc k) ''..'' @ []"
        using o rest by (simp add: replicate_append_same)
      ultimately show ?thesis using out normal_formI [of "out @ [''..'']" "Suc k" "[]"] by auto
    next
      case rest: False
      then have "last rest \<noteq> ''..''" "list_all (clean_segment lower) (butlast rest)"
        using r last_in_set [OF rest] by (auto simp: list_all_iff clean_segment_def dest: in_set_butlastD)
      with True o rest out show ?thesis
        by (auto simp: normalize_part_def butlast_append intro!: normal_formI [of _ k "butlast rest"])
    qed
  qed
qed

lemma normalize_segments_normal:
  assumes "segment_lowering lower" shows "normal_form lower (normalize_segments lower raw)"
proof -
  have "list_all (list_all (Not \<circ> is_separator)) ps \<Longrightarrow> normal_form lower out \<Longrightarrow>
      normal_form lower (fold (normalize_part lower) ps out)" for ps out
    using normalize_part_normal [OF assms] by (induction ps arbitrary: out) auto
  moreover have "list_all (list_all (Not \<circ> is_separator)) (split_on is_separator raw)"
    using split_on_no_sep by (fastforce simp: list_all_iff)
  ultimately show ?thesis
    by (simp add: normalize_segments_def normal_formI [of "[]" 0 "[]"])
qed

lemma fold_normalize_clean:
  "list_all (clean_segment lower) rest \<Longrightarrow> fold (normalize_part lower) rest out = out @ rest"
  by (induction rest arbitrary: out) (auto simp: clean_segment_def normalize_part_def)

lemma fold_normalize_dotdot:
  "set out \<subseteq> {''..''} \<Longrightarrow>
    fold (normalize_part lower) (replicate k ''..'') out = out @ replicate k ''..''"
proof (induction k arbitrary: out)
  case (Suc k)
  have "normalize_part lower ''..'' out = out @ [''..'']"
    using Suc.prems by (auto simp: normalize_part_def dest!: last_in_set)
  with Suc.IH [of "out @ [''..'']"] Suc.prems show ?case by (simp only: replicate_Suc fold_simps) simp
qed simp

fun join_slash :: "segments \<Rightarrow> string" where
  "join_slash [] = []"
| "join_slash [s] = s"
| "join_slash (s # t # ss) = s @ CHR ''/'' # join_slash (t # ss)"

lemma split_on_join_slash:
  assumes "list_all (list_all (Not \<circ> is_separator)) segs" "segs \<noteq> []"
  shows "split_on is_separator (join_slash segs) = segs"
  using assms
proof (induction segs rule: join_slash.induct)
  case (2 s)
  then show ?case by (simp add: split_on_none list_all_iff)
next
  case (3 s t ss)
  have "is_separator (CHR ''/'')" by (simp add: is_separator_def)
  moreover have "\<And>c. c \<in> set s \<Longrightarrow> \<not> is_separator c" using 3 by (simp add: list_all_iff)
  ultimately have "split_on is_separator (s @ CHR ''/'' # join_slash (t # ss)) =
      s # split_on is_separator (join_slash (t # ss))" by (intro split_on_append_sep)
  with 3 show ?case by simp
qed simp

lemma normal_form_no_sep: "normal_form lower segs \<Longrightarrow> list_all (list_all (Not \<circ> is_separator)) segs"
proof -
  assume "normal_form lower segs"
  then obtain k rest where s: "segs = replicate k ''..'' @ rest" and r: "list_all (clean_segment lower) rest"
    by (auto simp: normal_form_def)
  have "list_all (list_all (Not \<circ> is_separator)) rest"
    using r by (rule list.pred_mono_strong) (simp add: clean_segment_def)
  moreover have "list_all (Not \<circ> is_separator) ''..''" by (simp add: is_separator_def)
  then have "list_all (list_all (Not \<circ> is_separator)) (replicate k ''..'')"
    by (induction k) simp_all
  ultimately show ?thesis by (simp add: s)
qed

lemma normalize_normal_form:
  assumes "normal_form lower segs" shows "normalize_segments lower (join_slash segs) = segs"
proof (cases "segs = []")
  case True
  then show ?thesis by (simp add: normalize_segments_def normalize_part_def)
next
  case False
  obtain k rest where s: "segs = replicate k ''..'' @ rest" and r: "list_all (clean_segment lower) rest"
    using assms by (auto simp: normal_form_def)
  have "fold (normalize_part lower) segs [] = segs"
    unfolding s fold_append comp_apply
    using fold_normalize_dotdot [of "[]" lower k] fold_normalize_clean [OF r] by simp
  with False show ?thesis
    by (simp add: normalize_segments_def split_on_join_slash normal_form_no_sep [OF assms])
qed

lemma ascii_lower_cases: "ascii_lower c = d \<Longrightarrow> \<not> is_ascii_lowercase d \<Longrightarrow> c = d"
  by (auto simp: ascii_lower_def is_ascii_lowercase_def split: if_splits)

lemma segment_lowering_ascii: "segment_lowering to_ascii_lowercase"
proof -
  have dot: "\<not> is_ascii_lowercase (CHR ''.'')" by (simp add: is_ascii_lowercase_def)
  have sep: "is_separator (ascii_lower c) \<Longrightarrow> is_separator c" for c
    using ascii_lower_cases [of c "CHR ''/''"] ascii_lower_cases [of c "CHR 0x5C"]
    by (auto simp: is_separator_def is_ascii_lowercase_def)
  have nil: "to_ascii_lowercase s \<in> {[], ''.'', ''..''} \<Longrightarrow> s \<in> {[], ''.'', ''..''}" for s
    using ascii_lower_cases [OF _ dot] by (auto simp: to_ascii_lowercase_def map_eq_Cons_conv)
  have "list_all (Not \<circ> is_separator) s \<Longrightarrow> list_all (Not \<circ> is_separator) (to_ascii_lowercase s)" for s
    using sep by (auto simp: list_all_iff to_ascii_lowercase_def)
  with nil show ?thesis unfolding segment_lowering_def by (metis to_ascii_lowercase_idem)
qed

section \<open>Properties\<close>

text \<open>
  C24. The overlap test on two claimed paths is exactly joint governance: it holds when and only
  when some target inside the repository is covered by both.
\<close>

theorem overlap_iff_joint_target:
  "repo_paths_overlap lower l r \<longleftrightarrow>
     (\<exists>t. t \<noteq> [] \<and> \<not> escapes_repo_root t \<and> claim_path_covers lower l t \<and> claim_path_covers lower r t)"
  unfolding governable_def [symmetric] conj_assoc [symmetric]
  by (metis overlap_joint_target joint_target_overlap governable_def)

text \<open>
  Normalisation is idempotent: joining the normalised segments with slashes and normalising
  again gives the same segments, for every lower-casing that is itself idempotent and creates no
  separators or dot segments.
\<close>

lemma normalize_idempotent:
  assumes "segment_lowering lower"
  shows "normalize_segments lower (join_slash (normalize_segments lower raw)) = normalize_segments lower raw"
  by (rule normalize_normal_form [OF normalize_segments_normal [OF assms]])

end
