(* ===== verification/Claim_Contracts.thy ===== *)
theory Claim_Contracts
  imports Repo_Paths
begin

text \<open>
  The data of the claim bus and of conflict governance: \<open>src/crates/forge-core-contracts/src\<close>,
  files \<open>claim.rs\<close> and \<open>governance.rs\<close>.  A struct is a record with its fields in the source's
  order (prefixed, since record fields share one name space), an enum a datatype.  The
  string newtypes of \<open>common.rs\<close> are type synonyms.
\<close>

type_synonym StableId = string
type_synonym PrincipalId = string
type_synonym ClaimId = string
type_synonym ScopeId = string

section \<open>Claims\<close>

datatype ClaimKind = CkDriver | CkLane | CkStory | CkProductArea | CkIntegration

datatype ActorRole = ArDriver | ArWorker | ArHuman | ArRuntime | ArUnknown

datatype ClaimScopeKind =
  SkProject | SkProductArea | SkStory | SkLane | SkIntegration | SkIntegrationState

datatype ClaimStatus = Active | Stale | Expired | HandoffRequired | HandoffRecorded | Released

datatype ExpiryAction = RecordHandoffRequest | EaDriverReview | EaHumanReview | BlockUntilRecovered

datatype ReclaimPolicy = SameAgentOnly | RpDriverReview | OwnerReview | RpHumanReview | Forbidden

record ClaimIdentity =
  ci_kind :: ClaimKind
  claimant_principal_id :: "PrincipalId option"
  claimant_agent_id :: StableId
  claimant_role :: ActorRole
  registry_ref :: "RepoPath option"

record ClaimScope =
  cs_kind :: ClaimScopeKind
  cs_id :: ScopeId
  product_area :: "StableId option"
  cs_paths :: "RepoPath list"

record ClaimLease =
  acquired_at :: string
  last_heartbeat_at :: string
  expires_at :: string
  ttl_seconds :: u64
  heartbeat_interval_seconds :: u64
  expected_state_version :: u64

record ClaimStatusRecord =
  csr_value :: ClaimStatus
  evaluated_at :: string
  reason_code :: "StableId option"

record ExpiryPolicy =
  on_expiry :: ExpiryAction
  handoff_required :: bool
  release_without_handoff_allowed :: bool
  reclaim_policy :: ReclaimPolicy
  handoff_request_ref :: "RepoPath option"

record ClaimContract =
  cc_id :: ClaimId
  contract_ref :: RepoPath
  cc_claim :: ClaimIdentity
  cc_scope :: ClaimScope
  cc_lease :: ClaimLease
  cc_status :: ClaimStatusRecord
  expiry_policy :: ExpiryPolicy
  evidence_refs :: "string list"

section \<open>Conflicts\<close>

datatype IntentScopeKind = IskProject | IskRepo | IskPathPrefix | IskMemoryEntry

record IntentScope =
  is_kind :: IntentScopeKind
  is_target :: StableId

datatype ConflictDetectionReason = PathOverlap | AuthorityScopeOverlap | ConcurrentMutate

datatype ResolutionDecision = AwardedTo PrincipalId | BothReleased | SplitScope

datatype ConflictResolutionState =
  Pending
| Resolved (arbiter: PrincipalId) (decided_at: u64) (decision: ResolutionDecision)
| Escalated

record ConflictContract =
  conflict_id :: StableId
  intent_a :: StableId
  intent_b :: StableId
  principal_a :: PrincipalId
  principal_b :: PrincipalId
  contested_scope :: IntentScope
  detection_reason :: ConflictDetectionReason
  detected_at :: u64
  resolution :: ConflictResolutionState

datatype ConflictPolicy = EmitContract | SilentLastWriterWins

record GovernancePolicy =
  policy_id :: StableId
  permitted_principals :: "PrincipalId list"
  authorized_reviewers :: "PrincipalId list"
  conflict_policy :: ConflictPolicy

definition can_arbitrate :: "GovernancePolicy \<Rightarrow> PrincipalId \<Rightarrow> bool" where
  "can_arbitrate policy who \<longleftrightarrow> list_ex (\<lambda>p. p = who) (authorized_reviewers policy)"

section \<open>A sample claim\<close>

text \<open>A concrete claim, at which the properties with hypotheses are instantiated.\<close>

definition sample_claim :: ClaimContract where
  "sample_claim =
     \<lparr> cc_id = ''claim.story.S1.S1'',
       contract_ref = ''contracts/claims/claim-contract-v0.yaml'',
       cc_claim = \<lparr> ci_kind = CkStory, claimant_principal_id = None, claimant_agent_id = ''alice'',
         claimant_role = ArWorker, registry_ref = None \<rparr>,
       cc_scope = \<lparr> cs_kind = SkStory, cs_id = ''S1'', product_area = None, cs_paths = [''src''] \<rparr>,
       cc_lease = \<lparr> acquired_at = ''1970-01-01T00:00:00Z'', last_heartbeat_at = ''1970-01-01T00:00:00Z'',
         expires_at = ''1970-01-01T00:01:00Z'', ttl_seconds = 60, heartbeat_interval_seconds = 10,
         expected_state_version = 0 \<rparr>,
       cc_status = \<lparr> csr_value = Active, evaluated_at = ''1970-01-01T00:00:00Z'', reason_code = None \<rparr>,
       expiry_policy = \<lparr> on_expiry = RecordHandoffRequest, handoff_required = True,
         release_without_handoff_allowed = False, reclaim_policy = RpDriverReview,
         handoff_request_ref = None \<rparr>,
       evidence_refs = [] \<rparr>"

end
