(* ===== verification/Civil_Time.thy ===== *)
theory Civil_Time
  imports Forge_Prelude "HOL-Library.Monad_Syntax"
begin

text \<open>
  The timestamp helpers of the claim engine
  (\<open>src/crates/forge-core-decisions/src/claim_engine.rs\<close>): the fixed-width UTC form
  \<open>YYYY-MM-DDTHH:MM:SSZ\<close> and its conversion from and to seconds since 1970 by the
  days-from-civil algorithm.  The division of the source truncates towards zero and is
  written \<open>sdiv\<close>/\<open>smod\<close>; \<open>div_euclid\<close> and \<open>rem_euclid\<close> with a positive divisor are
  \<open>div\<close> and \<open>mod\<close>.

  The lemmas show that the two day conversions are inverse to each other on every valid
  civil date and on every day number, and from that the round trip between the text and
  the seconds for the years 0000 to 9999.
\<close>

section \<open>The code\<close>

definition is_leap_year :: "i64 \<Rightarrow> bool" where
  "is_leap_year year \<longleftrightarrow>
     (year smod 4 = 0 \<and> year smod 100 \<noteq> 0) \<or> year smod 400 = 0"

definition days_in_month :: "i64 \<Rightarrow> i64 \<Rightarrow> i64 option" where
  "days_in_month year month =
     (if month \<in> {1, 3, 5, 7, 8, 10, 12} then Some 31
      else if month \<in> {4, 6, 9, 11} then Some 30
      else if month = 2 \<and> is_leap_year year then Some 29
      else if month = 2 then Some 28
      else None)"

definition days_from_civil :: "i64 \<Rightarrow> i64 \<Rightarrow> i64 \<Rightarrow> i64" where
  "days_from_civil y0 m d =
     (let y = (if m \<le> 2 then y0 - 1 else y0);
          era = (if y \<ge> 0 then y else y - 399) sdiv 400;
          yoe = y - era * 400;
          m_adj = (if m > 2 then m - 3 else m + 9);
          doy = (153 * m_adj + 2) sdiv 5 + d - 1;
          doe = yoe * 365 + yoe sdiv 4 - yoe sdiv 100 + doy
      in era * 146097 + doe - 719468)"

definition civil_from_days :: "i64 \<Rightarrow> i64 \<times> i64 \<times> i64" where
  "civil_from_days z0 =
     (let z = z0 + 719468;
          era = (if z \<ge> 0 then z else z - 146096) sdiv 146097;
          doe = z - era * 146097;
          yoe = (doe - doe sdiv 1460 + doe sdiv 36524 - doe sdiv 146096) sdiv 365;
          y = yoe + era * 400;
          doy = doe - (365 * yoe + yoe sdiv 4 - yoe sdiv 100);
          mp = (5 * doy + 2) sdiv 153;
          d = doy - (153 * mp + 2) sdiv 5 + 1;
          m = (if mp < 10 then mp + 3 else mp - 9)
      in (if m \<le> 2 then y + 1 else y, m, d))"

definition unix_to_rfc3339 :: "i64 \<Rightarrow> string" where
  "unix_to_rfc3339 unix =
     (let days = unix div 86400;
          secs = unix mod 86400;
          (y, mo, d) = civil_from_days days;
          h = secs sdiv 3600;
          mi = (secs smod 3600) sdiv 60;
          s = secs smod 60
      in fmt_pad 4 y @ ''-'' @ fmt_pad 2 mo @ ''-'' @ fmt_pad 2 d @ ''T'' @
         fmt_pad 2 h @ '':'' @ fmt_pad 2 mi @ '':'' @ fmt_pad 2 s @ ''Z'')"

text \<open>The byte range \<open>ts.get(a..b)\<close>, parsed.\<close>

definition field :: "nat \<Rightarrow> nat \<Rightarrow> string \<Rightarrow> i64 option" where
  "field a b ts = parse_i64 (take (b - a) (drop a ts))"

definition rfc3339_to_unix :: "string \<Rightarrow> i64 option" where
  "rfc3339_to_unix ts =
     (if length ts \<noteq> 20 \<or> ts ! 19 \<noteq> CHR ''Z'' then None
      else do {
        y \<leftarrow> field 0 4 ts;
        if ts ! 4 \<noteq> CHR ''-'' \<or> ts ! 7 \<noteq> CHR ''-'' \<or> ts ! 10 \<noteq> CHR ''T''
           \<or> ts ! 13 \<noteq> CHR '':'' \<or> ts ! 16 \<noteq> CHR '':'' then None
        else do {
          mo \<leftarrow> field 5 7 ts;
          d \<leftarrow> field 8 10 ts;
          h \<leftarrow> field 11 13 ts;
          mi \<leftarrow> field 14 16 ts;
          s \<leftarrow> field 17 19 ts;
          max_day \<leftarrow> days_in_month y mo;
          if \<not> (1 \<le> d \<and> d \<le> max_day) \<or> \<not> (0 \<le> h \<and> h \<le> 23)
             \<or> \<not> (0 \<le> mi \<and> mi \<le> 59) \<or> \<not> (0 \<le> s \<and> s \<le> 59) then None
          else Some (days_from_civil y mo d * 86400 + h * 3600 + mi * 60 + s)
        }
      })"

section \<open>Truncating and flooring division\<close>

lemma div_eq_between: "b * q \<le> a \<Longrightarrow> a < b * (q + 1) \<Longrightarrow> 0 < b \<Longrightarrow> a div b = (q :: int)"
  by (intro int_div_pos_eq [where r = "a - b * q"]) (auto simp: algebra_simps)

lemma mod_eq_between: "a = b * q + r \<Longrightarrow> 0 \<le> r \<Longrightarrow> r < b \<Longrightarrow> a mod b = (r :: int)"
  by (rule int_mod_pos_eq)

lemma sdiv_pos: "0 \<le> a \<Longrightarrow> 0 < b \<Longrightarrow> a sdiv b = a div (b :: int)"
  by (cases "a = 0") (simp_all add: signed_divide_int_def sgn_if)

lemma smod_pos: "0 \<le> a \<Longrightarrow> 0 < b \<Longrightarrow> a smod b = a mod (b :: int)"
  unfolding signed_modulo_int_def by (cases "a = 0") (simp_all add: sgn_if)

lemma floor_era: "0 < b \<Longrightarrow> (if 0 \<le> a then a else a - (b - 1)) sdiv b = a div (b :: int)"
proof (cases "0 \<le> a")
  case False
  assume b: "0 < b"
  have "(- (a - (b - 1))) div b = - (a div b)"
  proof -
    have a: "a = b * (a div b) + a mod b" by simp
    have r: "0 \<le> a mod b" "a mod b < b" using b by simp_all
    have "- (a - (b - 1)) = b * (- (a div b)) + (b - 1 - a mod b)" using a by (simp add: algebra_simps)
    then show ?thesis by (rule int_div_pos_eq) (use r in simp_all)
  qed
  moreover have "\<bar>a - (b - 1)\<bar> = - (a - (b - 1))" "sgn (a - (b - 1)) = - 1"
    using False b by simp_all
  ultimately show ?thesis using False b by (simp add: signed_divide_int_def)
qed (simp add: sdiv_pos)

lemma floor_era_400: "(if 0 \<le> a then a else a - 399) sdiv 400 = a div (400 :: int)"
  using floor_era [of 400 a] by (simp split: if_splits)

lemma floor_era_146097: "(if 0 \<le> a then a else a - 146096) sdiv 146097 = a div (146097 :: int)"
  using floor_era [of 146097 a] by (simp split: if_splits)

lemma smod_eq_0_iff: "0 < b \<Longrightarrow> a smod b = 0 \<longleftrightarrow> a mod (b :: int) = 0"
proof -
  assume b: "0 < b"
  have *: "a smod b = sgn a * (\<bar>a\<bar> mod \<bar>b\<bar>)" using b
    by (simp add: signed_modulo_int_def signed_divide_int_def algebra_simps sgn_if
        minus_div_mult_eq_mod [symmetric])
  have "\<bar>a\<bar> mod \<bar>b\<bar> = 0 \<longleftrightarrow> a mod b = 0"
    by (metis abs_dvd_iff dvd_abs_iff mod_0_imp_dvd mod_eq_0_iff_dvd)
  then show ?thesis unfolding * by (auto simp: sgn_if)
qed

lemma is_leap_year_mod:
  "is_leap_year y \<longleftrightarrow> (y mod 4 = 0 \<and> y mod 100 \<noteq> 0) \<or> y mod 400 = 0"
  by (simp add: is_leap_year_def smod_eq_0_iff)

section \<open>The day conversions are inverse\<close>

text \<open>The conversions over flooring division, with the era made explicit.\<close>

definition era_day :: "int \<Rightarrow> int \<Rightarrow> int" where
  "era_day yoe doy = yoe * 365 + yoe div 4 - yoe div 100 + doy"

definition month_start :: "int \<Rightarrow> int" where
  "month_start mp = (153 * mp + 2) div 5"

definition year_of_era :: "int \<Rightarrow> int" where
  "year_of_era doe = (doe - doe div 1460 + doe div 36524 - doe div 146096) div 365"

text \<open>The last year of an era of 400 years that starts in March ends in a leap day.\<close>

definition long_year :: "int \<Rightarrow> bool" where
  "long_year yoe \<longleftrightarrow> (yoe mod 4 = 3 \<and> yoe mod 100 \<noteq> 99) \<or> yoe = 399"

lemma year_of_era_parts:
  assumes r: "0 \<le> c" "c \<le> 3" "0 \<le> b" "b \<le> 24" "0 \<le> a" "a \<le> 3"
    and doy: "0 \<le> doy" "doy \<le> 365" "doy = 365 \<longrightarrow> a = 3 \<and> (b \<noteq> 24 \<or> c = 3)"
  shows "year_of_era (36524 * c + 1461 * b + (365 * a + doy)) = 100 * c + 4 * b + a"
proof -
  define s where "s = 365 * a + doy"
  define D where "D = 36524 * c + 1461 * b + s"
  define e :: int where "e = (if 24 * c + b + s \<ge> 1460 then 1 else 0)"
  have s: "0 \<le> s" "s \<le> 1460" using r doy by (auto simp: s_def)
  have q1: "D div 1460 = 25 * c + b + e"
    by (rule div_eq_between) (use r s in \<open>auto simp: D_def e_def\<close>)
  have q2: "D div 36524 - D div 146096 = c"
  proof (cases "D = 146096")
    case True
    then have "c = 3" using r s by (auto simp: D_def)
    with True show ?thesis by simp
  next
    case False
    have s24: "b = 24 \<Longrightarrow> c \<noteq> 3 \<Longrightarrow> s \<noteq> 1460" using r doy by (auto simp: s_def)
    have "1461 * b + s < 36524"
      using False r s s24 by (cases "b = 24"; cases "c = 3") (auto simp: D_def)
    then have "D div 36524 = c" "D div 146096 = 0"
      using r s by (auto intro!: div_eq_between simp: D_def)
    then show ?thesis by simp
  qed
  have "(D - D div 1460 + D div 36524 - D div 146096) = 365 * (100 * c + 4 * b + a) + (doy - e)"
    using q1 q2 by (simp add: D_def s_def)
  moreover have "0 \<le> doy - e \<and> doy - e < 365"
    using r doy by (auto simp: e_def s_def)
  ultimately have "year_of_era D = 100 * c + 4 * b + a"
    unfolding year_of_era_def by (intro div_eq_between) auto
  then show ?thesis by (simp add: D_def s_def)
qed

lemma yoe_parts:
  assumes "0 \<le> yoe" "yoe < 400"
  obtains a b c where "yoe = 100 * c + 4 * b + a" "yoe div 4 = 25 * c + b" "yoe div 100 = c"
    "0 \<le> c" "c \<le> 3" "0 \<le> b" "b \<le> 24" "0 \<le> a" "a \<le> 3"
    "long_year yoe \<longleftrightarrow> a = 3 \<and> (b \<noteq> 24 \<or> c = 3)"
proof -
  define c where "c = yoe div 100"
  define r where "r = yoe mod 100"
  define b where "b = r div 4"
  define a where "a = r mod 4"
  have r: "yoe = 100 * c + r" "0 \<le> r" "r < 100" by (simp_all add: c_def r_def)
  have a: "r = 4 * b + a" "0 \<le> a" "a < 4" by (simp_all add: a_def b_def)
  have c: "0 \<le> c" "c \<le> 3" using assms by (simp_all add: c_def)
  have b: "0 \<le> b" "b \<le> 24" using r a by simp_all
  have d4: "yoe div 4 = 25 * c + b" by (rule div_eq_between) (use r a in simp_all)
  have m4: "yoe mod 4 = a"
    by (rule mod_eq_between [where q = "25 * c + b"]) (use r a in simp_all)
  have m100: "yoe mod 100 = 4 * b + a" using a by (simp add: r_def)
  have y: "yoe = 100 * c + 4 * b + a" using r a by simp
  have ly: "long_year yoe \<longleftrightarrow> a = 3 \<and> (b \<noteq> 24 \<or> c = 3)"
    unfolding long_year_def m4 m100 using y a b c by auto
  show ?thesis
    by (rule that [OF y d4 c_def [symmetric] c b a(2) _ ly]) (use a in simp)
qed

lemma era_day_props:
  assumes "0 \<le> yoe" "yoe < 400" "0 \<le> doy" "doy < (if long_year yoe then 366 else 365)"
  shows "year_of_era (era_day yoe doy) = yoe" "0 \<le> era_day yoe doy" "era_day yoe doy < 146097"
proof -
  obtain a b c where p: "yoe = 100 * c + 4 * b + a" "yoe div 4 = 25 * c + b" "yoe div 100 = c"
    "0 \<le> c" "c \<le> 3" "0 \<le> b" "b \<le> 24" "0 \<le> a" "a \<le> 3"
    and ly: "long_year yoe \<longleftrightarrow> a = 3 \<and> (b \<noteq> 24 \<or> c = 3)"
    by (rule yoe_parts [OF assms(1,2)])
  have D: "era_day yoe doy = 36524 * c + 1461 * b + (365 * a + doy)"
    unfolding era_day_def p(2,3) using p(1) by simp
  have doy: "doy \<le> 365" "doy = 365 \<longrightarrow> a = 3 \<and> (b \<noteq> 24 \<or> c = 3)"
    using assms(4) ly by (auto split: if_splits)
  show "year_of_era (era_day yoe doy) = yoe"
    unfolding D using year_of_era_parts [OF p(4-9) assms(3) doy] p(1) by simp
  show "0 \<le> era_day yoe doy" unfolding D using p assms(3) by simp
  have "365 * a + doy \<le> 1460" "365 * a + doy = 1460 \<longrightarrow> b \<noteq> 24 \<or> c = 3"
    using p doy by auto
  then show "era_day yoe doy < 146097" unfolding D using p by auto
qed

lemma era_day_surj:
  assumes "0 \<le> doe" "doe < 146097"
  obtains yoe doy where "doe = era_day yoe doy" "0 \<le> yoe" "yoe < 400" "0 \<le> doy"
    "doy < (if long_year yoe then 366 else 365)"
proof -
  define c where "c = min 3 (doe div 36524)"
  define r where "r = doe - 36524 * c"
  define b where "b = min 24 (r div 1461)"
  define s where "s = r - 1461 * b"
  define a where "a = min 3 (s div 365)"
  define doy where "doy = s - 365 * a"
  have c: "0 \<le> c" "c \<le> 3" and r: "0 \<le> r" "r \<le> 36524" "c \<noteq> 3 \<longrightarrow> r < 36524"
    using assms by (auto simp: c_def r_def min_def)
  have b: "0 \<le> b" "b \<le> 24" and s: "0 \<le> s" "s \<le> 1460" "b = 24 \<and> c \<noteq> 3 \<longrightarrow> s < 1460"
    using r by (auto simp: b_def s_def min_def)
  have a: "0 \<le> a" "a \<le> 3" and doy: "0 \<le> doy" "doy \<le> 365" "doy = 365 \<longrightarrow> a = 3"
    using s by (auto simp: a_def doy_def min_def)
  define yoe where "yoe = 100 * c + 4 * b + a"
  have y: "0 \<le> yoe" "yoe < 400" using a b c by (auto simp: yoe_def)
  have q: "yoe div 4 = 25 * c + b" "yoe div 100 = c"
    by (rule div_eq_between; use a b c in \<open>simp add: yoe_def\<close>)+
  have m: "yoe mod 4 = a"
    by (rule mod_eq_between [where q = "25 * c + b"]) (use a in \<open>auto simp: yoe_def\<close>)
  have m': "yoe mod 100 = 4 * b + a"
    by (rule mod_eq_between [where q = c]) (use a b in \<open>auto simp: yoe_def\<close>)
  have "doy = 365 \<longrightarrow> long_year yoe"
    unfolding long_year_def m m' using a b c s doy by (auto simp: doy_def yoe_def)
  moreover have "doe = era_day yoe doy"
    unfolding era_day_def q by (simp add: yoe_def doy_def s_def r_def)
  ultimately show ?thesis using that [of yoe doy] y doy by auto
qed

text \<open>
  The coordinates the algorithm works in: the era of 400 years, the year in it (starting in
  March), the month counted from March and the day counted from 0.
\<close>

definition month_len :: "int \<Rightarrow> int \<Rightarrow> int" where
  "month_len yoe mp =
     (if mp = 11 then (if long_year yoe then 29 else 28) else month_start (mp + 1) - month_start mp)"

definition coords_ok :: "int \<Rightarrow> int \<Rightarrow> int \<Rightarrow> bool" where
  "coords_ok yoe mp dd \<longleftrightarrow>
     0 \<le> yoe \<and> yoe < 400 \<and> mp \<in> {0, 1, 2, 3, 4, 5, 6, 7, 8, 9, 10, 11} \<and> 0 \<le> dd \<and> dd < month_len yoe mp"

definition date_of :: "int \<Rightarrow> int \<Rightarrow> int \<Rightarrow> int \<Rightarrow> int \<times> int \<times> int" where
  "date_of era yoe mp dd =
     (yoe + era * 400 + (if mp < 10 then 0 else 1), if mp < 10 then mp + 3 else mp - 9, dd + 1)"

definition day_of :: "int \<Rightarrow> int \<Rightarrow> int \<Rightarrow> int \<Rightarrow> int" where
  "day_of era yoe mp dd = era * 146097 + era_day yoe (month_start mp + dd) - 719468"

definition valid_civil :: "i64 \<times> i64 \<times> i64 \<Rightarrow> bool" where
  "valid_civil = (\<lambda>(y, m, d).
     case days_in_month y m of None \<Rightarrow> False | Some max_day \<Rightarrow> 1 \<le> d \<and> d \<le> max_day)"

lemma month_of_doy:
  assumes "mp \<in> {0, 1, 2, 3, 4, 5, 6, 7, 8, 9, 10, 11}" "0 \<le> dd" "dd < month_len yoe mp"
  shows "(5 * (month_start mp + dd) + 2) div 153 = mp"
  using assms by (intro div_eq_between) (auto simp: month_len_def month_start_def split: if_splits)

lemma coords_doy:
  assumes "coords_ok yoe mp dd"
  shows "0 \<le> month_start mp + dd" "month_start mp + dd < (if long_year yoe then 366 else 365)"
  using assms by (auto simp: coords_ok_def month_len_def month_start_def split: if_splits)

lemma doy_coords:
  assumes "0 \<le> yoe" "yoe < 400" "0 \<le> doy" "doy < (if long_year yoe then 366 else 365)"
  obtains mp dd where "coords_ok yoe mp dd" "doy = month_start mp + dd"
proof -
  define mp where "mp = (5 * doy + 2) div 153"
  define r where "r = (5 * doy + 2) mod 153"
  have d: "5 * doy + 2 = 153 * mp + r" "0 \<le> r" "r < 153" by (simp_all add: mp_def r_def)
  have "0 \<le> mp" "mp < 12" using d assms by (auto split: if_splits)
  then have mp: "mp \<in> {0, 1, 2, 3, 4, 5, 6, 7, 8, 9, 10, 11}" by (simp; presburger)
  then have "coords_ok yoe mp (doy - month_start mp)"
    unfolding coords_ok_def month_len_def month_start_def using assms d
    by (auto split: if_splits)
  then show ?thesis using that [of mp "doy - month_start mp"] by simp
qed

lemma days_from_civil_date_of:
  assumes "coords_ok yoe mp dd" "date_of era yoe mp dd = (y, m, d)"
  shows "days_from_civil y m d = day_of era yoe mp dd"
proof -
  let ?y = "if m \<le> 2 then y - 1 else y"
  have mp: "0 \<le> mp" "mp < 12" using assms(1) by (auto simp: coords_ok_def)
  have yoe: "0 \<le> yoe" "yoe < 400" using assms(1) by (simp_all add: coords_ok_def)
  have y: "?y = 400 * era + yoe" and m: "(if m > 2 then m - 3 else m + 9) = mp" and d: "d = dd + 1"
    using assms(2) mp by (auto simp: date_of_def split: if_splits)
  have "(if ?y \<ge> 0 then ?y else ?y - 399) sdiv 400 = ?y div 400" by (rule floor_era_400)
  also have "\<dots> = era" unfolding y using yoe by (intro div_eq_between) auto
  finally have e: "(if ?y \<ge> 0 then ?y else ?y - 399) sdiv 400 = era" .
  have "(153 * mp + 2) sdiv 5 = month_start mp" using mp by (simp add: month_start_def sdiv_pos)
  then show ?thesis
    unfolding days_from_civil_def Let_def e m unfolding y using yoe
    by (simp add: day_of_def era_day_def sdiv_pos d)
qed

lemma civil_from_days_day_of:
  assumes "coords_ok yoe mp dd"
  shows "civil_from_days (day_of era yoe mp dd) = date_of era yoe mp dd"
proof -
  let ?doy = "month_start mp + dd" let ?doe = "era_day yoe ?doy"
  let ?z = "era * 146097 + ?doe"
  have yoe: "0 \<le> yoe" "yoe < 400" and mp: "0 \<le> mp" "mp < 12" and dd: "0 \<le> dd"
    using assms by (auto simp: coords_ok_def)
  note e = era_day_props [OF yoe coords_doy [OF assms]]
  have z: "day_of era yoe mp dd + 719468 = ?z" by (simp add: day_of_def)
  have "(if ?z \<ge> 0 then ?z else ?z - 146096) sdiv 146097 = ?z div 146097"
    by (rule floor_era_146097)
  also have "\<dots> = era" using e by (intro div_eq_between) auto
  finally have era: "(if ?z \<ge> 0 then ?z else ?z - 146096) sdiv 146097 = era" .
  have doe: "?z - era * 146097 = ?doe" by simp
  have "0 \<le> ?doe - ?doe div 1460 + ?doe div 36524 - ?doe div 146096"
  proof -
    have "?doe div 1460 \<le> ?doe div 1" "?doe div 146096 \<le> ?doe div 36524"
      by (rule zdiv_mono2; use e(2) in simp)+
    then show ?thesis by simp
  qed
  then have yr: "(?doe - ?doe sdiv 1460 + ?doe sdiv 36524 - ?doe sdiv 146096) sdiv 365 = yoe"
    using e by (simp add: sdiv_pos year_of_era_def)
  have doy: "?doe - (365 * yoe + yoe sdiv 4 - yoe sdiv 100) = ?doy"
    using yoe by (simp add: era_day_def sdiv_pos)
  have mo: "(5 * ?doy + 2) sdiv 153 = mp"
    using month_of_doy [of mp dd yoe] assms coords_doy(1) [OF assms]
    by (simp add: sdiv_pos coords_ok_def)
  have st: "(153 * mp + 2) sdiv 5 = month_start mp" using mp by (simp add: month_start_def sdiv_pos)
  show ?thesis
    unfolding civil_from_days_def Let_def z era doe yr doy mo st using mp
    by (auto simp: date_of_def)
qed

lemma day_of_surj:
  obtains era yoe mp dd where "coords_ok yoe mp dd" "z = day_of era yoe mp dd"
proof -
  have "0 \<le> (z + 719468) mod 146097" "(z + 719468) mod 146097 < 146097" by simp_all
  then obtain yoe doy where d: "(z + 719468) mod 146097 = era_day yoe doy"
    and y: "0 \<le> yoe" "yoe < 400" "0 \<le> doy" "doy < (if long_year yoe then 366 else 365)"
    by (rule era_day_surj)
  obtain mp dd where c: "coords_ok yoe mp dd" "doy = month_start mp + dd" by (rule doy_coords [OF y])
  have "z + 719468 = (z + 719468) div 146097 * 146097 + (z + 719468) mod 146097" by simp
  then have "z = day_of ((z + 719468) div 146097) yoe mp dd"
    unfolding day_of_def c(2) [symmetric] d by simp
  with c(1) show ?thesis by (rule that)
qed

lemma succ_mod_eq_0:
  assumes "0 < b" shows "(x + 1) mod b = 0 \<longleftrightarrow> x mod b = b - (1 :: int)"
proof (cases "x mod b = b - 1")
  case True
  have "(x + 1) mod b = (x mod b + 1) mod b" by (simp add: mod_add_left_eq)
  with True show ?thesis by simp
next
  case False
  moreover have "0 \<le> x mod b" "x mod b < b" using assms by simp_all
  ultimately have "(x mod b + 1) mod b = x mod b + 1" by (intro mod_pos_pos_trivial) auto
  moreover have "(x + 1) mod b = (x mod b + 1) mod b" by (simp add: mod_add_left_eq)
  ultimately show ?thesis using False \<open>0 \<le> x mod b\<close> by simp
qed

lemma succ_era_mod_eq_0:
  assumes "0 < b" "b dvd c"
  shows "(yoe + era * c + 1) mod b = 0 \<longleftrightarrow> yoe mod b = b - (1 :: int)"
proof -
  obtain k where "c = b * k" using assms(2) by blast
  then have "yoe + era * c = yoe + (era * k) * b" by (simp only: mult.commute mult.left_commute)
  then have "(yoe + era * c) mod b = yoe mod b" by (simp only: mod_mult_self1)
  then show ?thesis by (simp only: succ_mod_eq_0 [OF assms(1)])
qed

lemma leap_long_year:
  assumes "0 \<le> yoe" "yoe < 400"
  shows "is_leap_year (yoe + era * 400 + 1) \<longleftrightarrow> long_year yoe"
proof -
  have y: "yoe mod 400 = yoe" using assms by (rule mod_pos_pos_trivial)
  have d: "(4 :: int) dvd 400" "(100 :: int) dvd 400" "(400 :: int) dvd 400" by simp_all
  have p: "0 < (4 :: int)" "0 < (100 :: int)" "0 < (400 :: int)" by simp_all
  show ?thesis
    unfolding is_leap_year_mod long_year_def succ_era_mod_eq_0 [OF p(1) d(1)]
      succ_era_mod_eq_0 [OF p(2) d(2)] succ_era_mod_eq_0 [OF p(3) d(3)] y by simp
qed

lemma days_in_month_date_of:
  assumes "0 \<le> yoe" "yoe < 400" "mp \<in> {0, 1, 2, 3, 4, 5, 6, 7, 8, 9, 10, 11}"
  shows "days_in_month (yoe + era * 400 + (if mp < 10 then 0 else 1)) (if mp < 10 then mp + 3 else mp - 9)
    = Some (month_len yoe mp)"
  using assms(3)
  by (elim insertE emptyE)
    (simp_all add: days_in_month_def month_len_def month_start_def leap_long_year [OF assms(1,2)])

lemma valid_civil_date_of: "coords_ok yoe mp dd \<Longrightarrow> valid_civil (date_of era yoe mp dd)"
  using days_in_month_date_of [of yoe mp era]
  by (simp add: valid_civil_def date_of_def coords_ok_def)

lemma valid_civil_coords:
  assumes "valid_civil (y, m, d)"
  obtains era yoe mp dd where "coords_ok yoe mp dd" "(y, m, d) = date_of era yoe mp dd"
proof -
  define y' where "y' = (if m \<le> 2 then y - 1 else y)"
  define mp where "mp = (if m \<le> 2 then m + 9 else m - 3)"
  have m: "m \<in> {1, 2, 3, 4, 5, 6, 7, 8, 9, 10, 11, 12}"
    using assms by (auto simp: valid_civil_def days_in_month_def split: if_splits)
  then have mp: "mp \<in> {0, 1, 2, 3, 4, 5, 6, 7, 8, 9, 10, 11}" "mp < 10 \<longleftrightarrow> \<not> m \<le> 2"
    by (auto simp: mp_def)
  have y: "y' mod 400 + y' div 400 * 400 + (if mp < 10 then 0 else 1) = y"
    and mm: "(if mp < 10 then mp + 3 else mp - 9) = m"
    using mp(2) by (simp_all add: y'_def mp_def)
  have dm: "days_in_month y m = Some (month_len (y' mod 400) mp)"
    using days_in_month_date_of [of "y' mod 400" mp "y' div 400"] mp(1) unfolding y mm by simp
  have "coords_ok (y' mod 400) mp (d - 1)"
    using assms mp(1) by (simp add: coords_ok_def valid_civil_def dm)
  moreover have "(y, m, d) = date_of (y' div 400) (y' mod 400) mp (d - 1)"
    unfolding date_of_def y mm by simp
  ultimately show ?thesis by (rule that)
qed

lemma days_from_civil_from_days:
  assumes "civil_from_days z = (y, m, d)"
  shows "days_from_civil y m d = z" "valid_civil (y, m, d)"
proof -
  obtain era yoe mp dd where c: "coords_ok yoe mp dd" "z = day_of era yoe mp dd" by (rule day_of_surj)
  with assms have d: "date_of era yoe mp dd = (y, m, d)" by (simp add: civil_from_days_day_of)
  show "days_from_civil y m d = z" using c d by (simp add: days_from_civil_date_of)
  show "valid_civil (y, m, d)" using valid_civil_date_of [OF c(1), of era] d by simp
qed

lemma civil_from_days_from_civil:
  assumes "valid_civil (y, m, d)"
  shows "civil_from_days (days_from_civil y m d) = (y, m, d)"
proof -
  obtain era yoe mp dd where c: "coords_ok yoe mp dd" and d: "(y, m, d) = date_of era yoe mp dd"
    using assms by (rule valid_civil_coords)
  show ?thesis
    using days_from_civil_date_of [OF c d [symmetric]] civil_from_days_day_of [OF c, of era] d by simp
qed

section \<open>The text form\<close>

lemma is_digit_not_sign: "is_digit c \<Longrightarrow> c \<noteq> CHR ''-'' \<and> c \<noteq> CHR ''+''"
  by (auto simp: is_digit_def)

lemma fmt_pad_nonneg:
  assumes "0 \<le> x" "x < 10 ^ Suc k"
  shows "length (fmt_pad (Suc k) x) = Suc k" "digits_val 0 (fmt_pad (Suc k) x) = Some (nat x)"
    "\<And>c. c \<in> set (fmt_pad (Suc k) x) \<Longrightarrow> is_digit c"
proof -
  have "nat x < 10 ^ Suc k" using assms by (simp add: nat_less_iff)
  then have "length (show_nat (nat x)) \<le> Suc k" by (simp only: length_show_nat)
  then show "length (fmt_pad (Suc k) x) = Suc k" using assms by (simp add: fmt_pad_def Let_def)
  show "digits_val 0 (fmt_pad (Suc k) x) = Some (nat x)"
    using assms by (simp add: fmt_pad_def Let_def digits_val_zeros digits_val_show_nat)
  show "\<And>c. c \<in> set (fmt_pad (Suc k) x) \<Longrightarrow> is_digit c"
    using assms show_nat_digits by (auto simp: fmt_pad_def Let_def is_digit_def split: if_splits)
qed

lemma parse_fmt_pad:
  assumes "0 \<le> x" "x < 10 ^ Suc k" "x < 10000"
  shows "parse_i64 (fmt_pad (Suc k) x) = Some x"
proof -
  note f = fmt_pad_nonneg [OF assms(1,2)]
  obtain c cs where c: "fmt_pad (Suc k) x = c # cs" using f(1) by (cases "fmt_pad (Suc k) x") auto
  then have "c \<noteq> CHR ''-''" "c \<noteq> CHR ''+''" using f(3) [of c] is_digit_not_sign [of c] by auto
  then show ?thesis
    using f(2) assms by (simp add: parse_i64_def c parse_digits_def i64_range_def i64_min_def i64_max_def)
qed

lemma fmt_pad_neg:
  assumes "x < 0"
  shows "fmt_pad (Suc w) x = CHR ''-'' # fmt_pad w (- x)"
  using assms by (simp add: fmt_pad_def Let_def)

lemma parse_fmt_pad_neg:
  assumes "x < 0" "- x < 10 ^ Suc k" "- x < 10000"
  shows "parse_i64 (fmt_pad (Suc (Suc k)) x) = Some x"
proof -
  have "digits_val 0 (fmt_pad (Suc k) (- x)) = Some (nat (- x))" "length (fmt_pad (Suc k) (- x)) = Suc k"
    using fmt_pad_nonneg [of "- x" k] assms by simp_all
  then show ?thesis
    unfolding fmt_pad_neg [OF assms(1)] using assms
    by (auto simp: parse_i64_def parse_digits_def i64_range_def i64_min_def i64_max_def)
qed

lemma fmt_pad_long:
  assumes "10 ^ Suc k \<le> x" shows "Suc k < length (fmt_pad w x)"
proof -
  have "0 \<le> (10 :: int) ^ Suc k" by simp
  with assms have "0 \<le> x" by linarith
  with assms have "\<not> nat x < 10 ^ Suc k" by (simp add: not_less le_nat_iff)
  with \<open>0 \<le> x\<close> have "Suc k < length (show_nat (nat \<bar>x\<bar>))"
    using length_show_nat [of "nat x" k] assms by (simp del: power_Suc)
  then show ?thesis by (simp add: fmt_pad_def Let_def)
qed

lemma fmt_pad_two:
  assumes "0 \<le> x" "x < 100"
  obtains a b where "fmt_pad 2 x = [a, b]" "parse_i64 [a, b] = Some x"
proof -
  have "length (fmt_pad 2 x) = 2" "parse_i64 (fmt_pad 2 x) = Some x"
    using fmt_pad_nonneg(1) [of x 1] parse_fmt_pad [of x 1] assms by (simp_all add: numeral_2_eq_2)
  with that show ?thesis by (auto simp: numeral_2_eq_2 length_Suc_conv)
qed

lemma fmt_pad_four:
  assumes "- 999 \<le> x" "x \<le> 9999"
  obtains a b c d where "fmt_pad 4 x = [a, b, c, d]" "parse_i64 [a, b, c, d] = Some x"
proof -
  have "length (fmt_pad 4 x) = 4 \<and> parse_i64 (fmt_pad 4 x) = Some x"
  proof (cases "x < 0")
    case False
    then show ?thesis
      using fmt_pad_nonneg(1) [of x 3] parse_fmt_pad [of x 3] assms by (simp add: eval_nat_numeral)
  next
    case True
    then show ?thesis
      using fmt_pad_neg [of x 3] fmt_pad_nonneg(1) [of "- x" 2] parse_fmt_pad_neg [of x 2] assms
      by (simp add: eval_nat_numeral)
  qed
  with that show ?thesis by (auto simp: eval_nat_numeral length_Suc_conv)
qed

lemma fmt_pad_four_long:
  assumes "\<not> (- 999 \<le> x \<and> x \<le> 9999)" shows "4 < length (fmt_pad 4 x)"
proof (cases "x < 0")
  case True
  then show ?thesis
    using fmt_pad_neg [of x 3] fmt_pad_long [of 2 "- x" 3] assms by (simp add: eval_nat_numeral)
next
  case False
  then show ?thesis using fmt_pad_long [of 3 x 4] assms by (simp add: eval_nat_numeral)
qed

lemma fmt_pad_length_ge: "w \<le> length (fmt_pad w x)"
  by (simp add: fmt_pad_def Let_def)

lemma rfc3339_to_unix_fields:
  assumes "- 999 \<le> y" "y \<le> 9999" "valid_civil (y, mo, d)"
    "0 \<le> h" "h \<le> 23" "0 \<le> mi" "mi \<le> 59" "0 \<le> s" "s \<le> 59"
  shows "rfc3339_to_unix (fmt_pad 4 y @ ''-'' @ fmt_pad 2 mo @ ''-'' @ fmt_pad 2 d @ ''T'' @
         fmt_pad 2 h @ '':'' @ fmt_pad 2 mi @ '':'' @ fmt_pad 2 s @ ''Z'')
    = Some (days_from_civil y mo d * 86400 + h * 3600 + mi * 60 + s)"
proof -
  have md: "0 \<le> mo" "mo < 100" "0 \<le> d" "d < 100"
    using assms(3) by (auto simp: valid_civil_def days_in_month_def split: if_splits option.splits)
  obtain y1 y2 y3 y4 where y: "fmt_pad 4 y = [y1, y2, y3, y4]" "parse_i64 [y1, y2, y3, y4] = Some y"
    using assms(1,2) by (rule fmt_pad_four)
  obtain o1 o2 where o: "fmt_pad 2 mo = [o1, o2]" "parse_i64 [o1, o2] = Some mo"
    using md(1,2) by (rule fmt_pad_two)
  obtain d1 d2 where d: "fmt_pad 2 d = [d1, d2]" "parse_i64 [d1, d2] = Some d"
    using md(3,4) by (rule fmt_pad_two)
  obtain h1 h2 where h: "fmt_pad 2 h = [h1, h2]" "parse_i64 [h1, h2] = Some h"
    using assms(4,5) by (auto intro: fmt_pad_two [of h])
  obtain m1 m2 where m: "fmt_pad 2 mi = [m1, m2]" "parse_i64 [m1, m2] = Some mi"
    using assms(6,7) by (auto intro: fmt_pad_two [of mi])
  obtain s1 s2 where s: "fmt_pad 2 s = [s1, s2]" "parse_i64 [s1, s2] = Some s"
    using assms(8,9) by (auto intro: fmt_pad_two [of s])
  show ?thesis
    using assms y(2) o(2) d(2) h(2) m(2) s(2)
    by (auto simp: y o d h m s rfc3339_to_unix_def field_def valid_civil_def split: option.splits)
qed

lemma hms_split:
  assumes "0 \<le> (r :: int)" "r < 86400"
  shows "0 \<le> r sdiv 3600" "r sdiv 3600 \<le> 23" "0 \<le> (r smod 3600) sdiv 60" "(r smod 3600) sdiv 60 \<le> 59"
    "0 \<le> r smod 60" "r smod 60 \<le> 59" "r sdiv 3600 * 3600 + (r smod 3600) sdiv 60 * 60 + r smod 60 = r"
proof -
  have "r mod 3600 mod 60 = r mod 60" by (rule mod_mod_cancel) simp
  then have "r div 3600 * 3600 + (r mod 3600) div 60 * 60 + r mod 60 = r"
    using div_mult_mod_eq [of r 3600] div_mult_mod_eq [of "r mod 3600" 60] by linarith
  moreover have "0 \<le> r mod 3600" "r mod 3600 < 3600" by simp_all
  ultimately show "0 \<le> r sdiv 3600" "r sdiv 3600 \<le> 23" "0 \<le> (r smod 3600) sdiv 60"
    "(r smod 3600) sdiv 60 \<le> 59" "0 \<le> r smod 60" "r smod 60 \<le> 59"
    "r sdiv 3600 * 3600 + (r smod 3600) sdiv 60 * 60 + r smod 60 = r"
    using assms by (simp_all add: sdiv_pos smod_pos)
qed

lemma rfc3339_round_trip_year:
  assumes "civil_from_days (t div 86400) = (y, m, d)" "- 999 \<le> y" "y \<le> 9999"
  shows "rfc3339_to_unix (unix_to_rfc3339 t) = Some t"
proof -
  note c = days_from_civil_from_days [OF assms(1)]
  have r: "0 \<le> t mod 86400" "t mod 86400 < 86400" by simp_all
  note h = hms_split [OF r]
  have "rfc3339_to_unix (unix_to_rfc3339 t) = Some (t div 86400 * 86400 +
      (t mod 86400 sdiv 3600) * 3600 + (t mod 86400 smod 3600 sdiv 60) * 60 + t mod 86400 smod 60)"
    unfolding unix_to_rfc3339_def assms(1) Let_def prod.case
      rfc3339_to_unix_fields [OF assms(2,3) c(2) h(1-6)] c(1) ..
  also have "\<dots> = Some t"
    unfolding option.inject using h(7) div_mult_mod_eq [of t 86400] by linarith
  finally show ?thesis .
qed

lemma rfc3339_long_year:
  assumes "civil_from_days (t div 86400) = (y, m, d)" "\<not> (- 999 \<le> y \<and> y \<le> 9999)"
  shows "rfc3339_to_unix (unix_to_rfc3339 t) = None"
proof -
  let ?r = "t mod 86400"
  have "20 < length (fmt_pad 4 y) + length (fmt_pad 2 m) + length (fmt_pad 2 d) +
      length (fmt_pad 2 (?r sdiv 3600)) + length (fmt_pad 2 ((?r smod 3600) sdiv 60)) +
      length (fmt_pad 2 (?r smod 60)) + 6"
    using fmt_pad_four_long [OF assms(2)] fmt_pad_length_ge [of 2 m] fmt_pad_length_ge [of 2 d]
      fmt_pad_length_ge [of 2 "?r sdiv 3600"] fmt_pad_length_ge [of 2 "(?r smod 3600) sdiv 60"]
      fmt_pad_length_ge [of 2 "?r smod 60"] by linarith
  then have "length (unix_to_rfc3339 t) \<noteq> 20"
    by (simp add: unix_to_rfc3339_def assms(1) Let_def)
  then show ?thesis by (simp add: rfc3339_to_unix_def)
qed

text \<open>The seconds from the start of year 0 to the end of year 9999.\<close>

definition representable :: "i64 \<Rightarrow> bool" where
  "representable t \<longleftrightarrow> - 62167219200 \<le> t \<and> t < 253402300800"

lemma year_bounds:
  assumes c: "coords_ok yoe mp dd" and d: "date_of era yoe mp dd = (y, m, d0)"
    and z: "- 719528 \<le> day_of era yoe mp dd" "day_of era yoe mp dd < 2932897"
  shows "0 \<le> y" "y \<le> 9999"
proof -
  let ?doy = "month_start mp + dd" let ?doe = "era_day yoe ?doy"
  have yoe: "0 \<le> yoe" "yoe < 400" using c by (simp_all add: coords_ok_def)
  note doy = coords_doy [OF c] note e = era_day_props [OF yoe doy]
  have d366: "?doy \<le> 365" using doy by (auto split: if_splits)
  have y: "y = yoe + era * 400 + (if mp < 10 then 0 else 1)" using d by (simp add: date_of_def)
  have mp: "mp < 10 \<longleftrightarrow> ?doy < 306"
    using c by (auto simp: coords_ok_def month_len_def month_start_def split: if_splits)
  have d399: "?doe = 145731 + ?doy" if "yoe = 399" using that by (simp add: era_day_def)
  have d398: "?doe < 146000" if "yoe \<noteq> 399"
  proof -
    have "yoe \<le> 398" "yoe div 4 \<le> 99" "0 \<le> yoe div 100" using that yoe by auto
    with d366 show ?thesis by (simp add: era_day_def)
  qed
  have z': "- 60 \<le> era * 146097 + ?doe" "era * 146097 + ?doe < 3652365"
    using z by (simp_all add: day_of_def)
  have era: "- 1 \<le> era" "era \<le> 24" using z' e by linarith+
  show "0 \<le> y"
  proof (cases "era = - 1")
    case True
    with z' d398 d399 have "yoe = 399" "306 \<le> ?doy" by force+
    with True mp y show ?thesis by simp
  qed (use era y yoe in auto)
  show "y \<le> 9999"
  proof (cases "era = 24 \<and> yoe = 399")
    case True
    with z' d399 have "?doy < 306" by simp
    with True mp y show ?thesis by simp
  qed (use era y yoe in auto)
qed

lemma rfc3339_round_trip_range:
  assumes "representable t"
  shows "rfc3339_to_unix (unix_to_rfc3339 t) = Some t"
proof -
  obtain era yoe mp dd where c: "coords_ok yoe mp dd" "t div 86400 = day_of era yoe mp dd"
    by (rule day_of_surj)
  obtain y m d where d: "date_of era yoe mp dd = (y, m, d)" by (metis prod_cases3)
  have "- 719528 \<le> t div 86400" "t div 86400 < 2932897" using assms by (auto simp: representable_def)
  then have "0 \<le> y" "y \<le> 9999" using year_bounds [OF c(1) d] c(2) by simp_all
  moreover have "civil_from_days (t div 86400) = (y, m, d)"
    using civil_from_days_day_of [OF c(1)] c(2) d by simp
  ultimately show ?thesis by (intro rfc3339_round_trip_year) auto
qed

lemma late_year:
  assumes "civil_from_days z = (y, m, d)" "2932897 \<le> z" shows "9999 < y"
proof -
  obtain era yoe mp dd where c: "coords_ok yoe mp dd" and z: "z = day_of era yoe mp dd" by (rule day_of_surj)
  let ?doy = "month_start mp + dd" let ?doe = "era_day yoe ?doy"
  have "date_of era yoe mp dd = (y, m, d)" using assms(1) civil_from_days_day_of [OF c] z by simp
  then have y: "y = yoe + era * 400 + (if mp < 10 then 0 else 1)" by (simp add: date_of_def)
  have yoe: "0 \<le> yoe" "yoe < 400" using c by (simp_all add: coords_ok_def)
  note doy = coords_doy [OF c] note e = era_day_props [OF yoe doy]
  have d366: "?doy \<le> 365" using doy by (auto split: if_splits)
  have mp: "mp < 10 \<longleftrightarrow> ?doy < 306"
    using c by (auto simp: coords_ok_def month_len_def month_start_def split: if_splits)
  have z': "3652365 \<le> era * 146097 + ?doe" using assms(2) z by (simp add: day_of_def)
  have "24 \<le> era" using z' e by linarith
  show ?thesis
  proof (cases "era = 24")
    case True
    have "yoe = 399"
    proof (rule ccontr)
      assume "yoe \<noteq> 399"
      then have "yoe \<le> 398" "yoe div 4 \<le> 99" "0 \<le> yoe div 100" using yoe by auto
      with d366 True z' show False by (simp add: era_day_def)
    qed
    with True z' have "306 \<le> ?doy" by (simp add: era_day_def)
    with True mp y \<open>yoe = 399\<close> show ?thesis by simp
  qed (use \<open>24 \<le> era\<close> y yoe in auto)
qed

section \<open>Properties\<close>

text \<open>
  The two calendar conversions are inverse: every day number has a valid civil date that
  leads back to it, and every valid civil date, of any year, is the date of its day number.
\<close>

lemma civil_days_inverse:
  "(case civil_from_days z of (y, m, d) \<Rightarrow> days_from_civil y m d = z \<and> (\<exists>n. days_in_month y m = Some n \<and> 1 \<le> d \<and> d \<le> n)) \<and>
   (days_in_month y m = Some n \<longrightarrow> 1 \<le> d \<longrightarrow> d \<le> n \<longrightarrow> civil_from_days (days_from_civil y m d) = (y, m, d))"
proof -
  obtain y' m' d' where c: "civil_from_days z = (y', m', d')" by (metis prod_cases3)
  show ?thesis
    using days_from_civil_from_days [OF c] civil_from_days_from_civil [of y m d] c
    by (auto simp: valid_civil_def split: option.splits)
qed

text \<open>
  C25. Timestamps round trip exactly in the years that four characters can hold: a time prints
  to a timestamp that parses back to it when its civil year lies between -999 and 9999, and to
  one that does not parse at all otherwise.
\<close>

theorem rfc3339_round_trip:
  "rfc3339_to_unix (unix_to_rfc3339 t) =
     (case civil_from_days (t div 86400) of (y, m, d) \<Rightarrow> if - 999 \<le> y \<and> y \<le> 9999 then Some t else None)"
proof -
  obtain y m d where c: "civil_from_days (t div 86400) = (y, m, d)" by (metis prod_cases3)
  show ?thesis
    using rfc3339_round_trip_year [OF c] rfc3339_long_year [OF c] c by (cases "- 999 \<le> y \<and> y \<le> 9999") auto
qed

end
