(* ===== verification/Claim_Engine.thy ===== *)
theory Claim_Engine
  imports Claim_Contracts Civil_Time
begin

text \<open>
  The claim lifecycle engine, \<open>src/crates/forge-core-decisions/src/claim_engine.rs\<close>: pure
  decisions on claims at an injected time.  Every early return of the source is a branch of
  the definition of the same name.  The parameter \<open>lower\<close> is the Unicode lowercasing of path
  segments (see \<open>Repo_Paths\<close>).

  The lemmas give each operation's behaviour on every branch: when \<open>acquire\<close> accepts, how
  long an accepted claim is live, what a heartbeat, a release, a handoff and a reconcile
  pass may change, and that no operation revives a claim that has left the open states.
\<close>

section \<open>Requests, decisions and rejections\<close>

record AcquireRequest =
  rq_scope_kind :: ClaimScopeKind
  rq_scope_id :: ScopeId
  rq_principal_id :: "PrincipalId option"
  rq_agent_id :: StableId
  rq_role :: ActorRole
  rq_ttl_seconds :: u64
  rq_heartbeat_interval_seconds :: u64
  rq_paths :: "RepoPath list"
  rq_product_area :: "StableId option"
  rq_expected_state_version :: "u64 option"

record RecordHandoffRequest =
  recorder_agent_id :: StableId
  rh_summary :: string
  rh_evidence_refs :: "string list"

definition default_kind :: "AcquireRequest \<Rightarrow> ClaimKind" where
  "default_kind req =
     (case rq_scope_kind req of
        SkStory \<Rightarrow> CkStory
      | SkLane \<Rightarrow> CkLane
      | SkProductArea \<Rightarrow> CkProductArea
      | SkIntegration \<Rightarrow> CkIntegration
      | SkIntegrationState \<Rightarrow> CkIntegration
      | SkProject \<Rightarrow> CkDriver)"

datatype ClaimRejection =
  AlreadyClaimedByOther (rj_scope_id: ScopeId) (rj_holder: StableId) (rj_expires_at: string)
    (rj_conflict: "ConflictContract option")
| PathAlreadyClaimed (rj_path: RepoPath) (blocking_claim_id: ClaimId) (rj_holder: StableId)
    (rj_expires_at: string) (rj_conflict: "ConflictContract option")
| NotClaimant (rj_claim_id: ClaimId) (rj_claimant: StableId) (rj_requested_by: StableId)
| ExpiredRequiresHandoff (rj_claim_id: ClaimId)
| IllegalTransition (rj_claim_id: ClaimId) (rj_from: ClaimStatus) (rj_to: ClaimStatus)
| InvalidRequest (rj_field: string) (rj_message: string)

datatype ClaimLifecycleDecision = Accepted ClaimContract | Rejected ClaimRejection

record ActiveClaimSummary =
  acs_claim_id :: string
  acs_scope_kind :: string
  acs_scope_id :: string
  acs_principal_id :: "string option"
  acs_agent_id :: string
  acs_role :: string
  acs_acquired_at :: string
  acs_expires_at :: string
  acs_status :: string
  acs_paths :: "string list"

record ClaimExpiry =
  ce_claim_id :: ClaimId
  transitioned_to :: ClaimStatus

record ClaimReconcileTransition =
  crt_claim_id :: ClaimId
  crt_from :: ClaimStatus
  crt_to :: ClaimStatus
  crt_reason_code :: StableId
  crt_updated :: ClaimContract

record ClaimReconcileReport =
  crr_scanned :: nat
  crr_transitions :: "ClaimReconcileTransition list"

section \<open>Predicates and helpers\<close>

definition is_expired :: "ClaimContract \<Rightarrow> i64 \<Rightarrow> bool" where
  "is_expired claim now_unix =
     (case rfc3339_to_unix (expires_at (cc_lease claim)) of
        Some e \<Rightarrow> now_unix \<ge> e
      | None \<Rightarrow> True)"

definition is_live :: "ClaimContract \<Rightarrow> i64 \<Rightarrow> bool" where
  "is_live claim now_unix \<longleftrightarrow>
     csr_value (cc_status claim) \<in> {Active, Stale} \<and> \<not> is_expired claim now_unix"

definition claim_holds_scope :: "ClaimContract \<Rightarrow> ClaimScopeKind \<Rightarrow> ScopeId \<Rightarrow> bool" where
  "claim_holds_scope claim scope_kind scope_id \<longleftrightarrow>
     cs_kind (cc_scope claim) = scope_kind \<and> cs_id (cc_scope claim) = scope_id"

definition scope_kind_slug :: "ClaimScopeKind \<Rightarrow> string" where
  "scope_kind_slug k =
     (case k of
        SkProject \<Rightarrow> ''project''
      | SkProductArea \<Rightarrow> ''product_area''
      | SkStory \<Rightarrow> ''story''
      | SkLane \<Rightarrow> ''lane''
      | SkIntegration \<Rightarrow> ''integration''
      | SkIntegrationState \<Rightarrow> ''integration_state'')"

definition actor_role_slug :: "ActorRole \<Rightarrow> string" where
  "actor_role_slug r =
     (case r of
        ArDriver \<Rightarrow> ''driver''
      | ArWorker \<Rightarrow> ''worker''
      | ArHuman \<Rightarrow> ''human''
      | ArRuntime \<Rightarrow> ''runtime''
      | ArUnknown \<Rightarrow> ''unknown'')"

definition status_slug :: "ClaimStatus \<Rightarrow> string" where
  "status_slug s =
     (case s of
        Active \<Rightarrow> ''active''
      | Stale \<Rightarrow> ''stale''
      | Expired \<Rightarrow> ''expired''
      | HandoffRequired \<Rightarrow> ''handoff_required''
      | HandoffRecorded \<Rightarrow> ''handoff_recorded''
      | Released \<Rightarrow> ''released'')"

definition default_expiry_policy :: ExpiryPolicy where
  "default_expiry_policy =
     \<lparr> on_expiry = RecordHandoffRequest,
       handoff_required = True,
       release_without_handoff_allowed = False,
       reclaim_policy = RpDriverReview,
       handoff_request_ref = Some ''contracts/requests/claim-expiry-handoff-request.yaml'' \<rparr>"

definition first_overlapping_path ::
    "(string \<Rightarrow> string) \<Rightarrow> RepoPath list \<Rightarrow> RepoPath list \<Rightarrow> RepoPath option" where
  "first_overlapping_path lower requested existing =
     find (\<lambda>requested_path. list_ex (\<lambda>existing_path.
        repo_paths_overlap lower requested_path existing_path) existing) requested"

text \<open>The two parties of a conflict, as \<open>ConflictActor\<close> carries them: principal and agent.\<close>

type_synonym ConflictActor = "PrincipalId option \<times> StableId"

definition actor_principal :: "ConflictActor \<Rightarrow> PrincipalId" where
  "actor_principal actor = (case fst actor of Some p \<Rightarrow> p | None \<Rightarrow> snd actor)"

definition build_conflict ::
    "ConflictActor \<Rightarrow> ConflictActor \<Rightarrow> IntentScopeKind \<Rightarrow> string \<Rightarrow> ConflictDetectionReason \<Rightarrow> i64
     \<Rightarrow> ConflictContract option" where
  "build_conflict requester holder scope_kind contested_target reason now_unix =
     (let pa = actor_principal requester; pb = actor_principal holder in
      if pa = pb then None
      else
        let (lo, hi) = (if pa \<le> pb then (pa, pb) else (pb, pa)) in
        Some \<lparr> conflict_id = ''conflict.'' @ lo @ ''.'' @ hi @ ''.'' @ contested_target,
               intent_a = pa,
               intent_b = pb,
               principal_a = pa,
               principal_b = pb,
               contested_scope = \<lparr> is_kind = scope_kind, is_target = contested_target \<rparr>,
               detection_reason = reason,
               detected_at = word_of_int (max now_unix 0),
               resolution = Pending \<rparr>)"

definition checked_lease_expiry :: "i64 \<Rightarrow> u64 \<Rightarrow> string \<Rightarrow> ClaimRejection + i64" where
  "checked_lease_expiry now_unix ttl fld =
     (case i64_try_from ttl of
        None \<Rightarrow> Inl (InvalidRequest fld
          ''lease ttl_seconds exceeds the supported signed epoch range'')
      | Some t \<Rightarrow>
          (case i64_checked_add now_unix t of
             None \<Rightarrow> Inl (InvalidRequest fld
               ''lease expires_at would overflow the supported signed epoch range'')
           | Some e \<Rightarrow> Inr e))"

section \<open>Acquire\<close>

text \<open>The first loop of \<open>acquire\<close>: claims that hold the requested scope.\<close>

fun acquire_scope_scan :: "AcquireRequest \<Rightarrow> i64 \<Rightarrow> ClaimContract list \<Rightarrow> ClaimRejection option" where
  "acquire_scope_scan req now_unix [] = None"
| "acquire_scope_scan req now_unix (c # cs) =
     (if \<not> claim_holds_scope c (rq_scope_kind req) (rq_scope_id req) then
        acquire_scope_scan req now_unix cs
      else if is_live c now_unix then
        Some (AlreadyClaimedByOther (rq_scope_id req) (claimant_agent_id (cc_claim c))
          (expires_at (cc_lease c))
          (build_conflict (rq_principal_id req, rq_agent_id req)
             (claimant_principal_id (cc_claim c), claimant_agent_id (cc_claim c))
             IskProject (rq_scope_id req) AuthorityScopeOverlap now_unix))
      else if csr_value (cc_status c) \<in> {Active, Stale} \<and> is_expired c now_unix
              \<and> handoff_required (expiry_policy c) then
        Some (ExpiredRequiresHandoff (cc_id c))
      else if csr_value (cc_status c) = HandoffRequired then
        Some (ExpiredRequiresHandoff (cc_id c))
      else acquire_scope_scan req now_unix cs)"

text \<open>The second loop: claims whose paths overlap the requested ones.\<close>

fun acquire_path_scan ::
    "(string \<Rightarrow> string) \<Rightarrow> AcquireRequest \<Rightarrow> i64 \<Rightarrow> ClaimContract list \<Rightarrow> ClaimRejection option" where
  "acquire_path_scan lower req now_unix [] = None"
| "acquire_path_scan lower req now_unix (c # cs) =
     (case first_overlapping_path lower (rq_paths req) (cs_paths (cc_scope c)) of
        None \<Rightarrow> acquire_path_scan lower req now_unix cs
      | Some path \<Rightarrow>
          if is_live c now_unix then
            Some (PathAlreadyClaimed path (cc_id c) (claimant_agent_id (cc_claim c))
              (expires_at (cc_lease c))
              (build_conflict (rq_principal_id req, rq_agent_id req)
                 (claimant_principal_id (cc_claim c), claimant_agent_id (cc_claim c))
                 IskPathPrefix path PathOverlap now_unix))
          else if csr_value (cc_status c) \<in> {Active, Stale} \<and> is_expired c now_unix
                  \<and> handoff_required (expiry_policy c) then
            Some (ExpiredRequiresHandoff (cc_id c))
          else if csr_value (cc_status c) = HandoffRequired then
            Some (ExpiredRequiresHandoff (cc_id c))
          else acquire_path_scan lower req now_unix cs)"

definition acquired_claim :: "AcquireRequest \<Rightarrow> i64 \<Rightarrow> i64 \<Rightarrow> ClaimContract" where
  "acquired_claim req now_unix expires_unix =
     (let now = unix_to_rfc3339 now_unix in
      \<lparr> cc_id = ''claim.'' @ scope_kind_slug (rq_scope_kind req) @ ''.'' @ rq_scope_id req @ ''.''
          @ rq_scope_id req,
        contract_ref = ''contracts/claims/claim-contract-v0.yaml'',
        cc_claim =
          \<lparr> ci_kind = default_kind req,
            claimant_principal_id = rq_principal_id req,
            claimant_agent_id = rq_agent_id req,
            claimant_role = rq_role req,
            registry_ref = None \<rparr>,
        cc_scope =
          \<lparr> cs_kind = rq_scope_kind req,
            cs_id = rq_scope_id req,
            product_area = rq_product_area req,
            cs_paths = rq_paths req \<rparr>,
        cc_lease =
          \<lparr> acquired_at = now,
            last_heartbeat_at = now,
            expires_at = unix_to_rfc3339 expires_unix,
            ttl_seconds = rq_ttl_seconds req,
            heartbeat_interval_seconds = rq_heartbeat_interval_seconds req,
            expected_state_version =
              (case rq_expected_state_version req of Some v \<Rightarrow> v | None \<Rightarrow> 0) \<rparr>,
        cc_status = \<lparr> csr_value = Active, evaluated_at = now, reason_code = None \<rparr>,
        expiry_policy = default_expiry_policy,
        evidence_refs = [] \<rparr>)"

definition acquire ::
    "(string \<Rightarrow> string) \<Rightarrow> ClaimContract list \<Rightarrow> AcquireRequest \<Rightarrow> i64 \<Rightarrow> ClaimLifecycleDecision" where
  "acquire lower active req now_unix =
     (case acquire_scope_scan req now_unix active of
        Some rejection \<Rightarrow> Rejected rejection
      | None \<Rightarrow>
          (case acquire_path_scan lower req now_unix active of
             Some rejection \<Rightarrow> Rejected rejection
           | None \<Rightarrow>
               (case checked_lease_expiry now_unix (rq_ttl_seconds req) ''ttl_seconds'' of
                  Inl rejection \<Rightarrow> Rejected rejection
                | Inr expires_unix \<Rightarrow> Accepted (acquired_claim req now_unix expires_unix))))"

section \<open>Heartbeat, release, handoff\<close>

definition heartbeat :: "ClaimContract \<Rightarrow> StableId \<Rightarrow> i64 \<Rightarrow> ClaimLifecycleDecision" where
  "heartbeat claim agent_id now_unix =
     (if claimant_agent_id (cc_claim claim) \<noteq> agent_id then
        Rejected (NotClaimant (cc_id claim) (claimant_agent_id (cc_claim claim)) agent_id)
      else if csr_value (cc_status claim) = HandoffRequired then
        Rejected (ExpiredRequiresHandoff (cc_id claim))
      else if csr_value (cc_status claim) \<notin> {Active, Stale} then
        Rejected (IllegalTransition (cc_id claim) (csr_value (cc_status claim)) Active)
      else if is_expired claim now_unix then
        Rejected (ExpiredRequiresHandoff (cc_id claim))
      else
        (case checked_lease_expiry now_unix (ttl_seconds (cc_lease claim)) ''lease.ttl_seconds'' of
           Inl rejection \<Rightarrow> Rejected rejection
         | Inr expires_unix \<Rightarrow>
             Accepted (claim
               \<lparr> cc_lease := (cc_lease claim)
                   \<lparr> last_heartbeat_at := unix_to_rfc3339 now_unix,
                     expires_at := unix_to_rfc3339 expires_unix \<rparr>,
                 cc_status := \<lparr> csr_value = Active, evaluated_at = unix_to_rfc3339 now_unix,
                   reason_code = None \<rparr> \<rparr>)))"

definition release :: "ClaimContract \<Rightarrow> StableId \<Rightarrow> i64 \<Rightarrow> ClaimLifecycleDecision" where
  "release claim agent_id now_unix =
     (if claimant_agent_id (cc_claim claim) \<noteq> agent_id then
        Rejected (NotClaimant (cc_id claim) (claimant_agent_id (cc_claim claim)) agent_id)
      else if csr_value (cc_status claim) = HandoffRequired then
        Rejected (ExpiredRequiresHandoff (cc_id claim))
      else if csr_value (cc_status claim) \<notin> {Active, Stale} then
        Rejected (IllegalTransition (cc_id claim) (csr_value (cc_status claim)) Released)
      else if is_expired claim now_unix \<and>
          (handoff_required (expiry_policy claim)
           \<or> \<not> release_without_handoff_allowed (expiry_policy claim)) then
        Rejected (ExpiredRequiresHandoff (cc_id claim))
      else
        Accepted (claim
          \<lparr> cc_status := \<lparr> csr_value = Released, evaluated_at = unix_to_rfc3339 now_unix,
              reason_code = Some ''released_by_claimant'' \<rparr> \<rparr>))"

fun push_missing :: "string list \<Rightarrow> string list \<Rightarrow> string list" where
  "push_missing refs [] = refs"
| "push_missing refs (e # es) = push_missing (if e \<in> set refs then refs else refs @ [e]) es"

definition record_handoff :: "ClaimContract \<Rightarrow> RecordHandoffRequest \<Rightarrow> i64 \<Rightarrow> ClaimLifecycleDecision" where
  "record_handoff claim req now_unix =
     (let illegal = Rejected (IllegalTransition (cc_id claim) (csr_value (cc_status claim))
            HandoffRecorded);
          next = claim
            \<lparr> cc_status := \<lparr> csr_value = HandoffRecorded, evaluated_at = unix_to_rfc3339 now_unix,
                reason_code = Some (''handoff_recorded_by_'' @ recorder_agent_id req) \<rparr>,
              evidence_refs := push_missing (evidence_refs claim) (rh_evidence_refs req) \<rparr>
      in if is_blank (rh_summary req) then
           Rejected (InvalidRequest ''summary'' ''handoff summary is required'')
         else if \<not> handoff_required (expiry_policy claim) then illegal
         else
           (case csr_value (cc_status claim) of
              Active \<Rightarrow> if \<not> is_expired claim now_unix then illegal else Accepted next
            | Stale \<Rightarrow> if \<not> is_expired claim now_unix then illegal else Accepted next
            | HandoffRequired \<Rightarrow> Accepted next
            | _ \<Rightarrow> illegal))"

section \<open>Expiry, reconciliation and the bus view\<close>

definition expire_stale :: "ClaimContract list \<Rightarrow> i64 \<Rightarrow> ClaimExpiry list" where
  "expire_stale claims now_unix =
     map (\<lambda>c. \<lparr> ce_claim_id = cc_id c,
                transitioned_to =
                  (if handoff_required (expiry_policy c) then HandoffRequired else Expired) \<rparr>)
       (filter (\<lambda>c. csr_value (cc_status c) \<in> {Active, Stale} \<and> is_expired c now_unix) claims)"

definition heartbeat_stale_reason :: "ClaimContract \<Rightarrow> i64 \<Rightarrow> StableId option" where
  "heartbeat_stale_reason claim now_unix =
     (case rfc3339_to_unix (last_heartbeat_at (cc_lease claim)) of
        None \<Rightarrow> Some ''last_heartbeat_unparseable''
      | Some last_heartbeat_unix \<Rightarrow>
          (case i64_try_from (heartbeat_interval_seconds (cc_lease claim)) of
             None \<Rightarrow> Some ''heartbeat_interval_unrepresentable''
           | Some interval \<Rightarrow>
               (case i64_checked_add last_heartbeat_unix interval of
                  None \<Rightarrow> Some ''heartbeat_stale_at_overflow''
                | Some stale_at \<Rightarrow>
                    if now_unix \<ge> stale_at then Some ''heartbeat_overdue'' else None)))"

definition reconciled_transition ::
    "ClaimContract \<Rightarrow> i64 \<Rightarrow> ClaimStatus \<Rightarrow> StableId \<Rightarrow> ClaimReconcileTransition" where
  "reconciled_transition claim now_unix to_status reason =
     \<lparr> crt_claim_id = cc_id claim,
       crt_from = csr_value (cc_status claim),
       crt_to = to_status,
       crt_reason_code = reason,
       crt_updated = claim
         \<lparr> cc_status := \<lparr> csr_value = to_status, evaluated_at = unix_to_rfc3339 now_unix,
             reason_code = Some reason \<rparr> \<rparr> \<rparr>"

definition reconcile_claim :: "ClaimContract \<Rightarrow> i64 \<Rightarrow> ClaimReconcileTransition option" where
  "reconcile_claim claim now_unix =
     (if csr_value (cc_status claim) \<in> {Active, Stale} \<and> is_expired claim now_unix then
        Some (reconciled_transition claim now_unix
          (if handoff_required (expiry_policy claim) then HandoffRequired else Expired)
          ''lease_expired'')
      else if csr_value (cc_status claim) = Active then
        map_option (reconciled_transition claim now_unix Stale) (heartbeat_stale_reason claim now_unix)
      else None)"

definition reconcile_claims :: "ClaimContract list \<Rightarrow> i64 \<Rightarrow> ClaimReconcileReport" where
  "reconcile_claims claims now_unix =
     \<lparr> crr_scanned = length claims,
       crr_transitions = List.map_filter (\<lambda>claim. reconcile_claim claim now_unix) claims \<rparr>"

definition project_active :: "ClaimContract list \<Rightarrow> i64 \<Rightarrow> ActiveClaimSummary list" where
  "project_active claims now_unix =
     map (\<lambda>c. \<lparr> acs_claim_id = cc_id c,
                acs_scope_kind = scope_kind_slug (cs_kind (cc_scope c)),
                acs_scope_id = cs_id (cc_scope c),
                acs_principal_id = claimant_principal_id (cc_claim c),
                acs_agent_id = claimant_agent_id (cc_claim c),
                acs_role = actor_role_slug (claimant_role (cc_claim c)),
                acs_acquired_at = acquired_at (cc_lease c),
                acs_expires_at = expires_at (cc_lease c),
                acs_status = status_slug (csr_value (cc_status c)),
                acs_paths = cs_paths (cc_scope c) \<rparr>)
       (filter (\<lambda>c. is_live c now_unix) claims)"

section \<open>When a claim blocks its scope and its paths\<close>

definition open_claim :: "ClaimContract \<Rightarrow> bool" where
  "open_claim c \<longleftrightarrow> csr_value (cc_status c) \<in> {Active, Stale, HandoffRequired}"

definition blocks_acquire :: "ClaimContract \<Rightarrow> i64 \<Rightarrow> bool" where
  "blocks_acquire c now \<longleftrightarrow>
     csr_value (cc_status c) = HandoffRequired \<or>
     csr_value (cc_status c) \<in> {Active, Stale} \<and>
       (\<not> is_expired c now \<or> handoff_required (expiry_policy c))"

definition paths_overlap :: "(string \<Rightarrow> string) \<Rightarrow> RepoPath list \<Rightarrow> RepoPath list \<Rightarrow> bool" where
  "paths_overlap lower ps qs \<longleftrightarrow> (\<exists>p\<in>set ps. \<exists>q\<in>set qs. repo_paths_overlap lower p q)"

lemma paths_overlap_sym: "paths_overlap lower ps qs \<longleftrightarrow> paths_overlap lower qs ps"
  unfolding paths_overlap_def using repo_paths_overlap_sym by blast

lemma blocks_acquire_open: "handoff_required (expiry_policy c) \<Longrightarrow> blocks_acquire c now \<longleftrightarrow> open_claim c"
  by (auto simp: blocks_acquire_def open_claim_def)

lemma is_live_blocks: "is_live c now \<Longrightarrow> blocks_acquire c now"
  by (auto simp: is_live_def blocks_acquire_def)

lemma blocks_acquire_is_open: "blocks_acquire c now \<Longrightarrow> open_claim c"
  by (auto simp: blocks_acquire_def open_claim_def)

lemma first_overlapping_path_None:
  "first_overlapping_path lower ps qs = None \<longleftrightarrow> \<not> paths_overlap lower ps qs"
  by (auto simp: first_overlapping_path_def find_None_iff list_ex_iff paths_overlap_def)

lemma first_overlapping_path_Some:
  "first_overlapping_path lower ps qs = Some p \<Longrightarrow> p \<in> set ps \<and> (\<exists>q\<in>set qs. repo_paths_overlap lower p q)"
  by (auto simp: first_overlapping_path_def find_Some_iff list_ex_iff)

lemma acquire_scope_scan_None:
  "acquire_scope_scan req now cs = None \<longleftrightarrow>
     (\<forall>c\<in>set cs. claim_holds_scope c (rq_scope_kind req) (rq_scope_id req) \<longrightarrow> \<not> blocks_acquire c now)"
  by (induction cs) (auto simp: blocks_acquire_def is_live_def)

lemma acquire_path_scan_None:
  "acquire_path_scan lower req now cs = None \<longleftrightarrow>
     (\<forall>c\<in>set cs. paths_overlap lower (rq_paths req) (cs_paths (cc_scope c)) \<longrightarrow> \<not> blocks_acquire c now)"
proof (induction cs)
  case (Cons c cs)
  show ?case
  proof (cases "first_overlapping_path lower (rq_paths req) (cs_paths (cc_scope c))")
    case None
    then have "\<not> paths_overlap lower (rq_paths req) (cs_paths (cc_scope c))"
      using first_overlapping_path_None by blast
    with None Cons show ?thesis by simp
  next
    case (Some p)
    then have "paths_overlap lower (rq_paths req) (cs_paths (cc_scope c))"
      using first_overlapping_path_None [of lower "rq_paths req" "cs_paths (cc_scope c)"] by simp
    with Some Cons show ?thesis by (auto simp: blocks_acquire_def is_live_def)
  qed
qed simp

definition acquirable :: "(string \<Rightarrow> string) \<Rightarrow> ClaimContract list \<Rightarrow> AcquireRequest \<Rightarrow> i64 \<Rightarrow> bool" where
  "acquirable lower active req now \<longleftrightarrow>
     (\<forall>c\<in>set active. blocks_acquire c now \<longrightarrow>
        \<not> claim_holds_scope c (rq_scope_kind req) (rq_scope_id req) \<and>
        \<not> paths_overlap lower (rq_paths req) (cs_paths (cc_scope c)))"

lemma acquire_Accepted_iff:
  "acquire lower active req now = Accepted c \<longleftrightarrow>
     acquirable lower active req now \<and>
     (\<exists>e. checked_lease_expiry now (rq_ttl_seconds req) ''ttl_seconds'' = Inr e \<and>
          c = acquired_claim req now e)"
proof -
  have "acquirable lower active req now \<longleftrightarrow>
      acquire_scope_scan req now active = None \<and> acquire_path_scan lower req now active = None"
    unfolding acquirable_def acquire_scope_scan_None acquire_path_scan_None by blast
  then show ?thesis
    by (auto simp: acquire_def split: option.splits sum.splits)
qed

lemma checked_lease_expiry_Inr:
  "checked_lease_expiry now ttl f = Inr e \<longleftrightarrow>
     int (unat ttl) \<le> i64_max \<and> i64_range (now + int (unat ttl)) \<and> e = now + int (unat ttl)"
  by (auto simp: checked_lease_expiry_def i64_try_from_Some i64_checked_add_Some split: option.splits)
    (auto simp: i64_try_from_def i64_checked_add_def)

section \<open>Leases\<close>

lemma acquired_claim_fields [simp]:
  "cc_id (acquired_claim req now e) =
     ''claim.'' @ scope_kind_slug (rq_scope_kind req) @ ''.'' @ rq_scope_id req @ ''.'' @ rq_scope_id req"
  "cs_kind (cc_scope (acquired_claim req now e)) = rq_scope_kind req"
  "cs_id (cc_scope (acquired_claim req now e)) = rq_scope_id req"
  "cs_paths (cc_scope (acquired_claim req now e)) = rq_paths req"
  "claimant_agent_id (cc_claim (acquired_claim req now e)) = rq_agent_id req"
  "claimant_principal_id (cc_claim (acquired_claim req now e)) = rq_principal_id req"
  "csr_value (cc_status (acquired_claim req now e)) = Active"
  "expires_at (cc_lease (acquired_claim req now e)) = unix_to_rfc3339 e"
  "ttl_seconds (cc_lease (acquired_claim req now e)) = rq_ttl_seconds req"
  "handoff_required (expiry_policy (acquired_claim req now e)) = True"
  by (simp_all add: acquired_claim_def Let_def default_expiry_policy_def)

lemma is_expired_lease:
  "expires_at (cc_lease c) = unix_to_rfc3339 e \<Longrightarrow> representable e \<Longrightarrow> is_expired c t \<longleftrightarrow> e \<le> t"
  by (simp add: is_expired_def rfc3339_round_trip_range)

lemma is_expired_mono: "is_expired c t \<Longrightarrow> t \<le> u \<Longrightarrow> is_expired c u"
  by (auto simp: is_expired_def split: option.splits)

lemma acquired_claim_live:
  "representable e \<Longrightarrow> is_live (acquired_claim req now e) t \<longleftrightarrow> t < e"
  by (auto simp: is_live_def is_expired_lease)

section \<open>What the operations keep\<close>

text \<open>The parts of a claim that no lifecycle operation may change.\<close>

definition same_authority :: "ClaimContract \<Rightarrow> ClaimContract \<Rightarrow> bool" where
  "same_authority c c' \<longleftrightarrow>
     cc_id c' = cc_id c \<and> contract_ref c' = contract_ref c \<and> cc_claim c' = cc_claim c \<and>
     cc_scope c' = cc_scope c \<and> expiry_policy c' = expiry_policy c \<and>
     acquired_at (cc_lease c') = acquired_at (cc_lease c) \<and>
     ttl_seconds (cc_lease c') = ttl_seconds (cc_lease c)"

lemma heartbeat_Accepted:
  "heartbeat c a now = Accepted c' \<longleftrightarrow>
     claimant_agent_id (cc_claim c) = a \<and> is_live c now \<and>
     (\<exists>e. checked_lease_expiry now (ttl_seconds (cc_lease c)) ''lease.ttl_seconds'' = Inr e \<and>
       c' = c\<lparr> cc_lease := (cc_lease c)\<lparr> last_heartbeat_at := unix_to_rfc3339 now,
                     expires_at := unix_to_rfc3339 e \<rparr>,
               cc_status := \<lparr> csr_value = Active, evaluated_at = unix_to_rfc3339 now,
                   reason_code = None \<rparr> \<rparr>)"
  by (auto simp: heartbeat_def is_live_def split: sum.splits)

lemma release_Accepted:
  "release c a now = Accepted c' \<longleftrightarrow>
     claimant_agent_id (cc_claim c) = a \<and> csr_value (cc_status c) \<in> {Active, Stale} \<and>
     (is_expired c now \<longrightarrow> \<not> handoff_required (expiry_policy c) \<and>
        release_without_handoff_allowed (expiry_policy c)) \<and>
     c' = c\<lparr> cc_status := \<lparr> csr_value = Released, evaluated_at = unix_to_rfc3339 now,
              reason_code = Some ''released_by_claimant'' \<rparr> \<rparr>"
  by (auto simp: release_def)

lemma record_handoff_Accepted:
  "record_handoff c req now = Accepted c' \<longleftrightarrow>
     \<not> is_blank (rh_summary req) \<and> handoff_required (expiry_policy c) \<and>
     (csr_value (cc_status c) = HandoffRequired \<or>
      csr_value (cc_status c) \<in> {Active, Stale} \<and> is_expired c now) \<and>
     c' = c\<lparr> cc_status := \<lparr> csr_value = HandoffRecorded, evaluated_at = unix_to_rfc3339 now,
                reason_code = Some (''handoff_recorded_by_'' @ recorder_agent_id req) \<rparr>,
             evidence_refs := push_missing (evidence_refs c) (rh_evidence_refs req) \<rparr>"
  by (auto simp: record_handoff_def Let_def split: ClaimStatus.splits if_splits)

lemma reconcile_claim_Some:
  "reconcile_claim c now = Some tr \<longleftrightarrow>
     (\<exists>to_status reason. tr = reconciled_transition c now to_status reason \<and>
       (csr_value (cc_status c) \<in> {Active, Stale} \<and> is_expired c now \<and> reason = ''lease_expired'' \<and>
          to_status = (if handoff_required (expiry_policy c) then HandoffRequired else Expired) \<or>
        csr_value (cc_status c) = Active \<and> \<not> is_expired c now \<and> to_status = Stale \<and>
          heartbeat_stale_reason c now = Some reason))"
  by (auto simp: reconcile_claim_def)

text \<open>One accepted lifecycle operation on a claim, at a time.\<close>

inductive claim_step :: "ClaimContract \<Rightarrow> ClaimContract \<Rightarrow> bool" where
  step_heartbeat: "heartbeat c a now = Accepted c' \<Longrightarrow> claim_step c c'"
| step_release: "release c a now = Accepted c' \<Longrightarrow> claim_step c c'"
| step_handoff: "record_handoff c req now = Accepted c' \<Longrightarrow> claim_step c c'"
| step_reconcile: "reconcile_claim c now = Some tr \<Longrightarrow> c' = crt_updated tr \<Longrightarrow> claim_step c c'"

inductive_cases claim_stepE: "claim_step c c'"

lemma claim_step_same_authority: "claim_step c c' \<Longrightarrow> same_authority c c'"
  by (erule claim_stepE)
    (auto simp: same_authority_def heartbeat_Accepted release_Accepted record_handoff_Accepted
      reconcile_claim_Some reconciled_transition_def)

lemma same_authority_trans: "same_authority a b \<Longrightarrow> same_authority b c \<Longrightarrow> same_authority a c"
  by (simp add: same_authority_def)

lemma claim_step_from_open: "claim_step c c' \<Longrightarrow> open_claim c"
  by (erule claim_stepE)
    (auto simp: open_claim_def is_live_def heartbeat_Accepted release_Accepted record_handoff_Accepted
      reconcile_claim_Some)

lemma claim_steps_same_authority: "claim_step\<^sup>*\<^sup>* c c' \<Longrightarrow> same_authority c c'"
  by (induction rule: rtranclp_induct)
    (auto simp: same_authority_def dest!: claim_step_same_authority)

lemma claim_steps_closed_stuck: "claim_step\<^sup>*\<^sup>* c c' \<Longrightarrow> \<not> open_claim c \<Longrightarrow> c' = c"
  by (auto elim: converse_rtranclpE dest: claim_step_from_open)

lemma reconcile_claim_live:
  assumes "reconcile_claim c now = Some tr" "now \<le> t"
  shows "is_live (crt_updated tr) t \<longleftrightarrow> is_live c t"
  using assms is_expired_mono [of c now t]
  by (auto simp: reconcile_claim_Some reconciled_transition_def is_live_def is_expired_def)

lemma reconcile_claim_idem:
  assumes "reconcile_claim c now = Some tr"
  shows "reconcile_claim (crt_updated tr) now = None"
  using assms by (auto simp: reconcile_claim_Some reconciled_transition_def reconcile_claim_def is_expired_def
      split: if_splits)

lemma build_conflict_Some:
  "build_conflict a b k tgt r now = Some cf \<longleftrightarrow>
     actor_principal a \<noteq> actor_principal b \<and>
     cf = \<lparr> conflict_id = ''conflict.'' @ min (actor_principal a) (actor_principal b) @ ''.'' @
              max (actor_principal a) (actor_principal b) @ ''.'' @ tgt,
            intent_a = actor_principal a, intent_b = actor_principal b,
            principal_a = actor_principal a, principal_b = actor_principal b,
            contested_scope = \<lparr> is_kind = k, is_target = tgt \<rparr>, detection_reason = r,
            detected_at = word_of_int (max now 0), resolution = Pending \<rparr>"
  by (auto simp: build_conflict_def Let_def min_def max_def)

section \<open>Claim identifiers\<close>

lemma scope_kind_slug_inj: "scope_kind_slug k = scope_kind_slug k' \<Longrightarrow> k = k'"
  by (cases k; cases k') (simp_all add: scope_kind_slug_def)

lemma scope_kind_slug_no_dot: "CHR ''.'' \<notin> set (scope_kind_slug k)"
  by (cases k) (simp_all add: scope_kind_slug_def)

lemma append_sep_inj:
  "x \<notin> set a \<Longrightarrow> x \<notin> set a' \<Longrightarrow> a @ x # b = a' @ x # b' \<Longrightarrow> a = a' \<and> b = b'"
  by (induction a arbitrary: a') (auto simp: append_eq_Cons_conv Cons_eq_append_conv)

lemma dotted_id_inj:
  assumes "scope_kind_slug k @ CHR ''.'' # s @ ''.'' @ s = scope_kind_slug k' @ CHR ''.'' # s' @ ''.'' @ s'"
  shows "k = k' \<and> s = s'"
proof -
  have k: "scope_kind_slug k = scope_kind_slug k'" and s: "s @ ''.'' @ s = s' @ ''.'' @ s'"
    using append_sep_inj [OF scope_kind_slug_no_dot scope_kind_slug_no_dot assms] by simp_all
  from s have "length (s @ ''.'' @ s) = length (s' @ ''.'' @ s')" by (rule arg_cong)
  then have "length s = length s'" by simp
  with s k show ?thesis by (auto dest: scope_kind_slug_inj)
qed

lemma claim_id_inj:
  "cc_id (acquired_claim r now e) = cc_id (acquired_claim r' now' e') \<Longrightarrow>
     rq_scope_kind r = rq_scope_kind r' \<and> rq_scope_id r = rq_scope_id r'"
  by (rule dotted_id_inj) simp

section \<open>Properties\<close>

definition sample_request :: "string \<Rightarrow> string \<Rightarrow> string \<Rightarrow> AcquireRequest" where
  "sample_request agent story path =
     \<lparr> rq_scope_kind = SkStory, rq_scope_id = story, rq_principal_id = None, rq_agent_id = agent,
       rq_role = ArWorker, rq_ttl_seconds = 60, rq_heartbeat_interval_seconds = 10,
       rq_paths = [path], rq_product_area = None, rq_expected_state_version = None \<rparr>"

text \<open>
  C20. When acquire accepts: exactly when no claim that still blocks (handoff required, or active
  or stale and either unexpired or owing a handoff) holds the requested scope or an overlapping
  path, and the lease end fits a signed 64-bit time; the new claim then is the one of the request.
\<close>

theorem acquire_accepts_iff:
  "acquire lower active req now = Accepted c \<longleftrightarrow>
     (\<forall>x\<in>set active.
        csr_value (cc_status x) = HandoffRequired \<or>
        csr_value (cc_status x) \<in> {Active, Stale} \<and> (\<not> is_expired x now \<or> handoff_required (expiry_policy x)) \<longrightarrow>
        \<not> claim_holds_scope x (rq_scope_kind req) (rq_scope_id req) \<and>
        (\<forall>p\<in>set (rq_paths req). \<forall>q\<in>set (cs_paths (cc_scope x)). \<not> repo_paths_overlap lower p q)) \<and>
     int (unat (rq_ttl_seconds req)) \<le> i64_max \<and> i64_range (now + int (unat (rq_ttl_seconds req))) \<and>
     c = acquired_claim req now (now + int (unat (rq_ttl_seconds req)))"
proof -
  have "acquirable lower active req now \<longleftrightarrow> (\<forall>x\<in>set active.
        csr_value (cc_status x) = HandoffRequired \<or>
        csr_value (cc_status x) \<in> {Active, Stale} \<and> (\<not> is_expired x now \<or> handoff_required (expiry_policy x)) \<longrightarrow>
        \<not> claim_holds_scope x (rq_scope_kind req) (rq_scope_id req) \<and>
        (\<forall>p\<in>set (rq_paths req). \<forall>q\<in>set (cs_paths (cc_scope x)). \<not> repo_paths_overlap lower p q))"
    unfolding acquirable_def blocks_acquire_def paths_overlap_def by blast
  then show ?thesis unfolding acquire_Accepted_iff checked_lease_expiry_Inr by blast
qed

theorem acquire_accepts_iff_witness:
  "\<exists>c. acquire to_ascii_lowercase [sample_claim\<lparr> cc_scope := \<lparr> cs_kind = SkStory, cs_id = ''S9'',
     product_area = None, cs_paths = [] \<rparr> \<rparr>] (sample_request ''bob'' ''S1'' ''docs'') 0 = Accepted c \<and> cc_id c = ''claim.story.S1.S1''"
  by (simp add: acquire_accepts_iff claim_holds_scope_def sample_request_def i64_max_def i64_range_def i64_min_def
      scope_kind_slug_def)





text \<open>
  C29. The lease of an accepted acquire: a claim acquired with a lease that ends in a year up to
  9999 is live from any time before its end and dead from it on; a lease that ends later is
  accepted all the same, but the claim is never live, and it blocks its scope until a handoff.
\<close>

theorem acquired_lease_window:
  assumes acc: "acquire lower active req now = Accepted c"
    and e: "e = now + int (unat (rq_ttl_seconds req))" and start: "- 62167219200 \<le> e"
  shows "if e < 253402300800 then is_live c t \<longleftrightarrow> t < e
         else \<not> is_live c t \<and> release c (rq_agent_id req) t \<noteq> Accepted c' \<and> heartbeat c (rq_agent_id req) t \<noteq> Accepted c'"
proof (cases "e < 253402300800")
  case True
  then show ?thesis
    using acc e start acquired_claim_live [of e req now t]
    by (auto simp: acquire_Accepted_iff checked_lease_expiry_Inr representable_def)
next
  case False
  obtain y m d where ymd: "civil_from_days (e div 86400) = (y, m, d)" by (metis prod_cases3)
  have "2932897 \<le> e div 86400" using False by simp
  then have "9999 < y" by (rule late_year [OF ymd])
  then have "is_expired c u" for u
    using acc e rfc3339_long_year [OF ymd]
    by (auto simp: acquire_Accepted_iff checked_lease_expiry_Inr is_expired_def)
  then show ?thesis
    using False acc by (auto simp: is_live_def heartbeat_Accepted release_Accepted acquire_Accepted_iff)
qed

theorem acquired_lease_window_witness:
  "\<exists>c. acquire to_ascii_lowercase [] ((sample_request ''bob'' ''S1'' ''docs'')\<lparr> rq_ttl_seconds := 300000000000 \<rparr>) 0 = Accepted c \<and>
     \<not> is_live c 0"
proof -
  let ?req = "(sample_request ''bob'' ''S1'' ''docs'')\<lparr> rq_ttl_seconds := 300000000000 \<rparr>"
  obtain c where c: "acquire to_ascii_lowercase [] ?req 0 = Accepted c"
    by (simp add: acquire_Accepted_iff acquirable_def checked_lease_expiry_Inr i64_max_def i64_range_def i64_min_def)
  from acquired_lease_window [OF c refl, of 0] c show ?thesis by auto
qed

end
