(* ===== verification/Write_Guard.thy ===== *)
theory Write_Guard
  imports Claim_Engine
begin

text \<open>
  Layer-2 write prevention: the upper half of
  \<open>src/crates/forge-core-decisions/src/conflict_detection.rs\<close>.  A write set is checked target
  by target against the live claims, in the order of their ids; one collision blocks the
  whole write.

  The lemmas relate the verdict to the claims: a write passes exactly when no live claim of
  another party governs one of its targets, and the verdict does not depend on the order in
  which the claims are given.
\<close>

section \<open>The code\<close>

datatype ConflictCode =
  ReadTargetChanged | WriteTargetChanged | WriteTargetClaimed | ExpectedStateVersionMismatch
| CompletionNowDone | PathOutsideScope | OverlappingWriteSet | MissingInverseForDestructiveWrite

record BlockDetail =
  blocked_path :: RepoPath
  bd_blocking_claim_id :: ClaimId
  bd_claimant :: StableId
  bd_claimant_principal_id :: "PrincipalId option"
  bd_conflict_code :: ConflictCode

datatype WriteCheck =
  WcOk (governed_by_self: "RepoPath list") (ungoverned: "RepoPath list")
| WcBlocked (blocks: "BlockDetail list")

fun is_blocked :: "WriteCheck \<Rightarrow> bool" where
  "is_blocked (WcBlocked bs) = True"
| "is_blocked (WcOk g u) = False"

datatype TargetClass = Ungoverned | GovernedBySelf | BlockedBy BlockDetail

definition scope_covers_any :: "(string \<Rightarrow> string) \<Rightarrow> ClaimContract \<Rightarrow> segments \<Rightarrow> bool" where
  "scope_covers_any lower claim target_segments \<longleftrightarrow>
     list_ex (\<lambda>p. claim_path_covers lower p target_segments) (cs_paths (cc_scope claim))"

text \<open>Whose claim it is: the agent must match, and the principal too when one is given.\<close>

definition owned_by :: "PrincipalId option \<Rightarrow> StableId \<Rightarrow> ClaimContract \<Rightarrow> bool" where
  "owned_by writer_principal_id writer_agent_id claim \<longleftrightarrow>
     claimant_agent_id (cc_claim claim) = writer_agent_id \<and>
     (case writer_principal_id of None \<Rightarrow> True
      | Some p \<Rightarrow> claimant_principal_id (cc_claim claim) = Some p)"

fun classify_scan ::
    "(string \<Rightarrow> string) \<Rightarrow> RepoPath \<Rightarrow> segments \<Rightarrow> PrincipalId option \<Rightarrow> StableId \<Rightarrow> i64 \<Rightarrow> bool
     \<Rightarrow> ClaimContract list \<Rightarrow> TargetClass" where
  "classify_scan lower raw_target target_segments wp wa now_unix seen_live_self [] =
     (if seen_live_self then GovernedBySelf else Ungoverned)"
| "classify_scan lower raw_target target_segments wp wa now_unix seen_live_self (claim # claims) =
     (if \<not> is_live claim now_unix then
        classify_scan lower raw_target target_segments wp wa now_unix seen_live_self claims
      else if \<not> scope_covers_any lower claim target_segments then
        classify_scan lower raw_target target_segments wp wa now_unix seen_live_self claims
      else if owned_by wp wa claim then
        classify_scan lower raw_target target_segments wp wa now_unix True claims
      else
        BlockedBy
          \<lparr> blocked_path = raw_target,
            bd_blocking_claim_id = cc_id claim,
            bd_claimant = claimant_agent_id (cc_claim claim),
            bd_claimant_principal_id = claimant_principal_id (cc_claim claim),
            bd_conflict_code = WriteTargetClaimed \<rparr>)"

definition classify_target ::
    "(string \<Rightarrow> string) \<Rightarrow> RepoPath \<Rightarrow> segments \<Rightarrow> ClaimContract list \<Rightarrow> PrincipalId option \<Rightarrow> StableId
     \<Rightarrow> i64 \<Rightarrow> TargetClass" where
  "classify_target lower raw_target target_segments claims wp wa now_unix =
     (if escapes_repo_root target_segments then Ungoverned
      else classify_scan lower raw_target target_segments wp wa now_unix False claims)"

text \<open>The three accumulators of the loop over the targets.\<close>

record check_acc =
  acc_blocks :: "BlockDetail list"
  acc_governed_by_self :: "RepoPath list"
  acc_ungoverned :: "RepoPath list"

fun check_targets ::
    "(string \<Rightarrow> string) \<Rightarrow> ClaimContract list \<Rightarrow> PrincipalId option \<Rightarrow> StableId \<Rightarrow> i64 \<Rightarrow> RepoPath list
     \<Rightarrow> check_acc \<Rightarrow> check_acc" where
  "check_targets lower ordered wp wa now_unix [] acc = acc"
| "check_targets lower ordered wp wa now_unix (target # targets) acc =
     check_targets lower ordered wp wa now_unix targets
       (case classify_target lower target (normalize_segments lower target) ordered wp wa now_unix of
          Ungoverned \<Rightarrow> acc\<lparr> acc_ungoverned := acc_ungoverned acc @ [target] \<rparr>
        | GovernedBySelf \<Rightarrow> acc\<lparr> acc_governed_by_self := acc_governed_by_self acc @ [target] \<rparr>
        | BlockedBy detail \<Rightarrow> acc\<lparr> acc_blocks := acc_blocks acc @ [detail] \<rparr>)"

definition check_write_against_claims_internal ::
    "(string \<Rightarrow> string) \<Rightarrow> RepoPath list \<Rightarrow> PrincipalId option \<Rightarrow> StableId \<Rightarrow> ClaimContract list \<Rightarrow> i64
     \<Rightarrow> WriteCheck" where
  "check_write_against_claims_internal lower targets wp wa claims now_unix =
     (let ordered = sort_key cc_id claims;
          acc = check_targets lower ordered wp wa now_unix targets
            \<lparr> acc_blocks = [], acc_governed_by_self = [], acc_ungoverned = [] \<rparr>
      in if acc_blocks acc = [] then WcOk (acc_governed_by_self acc) (acc_ungoverned acc)
         else WcBlocked (acc_blocks acc))"

definition check_write_against_claims ::
    "(string \<Rightarrow> string) \<Rightarrow> RepoPath list \<Rightarrow> StableId \<Rightarrow> ClaimContract list \<Rightarrow> i64 \<Rightarrow> WriteCheck" where
  "check_write_against_claims lower targets wa claims now_unix =
     check_write_against_claims_internal lower targets None wa claims now_unix"

definition check_write_against_claims_for_principal ::
    "(string \<Rightarrow> string) \<Rightarrow> RepoPath list \<Rightarrow> PrincipalId \<Rightarrow> StableId \<Rightarrow> ClaimContract list \<Rightarrow> i64
     \<Rightarrow> WriteCheck" where
  "check_write_against_claims_for_principal lower targets wp wa claims now_unix =
     check_write_against_claims_internal lower targets (Some wp) wa claims now_unix"

section \<open>The verdict on one target\<close>

text \<open>A live claim that governs a target.\<close>

definition governs :: "(string \<Rightarrow> string) \<Rightarrow> i64 \<Rightarrow> segments \<Rightarrow> ClaimContract \<Rightarrow> bool" where
  "governs lower now t c \<longleftrightarrow>
     \<not> escapes_repo_root t \<and> is_live c now \<and> scope_covers_any lower c t"

lemma governs_governable: "governs lower now t c \<Longrightarrow> governable t"
  by (auto simp: governs_def governable_def scope_covers_any_def list_ex_iff claim_path_covers_def)

lemma classify_scan_GovernedBySelf:
  "classify_scan lower r t wp wa now seen cs = GovernedBySelf \<longleftrightarrow>
     (\<forall>c\<in>set cs. is_live c now \<and> scope_covers_any lower c t \<longrightarrow> owned_by wp wa c) \<and>
     (seen \<or> (\<exists>c\<in>set cs. is_live c now \<and> scope_covers_any lower c t))"
  by (induction cs arbitrary: seen) auto

lemma classify_scan_Ungoverned:
  "classify_scan lower r t wp wa now seen cs = Ungoverned \<longleftrightarrow>
     \<not> seen \<and> (\<forall>c\<in>set cs. \<not> (is_live c now \<and> scope_covers_any lower c t))"
  by (induction cs arbitrary: seen) (auto split: if_splits)

lemma classify_scan_BlockedBy:
  "classify_scan lower r t wp wa now seen cs = BlockedBy d \<Longrightarrow>
     blocked_path d = r \<and>
     (\<exists>c\<in>set cs. is_live c now \<and> scope_covers_any lower c t \<and> \<not> owned_by wp wa c \<and>
        bd_blocking_claim_id d = cc_id c \<and> bd_claimant d = claimant_agent_id (cc_claim c) \<and>
        bd_claimant_principal_id d = claimant_principal_id (cc_claim c))"
  by (induction cs arbitrary: seen) (auto split: if_splits)

lemma classify_target_Ungoverned:
  "classify_target lower r t cs wp wa now = Ungoverned \<longleftrightarrow> (\<forall>c\<in>set cs. \<not> governs lower now t c)"
  by (auto simp: classify_target_def classify_scan_Ungoverned governs_def)

lemma classify_target_GovernedBySelf:
  "classify_target lower r t cs wp wa now = GovernedBySelf \<longleftrightarrow>
     (\<exists>c\<in>set cs. governs lower now t c) \<and> (\<forall>c\<in>set cs. governs lower now t c \<longrightarrow> owned_by wp wa c)"
  by (auto simp: classify_target_def classify_scan_GovernedBySelf governs_def)

lemma classify_target_BlockedBy:
  "(\<exists>d. classify_target lower r t cs wp wa now = BlockedBy d) \<longleftrightarrow>
     (\<exists>c\<in>set cs. governs lower now t c \<and> \<not> owned_by wp wa c)"
proof -
  have "(\<exists>d. x = BlockedBy d) \<longleftrightarrow> x \<noteq> Ungoverned \<and> x \<noteq> GovernedBySelf" for x
    by (cases x) auto
  then show ?thesis by (auto simp: classify_target_Ungoverned classify_target_GovernedBySelf)
qed

section \<open>The verdict on a write set\<close>

lemma check_targets_acc:
  "acc_ungoverned (check_targets lower cs wp wa now ts acc) =
     acc_ungoverned acc @
     filter (\<lambda>t. classify_target lower t (normalize_segments lower t) cs wp wa now = Ungoverned) ts"
  "acc_governed_by_self (check_targets lower cs wp wa now ts acc) =
     acc_governed_by_self acc @
     filter (\<lambda>t. classify_target lower t (normalize_segments lower t) cs wp wa now = GovernedBySelf) ts"
  "acc_blocks (check_targets lower cs wp wa now ts acc) =
     acc_blocks acc @
     List.map_filter (\<lambda>t. case classify_target lower t (normalize_segments lower t) cs wp wa now of
        BlockedBy d \<Rightarrow> Some d | _ \<Rightarrow> None) ts"
  by (induction ts arbitrary: acc) (auto split: TargetClass.splits)

lemma map_filter_eq_Nil: "List.map_filter f xs = [] \<longleftrightarrow> (\<forall>x\<in>set xs. f x = None)"
  by (auto simp: List.map_filter_def filter_empty_conv)

lemma check_write_blocked_iff:
  "is_blocked (check_write_against_claims_internal lower targets wp wa claims now) \<longleftrightarrow>
     (\<exists>target\<in>set targets. \<exists>c\<in>set claims.
        governs lower now (normalize_segments lower target) c \<and> \<not> owned_by wp wa c)"
proof -
  let ?cl = "\<lambda>t. classify_target lower t (normalize_segments lower t) (sort_key cc_id claims) wp wa now"
  have "is_blocked (check_write_against_claims_internal lower targets wp wa claims now) \<longleftrightarrow>
      (\<exists>t\<in>set targets. \<exists>d. ?cl t = BlockedBy d)"
    by (auto simp: check_write_against_claims_internal_def Let_def check_targets_acc map_filter_eq_Nil
        split: TargetClass.splits) (metis TargetClass.exhaust)
  then show ?thesis by (simp add: classify_target_BlockedBy)
qed

lemma check_write_Ok_iff:
  "check_write_against_claims_internal lower targets wp wa claims now = WcOk g u \<longleftrightarrow>
     (\<forall>target\<in>set targets. \<forall>c\<in>set claims.
        governs lower now (normalize_segments lower target) c \<longrightarrow> owned_by wp wa c) \<and>
     g = filter (\<lambda>t. \<exists>c\<in>set claims. governs lower now (normalize_segments lower t) c) targets \<and>
     u = filter (\<lambda>t. \<forall>c\<in>set claims. \<not> governs lower now (normalize_segments lower t) c) targets"
proof (cases "is_blocked (check_write_against_claims_internal lower targets wp wa claims now)")
  case True
  then show ?thesis
    using check_write_blocked_iff [of lower targets wp wa claims now]
    by (cases "check_write_against_claims_internal lower targets wp wa claims now") auto
next
  case False
  then have own: "\<forall>target\<in>set targets. \<forall>c\<in>set claims.
        governs lower now (normalize_segments lower target) c \<longrightarrow> owned_by wp wa c"
    by (simp add: check_write_blocked_iff)
  from False have "check_write_against_claims_internal lower targets wp wa claims now =
      WcOk (filter (\<lambda>t. classify_target lower t (normalize_segments lower t) (sort_key cc_id claims) wp wa now
              = GovernedBySelf) targets)
           (filter (\<lambda>t. classify_target lower t (normalize_segments lower t) (sort_key cc_id claims) wp wa now
              = Ungoverned) targets)"
    by (auto simp: check_write_against_claims_internal_def Let_def check_targets_acc split: if_splits)
  also have "\<dots> =
      WcOk (filter (\<lambda>t. \<exists>c\<in>set claims. governs lower now (normalize_segments lower t) c) targets)
           (filter (\<lambda>t. \<forall>c\<in>set claims. \<not> governs lower now (normalize_segments lower t) c) targets)"
    using own by (auto simp: classify_target_Ungoverned classify_target_GovernedBySelf intro!: filter_cong)
  finally show ?thesis using own by auto
qed

lemma check_write_block_details:
  assumes "check_write_against_claims_internal lower targets wp wa claims now = WcBlocked bs" "d \<in> set bs"
  shows "blocked_path d \<in> set targets \<and>
    (\<exists>c\<in>set claims. governs lower now (normalize_segments lower (blocked_path d)) c \<and>
       \<not> owned_by wp wa c \<and> bd_blocking_claim_id d = cc_id c \<and>
       bd_claimant d = claimant_agent_id (cc_claim c))"
proof -
  let ?cl = "\<lambda>t. classify_target lower t (normalize_segments lower t) (sort_key cc_id claims) wp wa now"
  have "bs = List.map_filter (\<lambda>t. case ?cl t of BlockedBy d \<Rightarrow> Some d | _ \<Rightarrow> None) targets"
    using assms(1)
    by (auto simp: check_write_against_claims_internal_def Let_def check_targets_acc split: if_splits)
  with assms(2) obtain t where t: "t \<in> set targets" "?cl t = BlockedBy d"
    by (auto simp: List.map_filter_def split: TargetClass.splits)
  then have esc: "\<not> escapes_repo_root (normalize_segments lower t)"
    and "classify_scan lower t (normalize_segments lower t) wp wa now False (sort_key cc_id claims) = BlockedBy d"
    by (auto simp: classify_target_def split: if_splits)
  from classify_scan_BlockedBy [OF this(2)] t(1) esc show ?thesis by (auto simp: governs_def)
qed

text \<open>Two live claims that govern the same target have overlapping paths.\<close>

lemma governs_paths_overlap:
  assumes "governs lower now t c" "governs lower now' t d"
  shows "paths_overlap lower (cs_paths (cc_scope c)) (cs_paths (cc_scope d))"
proof -
  obtain p q where "p \<in> set (cs_paths (cc_scope c))" "claim_path_covers lower p t"
    and "q \<in> set (cs_paths (cc_scope d))" "claim_path_covers lower q t"
    using assms by (auto simp: governs_def scope_covers_any_def list_ex_iff)
  with governs_governable [OF assms(1)] show ?thesis
    by (auto simp: paths_overlap_def intro: joint_target_overlap)
qed

section \<open>Properties\<close>

text \<open>
  C23. The verdict of the write check: it passes exactly when every live claim that covers a
  target inside the repository belongs to the writer, and it then splits the targets, in their
  order, into those covered by such a claim and those no live claim covers; otherwise every
  block it reports names a target and a live claim of someone else that covers it.
\<close>

theorem check_write_verdict:
  "case check_write_against_claims_internal lower targets wp wa claims now of
     WcOk g u \<Rightarrow>
       (\<forall>t\<in>set targets. \<forall>c\<in>set claims. governs lower now (normalize_segments lower t) c \<longrightarrow> owned_by wp wa c) \<and>
       g = filter (\<lambda>t. \<exists>c\<in>set claims. governs lower now (normalize_segments lower t) c) targets \<and>
       u = filter (\<lambda>t. \<forall>c\<in>set claims. \<not> governs lower now (normalize_segments lower t) c) targets
   | WcBlocked bs \<Rightarrow>
       (\<exists>t\<in>set targets. \<exists>c\<in>set claims. governs lower now (normalize_segments lower t) c \<and> \<not> owned_by wp wa c) \<and>
       (\<forall>d\<in>set bs. blocked_path d \<in> set targets \<and>
          (\<exists>c\<in>set claims. governs lower now (normalize_segments lower (blocked_path d)) c \<and> \<not> owned_by wp wa c \<and>
             bd_blocking_claim_id d = cc_id c \<and> bd_claimant d = claimant_agent_id (cc_claim c)))"
proof (cases "check_write_against_claims_internal lower targets wp wa claims now")
  case (WcOk g u)
  then show ?thesis using check_write_Ok_iff [of lower targets wp wa claims now g u] by simp
next
  case (WcBlocked bs)
  then show ?thesis
    using check_write_blocked_iff [of lower targets wp wa claims now]
      check_write_block_details [of lower targets wp wa claims now bs] by simp
qed

theorem check_write_verdict_witness:
  "is_blocked (check_write_against_claims to_ascii_lowercase [''src/main.rs''] ''bob'' [sample_claim] 30)"
proof -
  have "governs to_ascii_lowercase 30 (normalize_segments to_ascii_lowercase ''src/main.rs'') sample_claim"
    unfolding governs_def by (intro conjI) code_simp+
  moreover have "\<not> owned_by None ''bob'' sample_claim" by code_simp
  ultimately show ?thesis
    using check_write_verdict [where lower = to_ascii_lowercase and targets = "[''src/main.rs'']" and wp = None
      and wa = "''bob''" and claims = "[sample_claim]" and now = 30]
    by (auto simp: check_write_against_claims_def split: WriteCheck.splits)
qed

text \<open>
  Checking for a principal only tightens the check for its agent: targets that pass for the
  principal pass for the agent with the same split, and a target the agent check leaves
  ungoverned stays ungoverned.
\<close>

lemma principal_check_refines_agent_check:
  assumes "check_write_against_claims_for_principal lower targets p a claims now = WcOk g u"
  shows "check_write_against_claims lower targets a claims now = WcOk g u"
proof -
  have "owned_by (Some p) a c \<Longrightarrow> owned_by None a c" for c by (simp add: owned_by_def)
  with assms show ?thesis
    unfolding check_write_against_claims_for_principal_def check_write_against_claims_def check_write_Ok_iff by blast
qed

end
