(* ===== verification/Claim_Wal_Codec.thy ===== *)
theory Claim_Wal_Codec
  imports Claim_Contracts
begin

unbundle bit_operations_syntax

text \<open>
  The binary claim write-ahead log, \<open>src/crates/forge-core-store/src/claim_wal.rs\<close>: the record
  frame (24-byte header with its own checksum, payload, trailing checksum), its encoder and
  decoder, the scan that recovers the longest valid prefix of a file, and the append path
  that repairs the file and adds one record.

  The CRC-32C and JSON crates and the files a checkpoint record refers to are outside this
  component: they are the fields of \<open>wal_env\<close>, a parameter of the definitions.

  The lemmas show that the decoder inverts the encoder at any offset, that a torn tail is
  always cut at the last complete record, and that an append to a recovered log is read back
  as exactly one further record.
\<close>

section \<open>Records and payloads\<close>

datatype ClaimWalOperation = WopAcquire | WopRelease | WopHeartbeat | WopHandoffRecorded | WopReconcileStatus

definition record_type :: "ClaimWalOperation \<Rightarrow> u8" where
  "record_type oper =
     (case oper of WopAcquire \<Rightarrow> 1 | WopRelease \<Rightarrow> 2 | WopHeartbeat \<Rightarrow> 3 | WopHandoffRecorded \<Rightarrow> 5
      | WopReconcileStatus \<Rightarrow> 7)"

definition from_record_type :: "u8 \<Rightarrow> ClaimWalOperation option" where
  "from_record_type v =
     (if v = 1 then Some WopAcquire
      else if v = 2 then Some WopRelease
      else if v = 3 then Some WopHeartbeat
      else if v = 5 then Some WopHandoffRecorded
      else if v = 7 then Some WopReconcileStatus
      else None)"

record ClaimWalPayload =
  wp_schema_version :: string
  wp_operation :: ClaimWalOperation
  wp_recorded_at :: string
  wp_claim_contract :: ClaimContract

record ClaimWalFileAnchorBinding =
  ab_schema_version :: string
  anchor_relative_path :: string
  ab_nonce :: string
  content_digest :: string
  byte_length :: u64

record ClaimWalCheckpointPayload =
  cp_schema_version :: string
  snapshot_path :: string
  snapshot_crc32c :: "32 word"
  last_seq_in_snapshot :: u64
  archived_wal_path :: "string option"
  archived_wal_sha256 :: "string option"
  generation_path :: "string option"
  generation_sha256 :: "string option"
  generation_anchor :: "ClaimWalFileAnchorBinding option"
  cp_created_at :: string
  cp_created_at_ms :: u64

record ClaimWalSnapshotClaim =
  sc_claim_contract :: ClaimContract
  sc_last_seq :: u64
  sc_last_operation :: ClaimWalOperation
  sc_recorded_at :: string

record ClaimWalSnapshotPayload =
  sp_schema_version :: string
  sp_created_at :: string
  sp_created_at_ms :: u64
  sp_last_seq :: u64
  latest_claims :: "ClaimWalSnapshotClaim list"

record ClaimWalRecord =
  wr_seq :: u64
  wr_operation :: ClaimWalOperation
  wr_payload :: ClaimWalPayload
  wr_offset :: nat
  wr_record_len :: nat

record ClaimWalCheckpointRecord =
  ck_seq :: u64
  ck_payload :: ClaimWalCheckpointPayload
  ck_snapshot :: ClaimWalSnapshotPayload
  ck_offset :: nat
  ck_record_len :: nat

datatype ClaimWalStopReason =
  CleanEof | TruncatedHeader | InvalidHeader | StopPayloadTooLarge | TruncatedPayload
| PayloadChecksumMismatch | UnsupportedRecordType | SequenceGap | PayloadDecodeFailed
| CheckpointNotAtStart | CheckpointSnapshotInvalid | CheckpointArchiveInvalid
| CheckpointGenerationInvalid

record ClaimWalRecovery =
  wal_path :: string
  rv_records :: "ClaimWalRecord list"
  rv_checkpoint :: "ClaimWalCheckpointRecord option"
  last_observed_seq :: u64
  valid_record_count :: nat
  last_good_offset :: nat
  original_len :: nat
  repaired :: bool
  stop_reason :: ClaimWalStopReason

text \<open>
  The external functions: the CRC-32C of a byte string, the JSON encodings of the two payload
  types, the canonical encoding of a checkpoint payload, and, when a checkpoint can be read
  at all, the retained snapshot it selects (or the reason to stop).
\<close>

record wal_env =
  crc32c :: "u8 list \<Rightarrow> 32 word"
  to_json :: "ClaimWalPayload \<Rightarrow> u8 list option"
  from_json :: "u8 list \<Rightarrow> ClaimWalPayload option"
  ckpt_from_json :: "u8 list \<Rightarrow> ClaimWalCheckpointPayload option"
  ckpt_canonical :: "ClaimWalCheckpointPayload \<Rightarrow> u8 list option"
  ckpt_authority :: "(ClaimWalCheckpointPayload \<Rightarrow> u64 \<Rightarrow> ClaimWalStopReason + ClaimWalSnapshotPayload) option"

section \<open>Little-endian integers\<close>

primrec le_bytes :: "nat \<Rightarrow> nat \<Rightarrow> u8 list" where
  "le_bytes 0 x = []"
| "le_bytes (Suc n) x = word_of_nat x # le_bytes n (x div 256)"

primrec le_nat :: "u8 list \<Rightarrow> nat" where
  "le_nat [] = 0"
| "le_nat (b # bs) = unat b + 256 * le_nat bs"

lemma length_le_bytes [simp]: "length (le_bytes n x) = n"
  by (induction n arbitrary: x) auto

lemma le_nat_le_bytes: "le_nat (le_bytes n x) = x mod 256 ^ n"
proof (induction n arbitrary: x)
  case (Suc n)
  have "unat (word_of_nat x :: u8) = x mod 256" by (simp add: unat_of_nat)
  then show ?case by (simp add: Suc mod_mult2_eq)
qed simp

section \<open>The encoder\<close>

definition MAGIC :: "u8 list" where "MAGIC = [0x46, 0x4D, 0x57, 0x31]"
definition VERSION :: u8 where "VERSION = 1"
definition HEADER_LEN :: nat where "HEADER_LEN = 24"
definition HEADER_CRC_OFFSET :: nat where "HEADER_CRC_OFFSET = 20"
definition TRAILER_LEN :: nat where "TRAILER_LEN = 4"
definition FLAG_SKIPPABLE_UNKNOWN :: "16 word" where "FLAG_SKIPPABLE_UNKNOWN = 1"
definition FLAG_PAYLOAD_JSON :: "16 word" where "FLAG_PAYLOAD_JSON = 4"
definition ALLOWED_FLAGS :: "16 word" where "ALLOWED_FLAGS = FLAG_SKIPPABLE_UNKNOWN OR FLAG_PAYLOAD_JSON"
definition DEFAULT_MAX_PAYLOAD_LEN :: nat where "DEFAULT_MAX_PAYLOAD_LEN = 16 * 1024 * 1024"
definition RECORD_TYPE_CHECKPOINT_REF :: u8 where "RECORD_TYPE_CHECKPOINT_REF = 4"

lemmas wal_consts = MAGIC_def VERSION_def HEADER_LEN_def HEADER_CRC_OFFSET_def TRAILER_LEN_def
  FLAG_SKIPPABLE_UNKNOWN_def FLAG_PAYLOAD_JSON_def ALLOWED_FLAGS_def DEFAULT_MAX_PAYLOAD_LEN_def
  RECORD_TYPE_CHECKPOINT_REF_def

datatype ClaimWalAppendError =
  AeRecoveryStopped (ae_stop_reason: ClaimWalStopReason) (ae_last_good_offset: nat) (ae_original_len: nat)
| AeSerialize
| AePayloadTooLarge (ae_byte_len: nat) (ae_max_byte_len: nat)
| AeSequenceOverflow (ae_last_seq: u64)

definition payload_crc32c :: "wal_env \<Rightarrow> u8 list \<Rightarrow> u8 list \<Rightarrow> 32 word" where
  "payload_crc32c env header_prefix payload = crc32c env (header_prefix @ payload)"

definition header_prefix :: "16 word \<Rightarrow> u64 \<Rightarrow> u8 \<Rightarrow> nat \<Rightarrow> u8 list" where
  "header_prefix flags seq rtype payload_len =
     MAGIC @ [VERSION, rtype] @ le_bytes 2 (unat flags) @ le_bytes 8 (unat seq) @ le_bytes 4 payload_len"

definition encode_frame :: "wal_env \<Rightarrow> 16 word \<Rightarrow> u64 \<Rightarrow> u8 \<Rightarrow> u8 list \<Rightarrow> u8 list" where
  "encode_frame env flags seq rtype payload =
     (let header = header_prefix flags seq rtype (length payload) in
      header @ le_bytes 4 (unat (crc32c env header)) @ payload
        @ le_bytes 4 (unat (payload_crc32c env header payload)))"

definition encode_record :: "wal_env \<Rightarrow> u64 \<Rightarrow> u8 \<Rightarrow> u8 list \<Rightarrow> ClaimWalAppendError + u8 list" where
  "encode_record env seq rtype payload =
     (if length payload \<ge> 2 ^ 32 then Inl (AePayloadTooLarge (length payload) DEFAULT_MAX_PAYLOAD_LEN)
      else Inr (encode_frame env FLAG_PAYLOAD_JSON seq rtype payload))"

section \<open>The decoder\<close>

record DecodedRecordFrame =
  fr_flags :: "16 word"
  fr_record_type :: u8
  fr_seq :: u64
  fr_payload :: "u8 list"
  fr_record_end :: nat

definition slice :: "'a list \<Rightarrow> nat \<Rightarrow> nat \<Rightarrow> 'a list" where
  "slice xs a b = take (b - a) (drop a xs)"

text \<open>\<open>usize\<close> has 64 bits: the sum is \<open>None\<close> in the source when it exceeds them.\<close>

definition checked_record_end :: "nat \<Rightarrow> nat \<Rightarrow> ClaimWalStopReason + nat" where
  "checked_record_end offset payload_len =
     (if offset + HEADER_LEN + payload_len + TRAILER_LEN \<ge> 2 ^ 64 then Inl StopPayloadTooLarge
      else Inr (offset + HEADER_LEN + payload_len + TRAILER_LEN))"

definition decode_record_frame ::
    "wal_env \<Rightarrow> u8 list \<Rightarrow> nat \<Rightarrow> ClaimWalStopReason + DecodedRecordFrame" where
  "decode_record_frame env bytes offset =
     (if length bytes - offset < HEADER_LEN then Inl TruncatedHeader
      else
        let header = slice bytes offset (offset + HEADER_LEN);
            flags = word_of_nat (le_nat (slice header 6 8));
            payload_len = le_nat (slice header 16 20);
            header_crc = word_of_nat (le_nat (slice header HEADER_CRC_OFFSET HEADER_LEN))
        in if slice header 0 4 \<noteq> MAGIC \<or> header ! 4 \<noteq> VERSION then Inl InvalidHeader
           else if flags AND NOT ALLOWED_FLAGS \<noteq> 0 \<or> flags AND FLAG_PAYLOAD_JSON = 0 then
             Inl InvalidHeader
           else if payload_len > DEFAULT_MAX_PAYLOAD_LEN then Inl StopPayloadTooLarge
           else if crc32c env (slice header 0 HEADER_CRC_OFFSET) \<noteq> header_crc then Inl InvalidHeader
           else
             (case checked_record_end offset payload_len of
                Inl reason \<Rightarrow> Inl reason
              | Inr record_end \<Rightarrow>
                  if record_end > length bytes then Inl TruncatedPayload
                  else
                    let payload_start = offset + HEADER_LEN;
                        payload_end = payload_start + payload_len;
                        payload = slice bytes payload_start payload_end;
                        payload_crc = word_of_nat (le_nat (slice bytes payload_end record_end))
                    in if payload_crc32c env (slice header 0 HEADER_CRC_OFFSET) payload \<noteq> payload_crc
                       then Inl PayloadChecksumMismatch
                       else Inr
                         \<lparr> fr_flags = flags,
                           fr_record_type = header ! 5,
                           fr_seq = word_of_nat (le_nat (slice header 8 16)),
                           fr_payload = payload,
                           fr_record_end = record_end \<rparr>))"

datatype DecodeRecordOutcome =
  Known ClaimWalRecord nat
| Checkpoint ClaimWalCheckpointRecord nat
| SkippedUnknown u64 nat
| Stop ClaimWalStopReason

definition decode_checkpoint_record :: "wal_env \<Rightarrow> nat \<Rightarrow> DecodedRecordFrame \<Rightarrow> DecodeRecordOutcome" where
  "decode_checkpoint_record env offset frame =
     (if offset \<noteq> 0 then Stop CheckpointNotAtStart
      else
        (case ckpt_from_json env (fr_payload frame) of
           None \<Rightarrow> Stop PayloadDecodeFailed
         | Some decoded_payload \<Rightarrow>
             if ckpt_canonical env decoded_payload \<noteq> Some (fr_payload frame) then
               Stop CheckpointGenerationInvalid
             else
               (case u64_checked_add (last_seq_in_snapshot decoded_payload) 1 of
                  None \<Rightarrow> Stop SequenceGap
                | Some expected_checkpoint_seq \<Rightarrow>
                    if fr_seq frame \<noteq> expected_checkpoint_seq then Stop SequenceGap
                    else
                      (case ckpt_authority env of
                         None \<Rightarrow> Stop CheckpointGenerationInvalid
                       | Some retain \<Rightarrow>
                           (case retain decoded_payload (fr_seq frame) of
                              Inl reason \<Rightarrow> Stop reason
                            | Inr snapshot \<Rightarrow>
                                Checkpoint
                                  \<lparr> ck_seq = fr_seq frame,
                                    ck_payload = decoded_payload,
                                    ck_snapshot = snapshot,
                                    ck_offset = offset,
                                    ck_record_len = fr_record_end frame - offset \<rparr>
                                  (fr_record_end frame))))))"

definition decode_lifecycle_record ::
    "wal_env \<Rightarrow> nat \<Rightarrow> ClaimWalOperation \<Rightarrow> DecodedRecordFrame \<Rightarrow> DecodeRecordOutcome" where
  "decode_lifecycle_record env offset oper frame =
     (case from_json env (fr_payload frame) of
        None \<Rightarrow> Stop PayloadDecodeFailed
      | Some decoded_payload \<Rightarrow>
          if wp_operation decoded_payload \<noteq> oper then Stop PayloadDecodeFailed
          else
            Known
              \<lparr> wr_seq = fr_seq frame,
                wr_operation = oper,
                wr_payload = decoded_payload,
                wr_offset = offset,
                wr_record_len = fr_record_end frame - offset \<rparr>
              (fr_record_end frame))"

definition decode_record_at :: "wal_env \<Rightarrow> u8 list \<Rightarrow> nat \<Rightarrow> u64 \<Rightarrow> DecodeRecordOutcome" where
  "decode_record_at env bytes offset expected_seq =
     (case decode_record_frame env bytes offset of
        Inl reason \<Rightarrow> Stop reason
      | Inr frame \<Rightarrow>
          if fr_record_type frame = RECORD_TYPE_CHECKPOINT_REF then
            decode_checkpoint_record env offset frame
          else if fr_seq frame \<noteq> expected_seq then Stop SequenceGap
          else
            (case from_record_type (fr_record_type frame) of
               None \<Rightarrow>
                 if fr_flags frame AND FLAG_SKIPPABLE_UNKNOWN \<noteq> 0 then
                   SkippedUnknown (fr_seq frame) (fr_record_end frame)
                 else Stop UnsupportedRecordType
             | Some oper \<Rightarrow> decode_lifecycle_record env offset oper frame))"

lemma decode_record_frame_end:
  "decode_record_frame env bytes offset = Inr frame \<Longrightarrow>
     offset < fr_record_end frame \<and> fr_record_end frame \<le> length bytes"
  by (auto simp: decode_record_frame_def Let_def checked_record_end_def wal_consts
      split: if_splits sum.splits)

fun next_of :: "DecodeRecordOutcome \<Rightarrow> nat option" where
  "next_of (Known r n) = Some n"
| "next_of (Checkpoint c n) = Some n"
| "next_of (SkippedUnknown q n) = Some n"
| "next_of (Stop reason) = None"

lemma decode_record_at_frame:
  assumes "next_of (decode_record_at env x offset seq) = Some n"
  obtains f where "decode_record_frame env x offset = Inr f" "fr_record_end f = n"
  using assms
  by (auto simp: decode_record_at_def decode_checkpoint_record_def decode_lifecycle_record_def
      split: sum.splits option.splits if_splits)

lemma decode_record_at_bounds:
  "next_of (decode_record_at env x offset seq) = Some n \<Longrightarrow> offset < n \<and> n \<le> length x"
  by (metis decode_record_at_frame decode_record_frame_end)

section \<open>Recovering a prefix\<close>

definition u64_saturating_succ :: "u64 \<Rightarrow> u64" where
  "u64_saturating_succ x = (case u64_checked_add x 1 of Some y \<Rightarrow> y | None \<Rightarrow> x)"

record decode_state =
  ds_records :: "ClaimWalRecord list"
  ds_checkpoint :: "ClaimWalCheckpointRecord option"
  ds_offset :: nat
  ds_expected_seq :: u64
  ds_last_observed_seq :: u64
  ds_valid_record_count :: nat
  ds_stop_reason :: ClaimWalStopReason

function decode_loop :: "wal_env \<Rightarrow> u8 list \<Rightarrow> decode_state \<Rightarrow> decode_state" where
  "decode_loop env bytes st =
     (if length bytes - ds_offset st = 0 then st
      else
        (case decode_record_at env bytes (ds_offset st) (ds_expected_seq st) of
           Known rec next \<Rightarrow>
             decode_loop env bytes (st
               \<lparr> ds_records := ds_records st @ [rec],
                 ds_offset := next,
                 ds_expected_seq := u64_saturating_succ (ds_expected_seq st),
                 ds_last_observed_seq := wr_seq rec,
                 ds_valid_record_count := Suc (ds_valid_record_count st) \<rparr>)
         | Checkpoint ck next \<Rightarrow>
             decode_loop env bytes (st
               \<lparr> ds_checkpoint := Some ck,
                 ds_offset := next,
                 ds_expected_seq := u64_saturating_succ (ck_seq ck),
                 ds_last_observed_seq := ck_seq ck,
                 ds_valid_record_count := Suc (ds_valid_record_count st) \<rparr>)
         | SkippedUnknown seq next \<Rightarrow>
             decode_loop env bytes (st
               \<lparr> ds_offset := next,
                 ds_expected_seq := u64_saturating_succ (ds_expected_seq st),
                 ds_last_observed_seq := seq,
                 ds_valid_record_count := Suc (ds_valid_record_count st) \<rparr>)
         | Stop reason \<Rightarrow> st\<lparr> ds_stop_reason := reason \<rparr>))"
  by pat_completeness auto

termination
  by (relation "measure (\<lambda>(env, bytes, st). length bytes - ds_offset st)")
    (auto dest!: arg_cong [where f = next_of] dest: decode_record_at_bounds intro!: diff_less_mono2)

declare decode_loop.simps [simp del]

definition decode_start :: decode_state where
  "decode_start =
     \<lparr> ds_records = [], ds_checkpoint = None, ds_offset = 0, ds_expected_seq = 1,
       ds_last_observed_seq = 0, ds_valid_record_count = 0, ds_stop_reason = CleanEof \<rparr>"

definition decode_prefix :: "wal_env \<Rightarrow> string \<Rightarrow> u8 list \<Rightarrow> ClaimWalRecovery" where
  "decode_prefix env path bytes =
     (let st = decode_loop env bytes decode_start in
      \<lparr> wal_path = path,
        rv_records = ds_records st,
        rv_checkpoint = ds_checkpoint st,
        last_observed_seq = ds_last_observed_seq st,
        valid_record_count = ds_valid_record_count st,
        last_good_offset = ds_offset st,
        original_len = length bytes,
        repaired = False,
        stop_reason = ds_stop_reason st \<rparr>)"

definition is_repairable_stop_reason :: "ClaimWalStopReason \<Rightarrow> bool" where
  "is_repairable_stop_reason reason \<longleftrightarrow>
     reason \<notin> {CleanEof, CheckpointSnapshotInvalid, CheckpointArchiveInvalid,
                CheckpointGenerationInvalid, CheckpointNotAtStart}"

definition reject_unselected_checkpoint_residue :: "ClaimWalRecovery \<Rightarrow> ClaimWalRecovery" where
  "reject_unselected_checkpoint_residue recovery =
     recovery
       \<lparr> rv_records := [], rv_checkpoint := None, last_observed_seq := 0, valid_record_count := 0,
         last_good_offset := 0, repaired := False, stop_reason := CheckpointGenerationInvalid \<rparr>"

text \<open>
  Recovery of the log file, with its new content.  The flag \<open>residue\<close> says whether the state
  directory holds checkpoint files although the log selects none.
\<close>

definition recover_claim_wal_file ::
    "wal_env \<Rightarrow> bool \<Rightarrow> string \<Rightarrow> u8 list \<Rightarrow> bool \<Rightarrow> u8 list \<times> ClaimWalRecovery" where
  "recover_claim_wal_file env residue path bytes repair =
     (let decoded = decode_prefix env path bytes;
          recovery = (if rv_checkpoint decoded = None \<and> residue
                      then reject_unselected_checkpoint_residue decoded else decoded)
      in if repair \<and> last_good_offset recovery < original_len decoded
            \<and> is_repairable_stop_reason (stop_reason recovery)
         then (take (last_good_offset recovery) bytes, recovery\<lparr> repaired := True \<rparr>)
         else (bytes, recovery))"

definition ensure_recovered_appendable :: "ClaimWalRecovery \<Rightarrow> ClaimWalAppendError option" where
  "ensure_recovered_appendable recovery =
     (if stop_reason recovery = CleanEof \<or> repaired recovery then None
      else Some (AeRecoveryStopped (stop_reason recovery) (last_good_offset recovery)
             (original_len recovery)))"

definition lifecycle_payload_bytes ::
    "wal_env \<Rightarrow> ClaimWalOperation \<Rightarrow> ClaimContract \<Rightarrow> string \<Rightarrow> ClaimWalAppendError + u8 list" where
  "lifecycle_payload_bytes env oper claim_contract recorded_at =
     (let payload = \<lparr> wp_schema_version = ''0.1'', wp_operation = oper, wp_recorded_at = recorded_at,
            wp_claim_contract = claim_contract \<rparr>
      in case to_json env payload of
           None \<Rightarrow> Inl AeSerialize
         | Some payload_bytes \<Rightarrow>
             if length payload_bytes > DEFAULT_MAX_PAYLOAD_LEN then
               Inl (AePayloadTooLarge (length payload_bytes) DEFAULT_MAX_PAYLOAD_LEN)
             else Inr payload_bytes)"

text \<open>
  One append under the lock: repair, next sequence number, encoded record at the end of the
  file.  The result is the file content after the call and the appended sequence number or
  the error; a failing append has still repaired the file.
\<close>

definition append_claim_wal_record ::
    "wal_env \<Rightarrow> bool \<Rightarrow> string \<Rightarrow> u8 list \<Rightarrow> ClaimWalOperation \<Rightarrow> ClaimContract \<Rightarrow> string
     \<Rightarrow> u8 list \<times> (ClaimWalAppendError + u64)" where
  "append_claim_wal_record env residue path bytes oper claim_contract recorded_at =
     (let (bytes', recovery) = recover_claim_wal_file env residue path bytes True in
      case ensure_recovered_appendable recovery of
        Some err \<Rightarrow> (bytes', Inl err)
      | None \<Rightarrow>
          (case u64_checked_add (last_observed_seq recovery) 1 of
             None \<Rightarrow> (bytes', Inl (AeSequenceOverflow (last_observed_seq recovery)))
           | Some seq \<Rightarrow>
               (case lifecycle_payload_bytes env oper claim_contract recorded_at of
                  Inl err \<Rightarrow> (bytes', Inl err)
                | Inr payload_bytes \<Rightarrow>
                    (case encode_record env seq (record_type oper) payload_bytes of
                       Inl err \<Rightarrow> (bytes', Inl err)
                     | Inr record_bytes \<Rightarrow> (bytes' @ record_bytes, Inr seq)))))"

section \<open>Frames read back\<close>

lemma slice_append: "j \<le> length a \<Longrightarrow> slice (a @ b) i j = slice a i j"
  by (simp add: slice_def)

lemma slice_offset: "slice (a @ b) (length a + i) (length a + j) = slice b i j"
  by (simp add: slice_def)

lemma length_header_prefix [simp]: "length (header_prefix flags seq rtype n) = 20"
  by (simp add: header_prefix_def wal_consts)

lemma length_encode_frame [simp]: "length (encode_frame env flags seq rtype payload) = 28 + length payload"
  by (simp add: encode_frame_def Let_def)

definition frame_ok :: "16 word \<Rightarrow> u8 list \<Rightarrow> bool" where
  "frame_ok flags payload \<longleftrightarrow>
     flags AND NOT ALLOWED_FLAGS = 0 \<and> flags AND FLAG_PAYLOAD_JSON \<noteq> 0 \<and>
     length payload \<le> DEFAULT_MAX_PAYLOAD_LEN"

lemma header_fields:
  fixes flags :: "16 word" and seq :: u64 and rtype :: u8
  assumes "n < 2 ^ 32"
  defines "h \<equiv> header_prefix flags seq rtype n"
  shows "slice h 0 4 = MAGIC" "h ! 4 = VERSION" "h ! 5 = rtype"
    "word_of_nat (le_nat (slice h 6 8)) = flags" "word_of_nat (le_nat (slice h 8 16)) = seq"
    "le_nat (slice h 16 20) = n"
proof -
  have u: "unat flags < 256 ^ 2" "unat seq < 256 ^ 8"
    using unsigned_less [where w = flags] unsigned_less [where w = seq] by simp_all
  have "slice h 6 8 = le_bytes 2 (unat flags)" "slice h 8 16 = le_bytes 8 (unat seq)"
    "slice h 16 20 = le_bytes 4 n"
    by (simp_all add: h_def header_prefix_def slice_def wal_consts)
  then show "word_of_nat (le_nat (slice h 6 8)) = flags" "word_of_nat (le_nat (slice h 8 16)) = seq"
    "le_nat (slice h 16 20) = n"
    using u assms(1) by (simp_all add: le_nat_le_bytes)
  show "slice h 0 4 = MAGIC" "h ! 4 = VERSION" "h ! 5 = rtype"
    by (simp_all add: h_def header_prefix_def slice_def wal_consts)
qed

lemma le_word32: "word_of_nat (le_nat (le_bytes 4 (unat w))) = (w :: 32 word)"
proof -
  have "unat w < 256 ^ 4" using unsigned_less [where w = w] by simp
  then show ?thesis by (simp add: le_nat_le_bytes)
qed

text \<open>What the decoder reads from the 24 header bytes of an encoded frame.\<close>

lemma encoded_header_fields:
  fixes flags :: "16 word" and seq :: u64 and rtype :: u8 and env :: wal_env
  assumes "length payload < 2 ^ 32"
  defines "h \<equiv> header_prefix flags seq rtype (length payload)"
  defines "hh \<equiv> h @ le_bytes 4 (unat (crc32c env h))"
  shows "slice hh 0 4 = MAGIC" "hh ! 4 = VERSION" "hh ! 5 = rtype"
    "word_of_nat (le_nat (slice hh 6 8)) = flags" "word_of_nat (le_nat (slice hh 8 16)) = seq"
    "le_nat (slice hh 16 20) = length payload" "slice hh 0 20 = h"
    "word_of_nat (le_nat (slice hh 20 24)) = crc32c env h"
proof -
  have l: "length h = 20" by (simp add: h_def)
  note f = header_fields [OF assms(1), of flags seq rtype, folded h_def]
  show "slice hh 0 4 = MAGIC" "hh ! 4 = VERSION" "hh ! 5 = rtype"
    "word_of_nat (le_nat (slice hh 6 8)) = flags" "word_of_nat (le_nat (slice hh 8 16)) = seq"
    "le_nat (slice hh 16 20) = length payload" "slice hh 0 20 = h"
    using f l by (simp_all add: hh_def slice_append nth_append) (simp add: slice_def)
  have "slice hh 20 24 = le_bytes 4 (unat (crc32c env h))" using l by (simp add: hh_def slice_def)
  then show "word_of_nat (le_nat (slice hh 20 24)) = crc32c env h" by (simp add: le_word32)
qed

lemma decode_encode_frame:
  assumes ok: "frame_ok flags payload" and fits: "length a + 28 + length payload < 2 ^ 64"
  shows "decode_record_frame env (a @ encode_frame env flags seq rtype payload @ b) (length a) = Inr
    \<lparr> fr_flags = flags, fr_record_type = rtype, fr_seq = seq, fr_payload = payload,
      fr_record_end = length a + 28 + length payload \<rparr>"
proof -
  define h where "h = header_prefix flags seq rtype (length payload)"
  define hh where "hh = h @ le_bytes 4 (unat (crc32c env h))"
  define pc where "pc = le_bytes 4 (unat (payload_crc32c env h payload))"
  define e where "e = encode_frame env flags seq rtype payload"
  have e: "e = hh @ payload @ pc" by (simp add: e_def encode_frame_def Let_def h_def hh_def pc_def)
  have n: "length payload < 2 ^ 32" using ok by (simp add: frame_ok_def wal_consts)
  have l: "length hh = 24" "length pc = 4" by (simp_all add: h_def hh_def pc_def)
  have hdr: "slice (a @ e @ b) (length a) (length a + 24) = hh"
    using slice_offset [of a "e @ b" 0 24] l by (simp add: e slice_def)
  have pay: "slice (a @ e @ b) (length a + 24) (length a + 24 + length payload) = payload"
    using slice_offset [of a "e @ b" 24 "24 + length payload"] l by (simp add: e slice_def add.assoc)
  have trl: "slice (a @ e @ b) (length a + 24 + length payload) (length a + 24 + length payload + 4) = pc"
    using slice_offset [of a "e @ b" "24 + length payload" "28 + length payload"] l
    by (simp add: e slice_def add_ac)
  note hf = encoded_header_fields [OF n, of flags seq rtype env, folded h_def, folded hh_def]
  have pcrc: "word_of_nat (le_nat pc) = payload_crc32c env h payload" by (simp add: pc_def le_word32)
  have len: "length (a @ e @ b) = length a + 28 + length payload + length b" using l by (simp add: e)
  have ce: "checked_record_end (length a) (length payload) = Inr (length a + 24 + length payload + 4)"
    using fits by (simp add: checked_record_end_def wal_consts)
  show ?thesis
    unfolding decode_record_frame_def e_def [symmetric] HEADER_LEN_def HEADER_CRC_OFFSET_def Let_def
      hdr hf ce sum.case pay trl pcrc len
    using ok by (simp add: frame_ok_def)
qed

text \<open>A strict prefix of an encoded frame is recognised as torn.\<close>

lemma decode_torn_frame:
  assumes ok: "frame_ok flags payload" and fits: "length a + 28 + length payload < 2 ^ 64"
    and k: "k < 28 + length payload"
  shows "decode_record_frame env (a @ take k (encode_frame env flags seq rtype payload)) (length a) =
    Inl (if k < 24 then TruncatedHeader else TruncatedPayload)"
proof (cases "k < 24")
  case True
  then show ?thesis using k by (simp add: decode_record_frame_def HEADER_LEN_def)
next
  case False
  define h where "h = header_prefix flags seq rtype (length payload)"
  define hh where "hh = h @ le_bytes 4 (unat (crc32c env h))"
  define e where "e = encode_frame env flags seq rtype payload"
  have e: "e = hh @ payload @ le_bytes 4 (unat (payload_crc32c env h payload))"
    by (simp add: e_def encode_frame_def Let_def h_def hh_def)
  have n: "length payload < 2 ^ 32" using ok by (simp add: frame_ok_def wal_consts)
  have l: "length hh = 24" by (simp add: h_def hh_def)
  have hdr: "slice (a @ take k e) (length a) (length a + 24) = hh"
    using slice_offset [of a "take k e" 0 24] l False by (simp add: e slice_def min_def)
  note hf = encoded_header_fields [OF n, of flags seq rtype env, folded h_def, folded hh_def]
  have ce: "checked_record_end (length a) (length payload) = Inr (length a + 24 + length payload + 4)"
    using fits by (simp add: checked_record_end_def wal_consts)
  have len: "length (a @ take k e) = length a + k" using k l by (simp add: e)
  show ?thesis
    unfolding decode_record_frame_def e_def [symmetric] HEADER_LEN_def HEADER_CRC_OFFSET_def Let_def
      hdr hf ce sum.case len
    using ok k False by (simp add: frame_ok_def)
qed

text \<open>A frame that ends inside \<open>a\<close> is read the same whatever follows.\<close>

lemma decode_record_frame_stable:
  assumes "fr_record_end f \<le> length a"
  shows "decode_record_frame env (a @ b) offset = Inr f \<longleftrightarrow> decode_record_frame env a offset = Inr f"
proof (cases "offset + HEADER_LEN \<le> length a")
  case False
  have "decode_record_frame env x offset \<noteq> Inr f" for x
  proof
    assume "decode_record_frame env x offset = Inr f"
    then have "offset + HEADER_LEN \<le> fr_record_end f"
      by (auto simp: decode_record_frame_def Let_def checked_record_end_def split: if_splits)
    with assms False show False by simp
  qed
  then show ?thesis by simp
next
  case True
  let ?h = "slice a offset (offset + HEADER_LEN)"
  let ?n = "le_nat (slice ?h 16 20)" let ?e = "offset + HEADER_LEN + ?n + TRAILER_LEN"
  have h: "slice (a @ b) offset (offset + HEADER_LEN) = ?h" using True by (rule slice_append)
  have big: "decode_record_frame env x offset \<noteq> Inr f"
    if "slice x offset (offset + HEADER_LEN) = ?h" "length a < ?e" for x
    using that assms
    by (auto simp: decode_record_frame_def Let_def checked_record_end_def split: if_splits)
  show ?thesis
  proof (cases "?e \<le> length a")
    case False
    then show ?thesis using big [of a] big [of "a @ b"] h by simp
  next
    case e: True
    then have p: "slice (a @ b) (offset + HEADER_LEN) (offset + HEADER_LEN + ?n) =
        slice a (offset + HEADER_LEN) (offset + HEADER_LEN + ?n)"
      and t: "slice (a @ b) (offset + HEADER_LEN + ?n) ?e = slice a (offset + HEADER_LEN + ?n) ?e"
      by (simp_all add: slice_append)
    have "decode_record_frame env (a @ b) offset = decode_record_frame env a offset"
      unfolding decode_record_frame_def Let_def h checked_record_end_def using e True
      by (simp add: p t)
    then show ?thesis by simp
  qed
qed

section \<open>Prefixes and extensions of a log\<close>

lemma decode_record_at_cong:
  "decode_record_frame env x offset = decode_record_frame env y offset \<Longrightarrow>
     decode_record_at env x offset seq = decode_record_at env y offset seq"
  by (simp add: decode_record_at_def)

lemma decode_record_at_extend:
  assumes "next_of (decode_record_at env a offset seq) = Some n" "n \<le> length a"
  shows "decode_record_at env (a @ b) offset seq = decode_record_at env a offset seq"
proof -
  obtain f where f: "decode_record_frame env a offset = Inr f" "fr_record_end f = n"
    using assms(1) by (rule decode_record_at_frame)
  with assms(2) show ?thesis
    using decode_record_frame_stable [of f a env b offset] by (intro decode_record_at_cong) simp
qed

lemma decode_record_at_shrink:
  assumes "next_of (decode_record_at env (a @ b) offset seq) = Some n" "n \<le> length a"
  shows "decode_record_at env a offset seq = decode_record_at env (a @ b) offset seq"
proof -
  obtain f where f: "decode_record_frame env (a @ b) offset = Inr f" "fr_record_end f = n"
    using assms(1) by (rule decode_record_at_frame)
  with assms(2) show ?thesis
    using decode_record_frame_stable [of f a env b offset] by (intro decode_record_at_cong) simp
qed

text \<open>One successful turn of the loop.\<close>

definition advance :: "DecodeRecordOutcome \<Rightarrow> decode_state \<Rightarrow> decode_state" where
  "advance oc st =
     (case oc of
        Known rec next \<Rightarrow> st
          \<lparr> ds_records := ds_records st @ [rec], ds_offset := next,
            ds_expected_seq := u64_saturating_succ (ds_expected_seq st),
            ds_last_observed_seq := wr_seq rec,
            ds_valid_record_count := Suc (ds_valid_record_count st) \<rparr>
      | Checkpoint ck next \<Rightarrow> st
          \<lparr> ds_checkpoint := Some ck, ds_offset := next,
            ds_expected_seq := u64_saturating_succ (ck_seq ck),
            ds_last_observed_seq := ck_seq ck,
            ds_valid_record_count := Suc (ds_valid_record_count st) \<rparr>
      | SkippedUnknown seq next \<Rightarrow> st
          \<lparr> ds_offset := next,
            ds_expected_seq := u64_saturating_succ (ds_expected_seq st),
            ds_last_observed_seq := seq,
            ds_valid_record_count := Suc (ds_valid_record_count st) \<rparr>
      | Stop reason \<Rightarrow> st\<lparr> ds_stop_reason := reason \<rparr>)"

lemma advance_offset: "next_of oc = Some n \<Longrightarrow> ds_offset (advance oc st) = n"
  by (cases oc) (auto simp: advance_def)

lemma advance_stop: "next_of oc = Some n \<Longrightarrow> ds_stop_reason (advance oc st) = ds_stop_reason st"
  by (cases oc) (auto simp: advance_def)

lemma advance_set_stop:
  "next_of oc = Some n \<Longrightarrow> advance oc (st\<lparr> ds_stop_reason := r \<rparr>) = (advance oc st)\<lparr> ds_stop_reason := r \<rparr>"
  by (cases oc) (auto simp: advance_def)

lemma decode_loop_done: "length bytes \<le> ds_offset st \<Longrightarrow> decode_loop env bytes st = st"
  by (simp add: decode_loop.simps)

lemma decode_loop_turn:
  assumes "ds_offset st < length bytes"
    and "decode_record_at env bytes (ds_offset st) (ds_expected_seq st) = oc"
  shows "decode_loop env bytes st =
    (case next_of oc of None \<Rightarrow> advance oc st | Some n \<Rightarrow> decode_loop env bytes (advance oc st))"
  using assms by (subst decode_loop.simps) (cases oc; simp add: advance_def)

lemma decode_loop_induct [case_names at_end stop turn]:
  assumes "\<And>st. length bytes \<le> ds_offset st \<Longrightarrow> P st"
    and "\<And>st reason. ds_offset st < length bytes \<Longrightarrow>
      decode_record_at env bytes (ds_offset st) (ds_expected_seq st) = Stop reason \<Longrightarrow> P st"
    and "\<And>st oc n. ds_offset st < length bytes \<Longrightarrow>
      decode_record_at env bytes (ds_offset st) (ds_expected_seq st) = oc \<Longrightarrow> next_of oc = Some n \<Longrightarrow>
      ds_offset st < n \<Longrightarrow> n \<le> length bytes \<Longrightarrow> P (advance oc st) \<Longrightarrow> P st"
  shows "P st"
proof (induction "length bytes - ds_offset st" arbitrary: st rule: less_induct)
  case less
  let ?oc = "decode_record_at env bytes (ds_offset st) (ds_expected_seq st)"
  show ?case
  proof (cases "ds_offset st < length bytes")
    case True
    show ?thesis
    proof (cases "next_of ?oc")
      case None
      then obtain r where "?oc = Stop r" by (cases ?oc) auto
      with True show ?thesis by (rule assms(2))
    next
      case (Some n)
      then have n: "ds_offset st < n" "n \<le> length bytes" by (auto dest: decode_record_at_bounds)
      with True Some less show ?thesis
        by (intro assms(3) [OF True refl Some n]) (simp add: advance_offset)
    qed
  qed (simp add: assms(1))
qed

lemma decode_loop_offset_mono:
  "ds_offset st \<le> ds_offset (decode_loop env bytes st)"
  by (induction st rule: decode_loop_induct [where bytes = bytes and env = env])
    (auto simp: decode_loop_done decode_loop_turn advance_def [of "Stop _"] advance_offset)

lemma decode_loop_offset_le:
  "ds_offset st \<le> length bytes \<Longrightarrow> ds_offset (decode_loop env bytes st) \<le> length bytes"
  by (induction st rule: decode_loop_induct [where bytes = bytes and env = env])
    (auto simp: decode_loop_done decode_loop_turn advance_def [of "Stop _"] advance_offset)

text \<open>A log that was read to its end is read the same when bytes are added.\<close>

lemma decode_loop_extend:
  "ds_offset (decode_loop env a st) = length a \<Longrightarrow>
     decode_loop env (a @ b) st = decode_loop env (a @ b) (decode_loop env a st)"
proof (induction st rule: decode_loop_induct [where bytes = a and env = env])
  case (at_end st)
  then show ?case by (simp add: decode_loop_done)
next
  case (stop st reason)
  then show ?case by (simp add: decode_loop_turn advance_def)
next
  case (turn st oc n)
  then have "decode_record_at env (a @ b) (ds_offset st) (ds_expected_seq st) = oc"
    using decode_record_at_extend [of env a "ds_offset st" "ds_expected_seq st" n b] by simp
  with turn show ?case by (simp add: decode_loop_turn)
qed

text \<open>Cutting a log at its last good offset keeps everything that was read from it.\<close>

lemma decode_loop_cut:
  "ds_offset (decode_loop env bytes st) \<le> k \<Longrightarrow> k \<le> length bytes \<Longrightarrow>
     k = ds_offset (decode_loop env bytes st) \<Longrightarrow>
     decode_loop env (take k bytes) st = (decode_loop env bytes st)\<lparr> ds_stop_reason := ds_stop_reason st \<rparr>"
proof (induction st rule: decode_loop_induct [where bytes = bytes and env = env])
  case (at_end st)
  then show ?case by (simp add: decode_loop_done)
next
  case (stop st reason)
  then show ?case by (simp add: decode_loop_turn advance_def decode_loop_done)
next
  case (turn st oc n)
  have "n \<le> ds_offset (decode_loop env bytes (advance oc st))"
    using decode_loop_offset_mono [of "advance oc st" env bytes] turn.hyps by (simp add: advance_offset)
  with turn have n: "n \<le> k" by (simp add: decode_loop_turn)
  with turn have "decode_record_at env (take k bytes) (ds_offset st) (ds_expected_seq st) = oc"
    using decode_record_at_shrink [of env "take k bytes" "drop k bytes" "ds_offset st" "ds_expected_seq st" n]
    by (simp add: min_def)
  moreover have "ds_offset st < length (take k bytes)" using turn n by simp
  ultimately show ?case using turn by (simp add: decode_loop_turn advance_stop)
qed

section \<open>Recovery and append\<close>

text \<open>A checkpoint that cannot be retained is never reported as the end of the file.\<close>

definition ckpt_reasons_ok :: "wal_env \<Rightarrow> bool" where
  "ckpt_reasons_ok env \<longleftrightarrow>
     (\<forall>retain p q. ckpt_authority env = Some retain \<longrightarrow> retain p q \<noteq> Inl CleanEof)"

lemma decode_record_frame_not_clean: "decode_record_frame env bytes offset \<noteq> Inl CleanEof"
  by (auto simp: decode_record_frame_def Let_def checked_record_end_def split: if_splits)

lemma decode_checkpoint_record_cases:
  "decode_checkpoint_record env offset frame \<noteq> Known r n"
  "decode_checkpoint_record env offset frame \<noteq> SkippedUnknown q n"
  "ckpt_reasons_ok env \<Longrightarrow> decode_checkpoint_record env offset frame \<noteq> Stop CleanEof"
  by (auto simp: decode_checkpoint_record_def ckpt_reasons_ok_def split: option.splits sum.splits)

lemma decode_record_at_not_clean:
  "ckpt_reasons_ok env \<Longrightarrow> decode_record_at env bytes offset seq \<noteq> Stop CleanEof"
  using decode_record_frame_not_clean [of env bytes offset]
  by (auto simp: decode_record_at_def decode_checkpoint_record_cases decode_lifecycle_record_def
      split: sum.splits option.splits)

lemma decode_record_at_seq:
  "decode_record_at env bytes offset seq = Known r n \<Longrightarrow> wr_seq r = seq"
  "decode_record_at env bytes offset seq = SkippedUnknown q n \<Longrightarrow> q = seq"
  by (auto simp: decode_record_at_def decode_checkpoint_record_cases decode_lifecycle_record_def
      split: sum.splits option.splits if_splits)

lemma decode_loop_clean:
  assumes "ckpt_reasons_ok env"
  shows "ds_offset st \<le> length bytes \<Longrightarrow> ds_stop_reason (decode_loop env bytes st) = CleanEof \<Longrightarrow>
    ds_offset (decode_loop env bytes st) = length bytes"
proof (induction st rule: decode_loop_induct [where bytes = bytes and env = env])
  case (stop st reason)
  then have "reason = CleanEof" by (simp add: decode_loop_turn advance_def)
  with stop decode_record_at_not_clean [OF assms] show ?case by simp
qed (auto simp: decode_loop_done decode_loop_turn advance_offset)

text \<open>The sequence number the scan expects next follows the last one it saw.\<close>

lemma decode_loop_expected:
  "ds_expected_seq st = u64_saturating_succ (ds_last_observed_seq st) \<Longrightarrow>
     ds_expected_seq (decode_loop env bytes st) =
       u64_saturating_succ (ds_last_observed_seq (decode_loop env bytes st))"
proof (induction st rule: decode_loop_induct [where bytes = bytes and env = env])
  case (at_end st)
  then show ?case by (simp add: decode_loop_done)
next
  case (stop st reason)
  then show ?case by (simp add: decode_loop_turn advance_def)
next
  case (turn st oc n)
  have "ds_expected_seq (advance oc st) = u64_saturating_succ (ds_last_observed_seq (advance oc st))"
    using turn.hyps(2,3) decode_record_at_seq [of env bytes "ds_offset st" "ds_expected_seq st"]
    by (cases oc) (simp_all add: advance_def)
  with turn show ?case by (simp add: decode_loop_turn)
qed

lemma recovered_no_residue:
  assumes "recover_claim_wal_file env residue path bytes True = (bytes', recovery)"
    and "ensure_recovered_appendable recovery = None"
  shows "\<not> (rv_checkpoint recovery = None \<and> residue)"
    "\<not> (rv_checkpoint (decode_prefix env path bytes) = None \<and> residue)"
  using assms
  by (auto simp: recover_claim_wal_file_def reject_unselected_checkpoint_residue_def
      is_repairable_stop_reason_def ensure_recovered_appendable_def Let_def decode_prefix_def
      split: if_splits)

lemma decode_loop_stopped_early:
  "ds_stop_reason (decode_loop env bytes st) \<noteq> ds_stop_reason st \<Longrightarrow>
     ds_offset (decode_loop env bytes st) < length bytes"
proof (induction st rule: decode_loop_induct [where bytes = bytes and env = env])
  case (turn st oc n)
  then show ?case by (simp add: decode_loop_turn advance_stop)
qed (simp_all add: decode_loop_done decode_loop_turn advance_def)

text \<open>The content of the file and the state of the scan once recovery lets an append through.\<close>

lemma recovered_log:
  assumes ck: "ckpt_reasons_ok env"
    and rec: "recover_claim_wal_file env residue path bytes True = (bytes', recovery)"
    and ok: "ensure_recovered_appendable recovery = None"
  shows "ds_offset (decode_loop env bytes' decode_start) = length bytes'"
    "ds_stop_reason (decode_loop env bytes' decode_start) = CleanEof"
    "ds_records (decode_loop env bytes' decode_start) = rv_records recovery"
    "ds_checkpoint (decode_loop env bytes' decode_start) = rv_checkpoint recovery"
    "ds_last_observed_seq (decode_loop env bytes' decode_start) = last_observed_seq recovery"
    "prefix bytes' bytes"
proof -
  let ?st = "decode_loop env bytes decode_start"
  have le: "ds_offset ?st \<le> length bytes"
    by (rule decode_loop_offset_le) (simp add: decode_start_def)
  have start: "ds_stop_reason decode_start = CleanEof" by (simp add: decode_start_def)
  note nres = recovered_no_residue(2) [OF rec ok]
  consider (clean) "bytes' = bytes" "recovery = decode_prefix env path bytes" "ds_stop_reason ?st = CleanEof"
    | (cut) "bytes' = take (ds_offset ?st) bytes" "recovery = (decode_prefix env path bytes)\<lparr> repaired := True \<rparr>"
    using rec ok nres
    by (auto simp: recover_claim_wal_file_def ensure_recovered_appendable_def Let_def decode_prefix_def
        split: if_splits)
  then have "decode_loop env bytes' decode_start = ?st\<lparr> ds_stop_reason := CleanEof \<rparr> \<and>
      length bytes' = ds_offset ?st \<and> prefix bytes' bytes \<and>
      rv_records recovery = ds_records ?st \<and> rv_checkpoint recovery = ds_checkpoint ?st \<and>
      last_observed_seq recovery = ds_last_observed_seq ?st"
  proof cases
    case clean
    then have "ds_offset ?st = length bytes"
      by (intro decode_loop_clean [OF ck]) (simp_all add: decode_start_def)
    moreover have "?st\<lparr> ds_stop_reason := CleanEof \<rparr> = ?st" using clean(3) by (cases ?st) simp
    ultimately show ?thesis using clean by (simp add: decode_prefix_def Let_def)
  next
    case cut
    with le decode_loop_cut [of env bytes decode_start "ds_offset ?st"] show ?thesis
      by (simp add: decode_prefix_def Let_def start take_is_prefix)
  qed
  then show "ds_offset (decode_loop env bytes' decode_start) = length bytes'"
    "ds_stop_reason (decode_loop env bytes' decode_start) = CleanEof"
    "ds_records (decode_loop env bytes' decode_start) = rv_records recovery"
    "ds_checkpoint (decode_loop env bytes' decode_start) = rv_checkpoint recovery"
    "ds_last_observed_seq (decode_loop env bytes' decode_start) = last_observed_seq recovery"
    "prefix bytes' bytes" by simp_all
qed

text \<open>The JSON encoding of a payload reads back as that payload.\<close>

definition json_reads_back :: "wal_env \<Rightarrow> ClaimWalPayload \<Rightarrow> bool" where
  "json_reads_back env payload \<longleftrightarrow> (\<forall>bs. to_json env payload = Some bs \<longrightarrow> from_json env bs = Some payload)"

definition wal_payload :: "ClaimWalOperation \<Rightarrow> ClaimContract \<Rightarrow> string \<Rightarrow> ClaimWalPayload" where
  "wal_payload oper claim recorded_at =
     \<lparr> wp_schema_version = ''0.1'', wp_operation = oper, wp_recorded_at = recorded_at,
       wp_claim_contract = claim \<rparr>"

lemma append_claim_wal_record_Inr:
  assumes "append_claim_wal_record env residue path bytes oper claim recorded_at = (bytes'', Inr seq)"
  obtains bytes' recovery pl where
    "recover_claim_wal_file env residue path bytes True = (bytes', recovery)"
    "ensure_recovered_appendable recovery = None"
    "u64_checked_add (last_observed_seq recovery) 1 = Some seq"
    "to_json env (wal_payload oper claim recorded_at) = Some pl" "frame_ok FLAG_PAYLOAD_JSON pl"
    "bytes'' = bytes' @ encode_frame env FLAG_PAYLOAD_JSON seq (record_type oper) pl"
proof -
  have flags: "FLAG_PAYLOAD_JSON AND NOT ALLOWED_FLAGS = 0" "FLAG_PAYLOAD_JSON AND FLAG_PAYLOAD_JSON \<noteq> 0"
    by (simp_all add: wal_consts)
  obtain bytes' recovery where r: "recover_claim_wal_file env residue path bytes True = (bytes', recovery)"
    by (cases "recover_claim_wal_file env residue path bytes True")
  show ?thesis
    using assms r that [OF r] flags
    by (auto simp: append_claim_wal_record_def lifecycle_payload_bytes_def encode_record_def Let_def
        frame_ok_def wal_payload_def split: option.splits sum.splits if_splits)
qed

lemma from_record_type_record_type [simp]: "from_record_type (record_type oper) = Some oper"
  by (cases oper) (simp_all add: record_type_def from_record_type_def)

lemma record_type_not_checkpoint [simp]: "record_type oper \<noteq> RECORD_TYPE_CHECKPOINT_REF"
  by (cases oper) (simp_all add: record_type_def RECORD_TYPE_CHECKPOINT_REF_def)

lemma decode_loop_appended:
  assumes st: "ds_offset st = length a" "ds_expected_seq st = seq" "ds_stop_reason st = CleanEof"
    and ok: "frame_ok FLAG_PAYLOAD_JSON pl" "length a + 28 + length pl < 2 ^ 64"
    and json: "from_json env pl = Some (wal_payload oper claim recorded_at)"
  shows "decode_loop env (a @ encode_frame env FLAG_PAYLOAD_JSON seq (record_type oper) pl) st =
    advance (Known \<lparr> wr_seq = seq, wr_operation = oper, wr_payload = wal_payload oper claim recorded_at,
        wr_offset = length a, wr_record_len = 28 + length pl \<rparr> (length a + 28 + length pl)) st"
proof -
  let ?b = "a @ encode_frame env FLAG_PAYLOAD_JSON seq (record_type oper) pl"
  have f: "decode_record_frame env ?b (length a) = Inr
    \<lparr> fr_flags = FLAG_PAYLOAD_JSON, fr_record_type = record_type oper, fr_seq = seq, fr_payload = pl,
      fr_record_end = length a + 28 + length pl \<rparr>"
    using decode_encode_frame [OF ok, of env seq "record_type oper" "[]"] by simp
  have "decode_record_at env ?b (ds_offset st) (ds_expected_seq st) =
      Known \<lparr> wr_seq = seq, wr_operation = oper, wr_payload = wal_payload oper claim recorded_at,
        wr_offset = length a, wr_record_len = 28 + length pl \<rparr> (length a + 28 + length pl)"
    using json by (simp add: decode_record_at_def st f decode_lifecycle_record_def wal_payload_def)
  moreover have "ds_offset st < length ?b" using st by simp
  ultimately show ?thesis by (simp add: decode_loop_turn decode_loop_done advance_offset)
qed

lemma decode_loop_torn:
  assumes st: "ds_offset st = length a"
    and ok: "frame_ok flags pl" "length a + 28 + length pl < 2 ^ 64" and k: "k < 28 + length pl"
  obtains reason where
    "decode_loop env (a @ take k (encode_frame env flags seq rtype pl)) st = st\<lparr> ds_stop_reason := reason \<rparr>"
    "if k = 0 then reason = ds_stop_reason st else reason \<in> {TruncatedHeader, TruncatedPayload}"
proof (cases "k = 0")
  case True
  then have "decode_loop env (a @ take k (encode_frame env flags seq rtype pl)) st =
      st\<lparr> ds_stop_reason := ds_stop_reason st \<rparr>" by (simp add: decode_loop_done st)
  with True show ?thesis by (intro that) auto
next
  case False
  let ?b = "a @ take k (encode_frame env flags seq rtype pl)"
  have lt: "ds_offset st < length ?b" using k st False by simp
  have "decode_record_at env ?b (ds_offset st) (ds_expected_seq st) =
      Stop (if k < 24 then TruncatedHeader else TruncatedPayload)"
    using decode_torn_frame [OF ok k, of env seq rtype] by (simp add: decode_record_at_def st)
  with decode_loop_turn [OF lt] False show ?thesis
    by (intro that [of "if k < 24 then TruncatedHeader else TruncatedPayload"]) (simp_all add: advance_def)
qed

lemma decode_start_expected: "ds_expected_seq decode_start = u64_saturating_succ (ds_last_observed_seq decode_start)"
  by (simp add: decode_start_def u64_saturating_succ_def u64_checked_add_def)

text \<open>The state of the scan at the end of a recovered log, ready for the next record.\<close>

lemma recovered_expected:
  assumes "ckpt_reasons_ok env" "recover_claim_wal_file env residue path bytes True = (bytes', recovery)"
    "ensure_recovered_appendable recovery = None" "u64_checked_add (last_observed_seq recovery) 1 = Some seq"
  shows "ds_expected_seq (decode_loop env bytes' decode_start) = seq"
  using decode_loop_expected [OF decode_start_expected, of env bytes'] recovered_log(5) [OF assms(1-3)] assms(4)
  by (simp add: u64_saturating_succ_def)

text \<open>A recovered log followed by bytes at which the scan stops recovers to itself.\<close>

lemma recover_stopped_tail:
  assumes ck: "ckpt_reasons_ok env"
    and rec: "recover_claim_wal_file env residue path bytes True = (bytes', recovery)"
    and ok: "ensure_recovered_appendable recovery = None"
    and stop: "decode_loop env (bytes' @ t) (decode_loop env bytes' decode_start) =
      (decode_loop env bytes' decode_start)\<lparr> ds_stop_reason := reason \<rparr>"
    and reason: "if t = [] then reason = CleanEof else is_repairable_stop_reason reason"
  shows "\<exists>recovery'. recover_claim_wal_file env residue path (bytes' @ t) True = (bytes', recovery') \<and>
    ensure_recovered_appendable recovery' = None \<and>
    rv_records recovery' = rv_records recovery \<and> rv_checkpoint recovery' = rv_checkpoint recovery \<and>
    last_observed_seq recovery' = last_observed_seq recovery"
proof -
  note r = recovered_log [OF ck rec ok]
  define b where "b = bytes' @ t"
  define R where "R =
      \<lparr> wal_path = path, rv_records = rv_records recovery, rv_checkpoint = rv_checkpoint recovery,
        last_observed_seq = last_observed_seq recovery,
        valid_record_count = ds_valid_record_count (decode_loop env bytes' decode_start),
        last_good_offset = length bytes', original_len = length b, repaired = False,
        stop_reason = reason \<rparr>"
  have dp: "decode_prefix env path b = R"
    unfolding decode_prefix_def Let_def R_def unfolding b_def decode_loop_extend [OF r(1)] stop
    by (simp add: r)
  have nr: "(rv_checkpoint R = None \<and> residue) = False"
    using recovered_no_residue(1) [OF rec ok] by (simp add: R_def)
  have rf: "recover_claim_wal_file env residue path b True =
      (if t \<noteq> [] \<and> is_repairable_stop_reason reason then (bytes', R\<lparr> repaired := True \<rparr>) else (b, R))"
    unfolding recover_claim_wal_file_def Let_def dp nr by (simp add: R_def b_def)
  show ?thesis
  proof (cases "t = []")
    case True
    then show ?thesis using reason rf
      by (intro exI [of _ R]) (simp add: b_def R_def ensure_recovered_appendable_def)
  next
    case False
    with reason rf show ?thesis unfolding b_def
      by (intro exI [of _ "R\<lparr> repaired := True \<rparr>"]) (simp add: R_def ensure_recovered_appendable_def)
  qed
qed

text \<open>What an append that succeeds leaves in the file, as the scan reads it.\<close>

lemma append_decoded:
  assumes ck: "ckpt_reasons_ok env"
    and app: "append_claim_wal_record env residue path bytes oper claim recorded_at = (bytes'', Inr seq)"
    and json: "json_reads_back env (wal_payload oper claim recorded_at)"
    and fits: "length bytes'' < 2 ^ 64"
  obtains bytes' recovery r where
    "recover_claim_wal_file env residue path bytes True = (bytes', recovery)"
    "ensure_recovered_appendable recovery = None"
    "wr_seq r = seq" "wr_operation r = oper" "wr_payload r = wal_payload oper claim recorded_at"
    "decode_loop env bytes'' decode_start =
      advance (Known r (length bytes'')) (decode_loop env bytes' decode_start)"
    "u64_checked_add (last_observed_seq recovery) 1 = Some seq" "prefix bytes' bytes''"
proof -
  obtain bytes' recovery pl where
    rec: "recover_claim_wal_file env residue path bytes True = (bytes', recovery)"
    and ok: "ensure_recovered_appendable recovery = None"
    and seq: "u64_checked_add (last_observed_seq recovery) 1 = Some seq"
    and pl: "to_json env (wal_payload oper claim recorded_at) = Some pl" "frame_ok FLAG_PAYLOAD_JSON pl"
    and b: "bytes'' = bytes' @ encode_frame env FLAG_PAYLOAD_JSON seq (record_type oper) pl"
    using app by (rule append_claim_wal_record_Inr)
  note r = recovered_log [OF ck rec ok]
  have fits': "length bytes' + 28 + length pl < 2 ^ 64" using fits by (simp add: b)
  have "from_json env pl = Some (wal_payload oper claim recorded_at)"
    using json pl(1) by (simp add: json_reads_back_def)
  note st = decode_loop_appended [OF r(1) recovered_expected [OF ck rec ok seq] r(2) pl(2) fits' this]
  have len: "length bytes'' = length bytes' + 28 + length pl" by (simp add: b)
  have "decode_loop env bytes'' decode_start = decode_loop env bytes'' (decode_loop env bytes' decode_start)"
    unfolding b by (rule decode_loop_extend [OF r(1)])
  note st' = this [unfolded st [folded b len]]
  show ?thesis by (rule that [OF rec ok _ _ _ st' seq]) (simp_all add: b)
qed

text \<open>A cut inside the appended record leaves the recovered log and a torn frame.\<close>

lemma append_cut:
  assumes ck: "ckpt_reasons_ok env"
    and app: "append_claim_wal_record env residue path bytes oper claim recorded_at = (bytes'', Inr seq)"
    and rec: "recover_claim_wal_file env residue path bytes True = (bytes', recovery)"
    and cut: "length bytes' \<le> k" "k < length bytes''" and fits: "length bytes'' < 2 ^ 64"
  obtains t reason where "ensure_recovered_appendable recovery = None" "take k bytes'' = bytes' @ t"
    "decode_loop env (bytes' @ t) (decode_loop env bytes' decode_start) =
      (decode_loop env bytes' decode_start)\<lparr> ds_stop_reason := reason \<rparr>"
    "if t = [] then reason = CleanEof else reason \<in> {TruncatedHeader, TruncatedPayload}"
proof -
  obtain pl where ok: "ensure_recovered_appendable recovery = None"
    and pl: "frame_ok FLAG_PAYLOAD_JSON pl"
    and b: "bytes'' = bytes' @ encode_frame env FLAG_PAYLOAD_JSON seq (record_type oper) pl"
    using append_claim_wal_record_Inr [OF app] rec by auto
  let ?t = "take (k - length bytes') (encode_frame env FLAG_PAYLOAD_JSON seq (record_type oper) pl)"
  have t: "take k bytes'' = bytes' @ ?t" using cut by (simp add: b)
  have j: "k - length bytes' < 28 + length pl" and fits': "length bytes' + 28 + length pl < 2 ^ 64"
    using cut fits by (auto simp: b)
  obtain reason where st:
    "decode_loop env (bytes' @ ?t) (decode_loop env bytes' decode_start) =
      (decode_loop env bytes' decode_start)\<lparr> ds_stop_reason := reason \<rparr>"
    and reason: "if k - length bytes' = 0 then reason = CleanEof else reason \<in> {TruncatedHeader, TruncatedPayload}"
    using decode_loop_torn [OF recovered_log(1) [OF ck rec ok] pl fits' j, of env seq "record_type oper"]
      recovered_log(2) [OF ck rec ok] by metis
  have "?t = [] \<longleftrightarrow> k - length bytes' = 0"
    using length_encode_frame [of env FLAG_PAYLOAD_JSON seq "record_type oper" pl] by (auto simp flip: length_0_conv)
  with reason have "if ?t = [] then reason = CleanEof else reason \<in> {TruncatedHeader, TruncatedPayload}" by simp
  from that [OF ok t st this] show ?thesis .
qed

section \<open>A sample environment\<close>

text \<open>One payload, its encoding, no checkpoint and a constant checksum.\<close>

definition sample_env :: wal_env where
  "sample_env =
     \<lparr> crc32c = (\<lambda>_. 0), to_json = (\<lambda>_. Some [1]),
       from_json = (\<lambda>_. Some (wal_payload WopAcquire sample_claim ''1970-01-01T00:00:00Z'')),
       ckpt_from_json = (\<lambda>_. None), ckpt_canonical = (\<lambda>_. None), ckpt_authority = None \<rparr>"

definition sample_append :: "u8 list \<times> (ClaimWalAppendError + u64)" where
  "sample_append =
     append_claim_wal_record sample_env False ''wal'' [] WopAcquire sample_claim ''1970-01-01T00:00:00Z''"

lemma sample_env_ok:
  "ckpt_reasons_ok sample_env"
  "json_reads_back sample_env (wal_payload WopAcquire sample_claim ''1970-01-01T00:00:00Z'')"
  by (simp_all add: ckpt_reasons_ok_def json_reads_back_def sample_env_def)

lemma sample_recover:
  "recover_claim_wal_file sample_env False ''wal'' [] True = ([], decode_prefix sample_env ''wal'' [])"
  "decode_prefix sample_env ''wal'' [] =
     \<lparr> wal_path = ''wal'', rv_records = [], rv_checkpoint = None, last_observed_seq = 0,
       valid_record_count = 0, last_good_offset = 0, original_len = 0, repaired = False,
       stop_reason = CleanEof \<rparr>"
  by (simp_all add: recover_claim_wal_file_def decode_prefix_def Let_def decode_loop_done decode_start_def)

lemma sample_append_eq:
  "sample_append = (encode_frame sample_env FLAG_PAYLOAD_JSON 1 (record_type WopAcquire) [1], Inr 1)"
proof -
  have "to_json sample_env p = Some [1]" for p by (simp add: sample_env_def)
  then show ?thesis
    by (simp add: sample_append_def append_claim_wal_record_def sample_recover ensure_recovered_appendable_def
        u64_checked_add_def lifecycle_payload_bytes_def encode_record_def DEFAULT_MAX_PAYLOAD_LEN_def)
qed

section \<open>Properties\<close>



text \<open>
  C3. Crash atomicity of an append: if the process stops after any number of bytes of the
  new record have reached the file, the next recovery restores exactly the file and the
  records from before the append, and lets the next append through.
\<close>

theorem append_crash_atomic:
  assumes ck: "ckpt_reasons_ok env"
    and app: "append_claim_wal_record env residue path bytes oper claim recorded_at = (bytes'', Inr seq)"
    and rec: "recover_claim_wal_file env residue path bytes True = (bytes', recovery)"
    and cut: "length bytes' \<le> k" "k < length bytes''" and fits: "length bytes'' < 2 ^ 64"
  shows "\<exists>recovery'. recover_claim_wal_file env residue path (take k bytes'') True = (bytes', recovery') \<and>
    ensure_recovered_appendable recovery' = None \<and>
    rv_records recovery' = rv_records recovery \<and> rv_checkpoint recovery' = rv_checkpoint recovery \<and>
    last_observed_seq recovery' = last_observed_seq recovery"
proof -
  obtain t reason where t: "ensure_recovered_appendable recovery = None" "take k bytes'' = bytes' @ t"
    "decode_loop env (bytes' @ t) (decode_loop env bytes' decode_start) =
      (decode_loop env bytes' decode_start)\<lparr> ds_stop_reason := reason \<rparr>"
    and reason: "if t = [] then reason = CleanEof else reason \<in> {TruncatedHeader, TruncatedPayload}"
    using append_cut [OF assms] by metis
  from reason have "if t = [] then reason = CleanEof else is_repairable_stop_reason reason"
    by (auto simp: is_repairable_stop_reason_def split: if_splits)
  from recover_stopped_tail [OF ck rec t(1,3) this] t(2) show ?thesis by simp
qed

theorem append_crash_atomic_witness:
  "\<exists>bs recovery'. sample_append = (bs, Inr 1) \<and>
     recover_claim_wal_file sample_env False ''wal'' (take 25 bs) True = ([], recovery') \<and>
     ensure_recovered_appendable recovery' = None"
proof -
  obtain bs where bs: "sample_append = (bs, Inr 1)" "length bs = 29" by (simp add: sample_append_eq)
  from append_crash_atomic [OF sample_env_ok(1) bs(1) [unfolded sample_append_def] sample_recover(1), of 25] bs(2)
  show ?thesis using bs(1) by auto
qed

text \<open>
  C19. Recovery with repair does not distinguish a torn tail from records of a newer format:
  a complete, checksummed record of an unknown type that is not marked skippable, and every
  record after it, are cut off the file, and appends proceed from there.
\<close>

theorem repair_drops_unknown_records:
  assumes ck: "ckpt_reasons_ok env"
    and rec: "recover_claim_wal_file env residue path bytes True = (bytes', recovery)"
    and ok: "ensure_recovered_appendable recovery = None"
    and seq: "u64_checked_add (last_observed_seq recovery) 1 = Some seq"
    and unknown: "from_record_type rtype = None" "rtype \<noteq> RECORD_TYPE_CHECKPOINT_REF"
    and fr: "frame_ok FLAG_PAYLOAD_JSON pl" "length bytes' + 28 + length pl < 2 ^ 64"
  shows "\<exists>recovery'. recover_claim_wal_file env residue path
      (bytes' @ encode_frame env FLAG_PAYLOAD_JSON seq rtype pl @ later_records) True = (bytes', recovery') \<and>
    ensure_recovered_appendable recovery' = None"
proof -
  let ?st = "decode_loop env bytes' decode_start"
  let ?t = "encode_frame env FLAG_PAYLOAD_JSON seq rtype pl @ later_records"
  note r = recovered_log [OF ck rec ok]
  have "FLAG_PAYLOAD_JSON AND FLAG_SKIPPABLE_UNKNOWN = 0" by (simp add: wal_consts)
  then have "decode_record_at env (bytes' @ ?t) (ds_offset ?st) (ds_expected_seq ?st) = Stop UnsupportedRecordType"
    using unknown decode_encode_frame [OF fr, of env seq rtype later_records]
    by (simp add: decode_record_at_def r recovered_expected [OF ck rec ok seq])
  moreover have ne: "?t \<noteq> []" using length_encode_frame [of env FLAG_PAYLOAD_JSON seq rtype pl] by fastforce
  then have "ds_offset ?st < length (bytes' @ ?t)" by (simp add: r)
  ultimately have "decode_loop env (bytes' @ ?t) ?st = ?st\<lparr> ds_stop_reason := UnsupportedRecordType \<rparr>"
    using decode_loop_turn [of ?st "bytes' @ ?t" env] by (simp add: advance_def)
  then show ?thesis
    using recover_stopped_tail [OF ck rec ok, of ?t UnsupportedRecordType] ne
    by (auto simp: is_repairable_stop_reason_def)
qed

theorem repair_drops_unknown_records_witness:
  "\<exists>recovery'. recover_claim_wal_file sample_env False ''wal''
      ([] @ encode_frame sample_env FLAG_PAYLOAD_JSON 1 9 [1] @ fst sample_append) True = ([], recovery')"
proof -
  have "ensure_recovered_appendable (decode_prefix sample_env ''wal'' []) = None"
    "u64_checked_add (last_observed_seq (decode_prefix sample_env ''wal'' [])) 1 = Some 1"
    by (simp_all add: sample_recover ensure_recovered_appendable_def u64_checked_add_def)
  moreover have "from_record_type 9 = None" "9 \<noteq> RECORD_TYPE_CHECKPOINT_REF" "frame_ok FLAG_PAYLOAD_JSON [1]"
    by (simp_all add: from_record_type_def wal_consts frame_ok_def)
  ultimately show ?thesis
    using repair_drops_unknown_records [OF sample_env_ok(1) sample_recover(1), of 1 9 "[1]" "fst sample_append"]
    by auto
qed

end
