(* ===== verification/Ordered_Map.thy ===== *)
theory Ordered_Map
  imports Forge_Prelude
begin

text \<open>
  \<open>std::collections::BTreeMap\<close> with string keys, as the event and log projections use it: a
  list of key/value pairs in strictly ascending key order.  Iteration (\<open>values\<close>, \<open>keys\<close>) is the
  order of the list.

  The locale \<open>map_interface\<close> is the contract the projections rely on; the ordered list is its
  interpretation.
\<close>

type_synonym 'v btree_map = "(string \<times> 'v) list"

fun bt_insert :: "string \<Rightarrow> 'v \<Rightarrow> 'v btree_map \<Rightarrow> 'v btree_map" where
  "bt_insert k v [] = [(k, v)]"
| "bt_insert k v ((k', v') # m) =
     (if k < k' then (k, v) # (k', v') # m
      else if k = k' then (k, v) # m
      else (k', v') # bt_insert k v m)"

definition bt_remove :: "string \<Rightarrow> 'v btree_map \<Rightarrow> 'v btree_map" where
  "bt_remove k m = filter (\<lambda>p. fst p \<noteq> k) m"

definition bt_get :: "'v btree_map \<Rightarrow> string \<Rightarrow> 'v option" where
  "bt_get m k = map_of m k"

definition bt_values :: "'v btree_map \<Rightarrow> 'v list" where
  "bt_values m = map snd m"

definition bt_sorted :: "'v btree_map \<Rightarrow> bool" where
  "bt_sorted m \<longleftrightarrow> sorted_wrt (<) (map fst m)"

section \<open>The laws of the map\<close>

lemma bt_get_Nil [simp]: "bt_get [] k = None"
  by (simp add: bt_get_def)

lemma bt_get_insert: "bt_get (bt_insert k v m) = (bt_get m)(k \<mapsto> v)"
  unfolding bt_get_def [abs_def] by (induction k v m rule: bt_insert.induct) auto

lemma bt_get_remove: "bt_get (bt_remove k m) = (bt_get m)(k := None)"
  unfolding bt_get_def [abs_def] bt_remove_def by (induction m) (auto simp: fun_eq_iff)

lemma set_keys_bt_insert: "fst ` set (bt_insert k v m) = insert k (fst ` set m)"
  by (induction k v m rule: bt_insert.induct) auto

lemma bt_sorted_Nil [simp]: "bt_sorted []"
  by (simp add: bt_sorted_def)

lemma bt_sorted_insert: "bt_sorted m \<Longrightarrow> bt_sorted (bt_insert k v m)"
proof (induction k v m rule: bt_insert.induct)
  case (2 k v k' v' m)
  have "fst p = k \<or> fst p \<in> fst ` set m" if "p \<in> set (bt_insert k v m)" for p
    using that set_keys_bt_insert [of k v m] by auto
  moreover have "\<not> k < k' \<Longrightarrow> k \<noteq> k' \<Longrightarrow> k' < k" by simp
  ultimately show ?case using 2 by (fastforce simp: bt_sorted_def)
qed (simp add: bt_sorted_def)

lemma bt_sorted_remove: "bt_sorted m \<Longrightarrow> bt_sorted (bt_remove k m)"
  by (induction m) (auto simp: bt_sorted_def bt_remove_def)

lemma bt_sorted_distinct: "bt_sorted m \<Longrightarrow> distinct (map fst m)"
  unfolding bt_sorted_def by (metis strict_sorted_iff)

lemma bt_rebuild: "bt_sorted m \<Longrightarrow> map (\<lambda>k. (k, the (bt_get m k))) (map fst m) = m"
  using bt_sorted_distinct [of m] by (auto simp: bt_get_def intro!: map_idI)

lemma bt_keys: "set (map fst m) = dom (bt_get m)"
  by (simp add: bt_get_def [abs_def] dom_map_of_conv_image_fst)

lemma bt_ext:
  assumes "bt_sorted m" "bt_sorted m'" "bt_get m = bt_get m'" shows "m = m'"
proof -
  have "set (map fst m) = set (map fst m')" unfolding bt_keys assms(3) ..
  then have "map fst m = map fst m'"
    using assms(1,2) unfolding bt_sorted_def by (auto intro: strict_sorted_equal)
  then show ?thesis using bt_rebuild [OF assms(1)] bt_rebuild [OF assms(2)] assms(3) by simp
qed

lemma in_bt_values:
  assumes "bt_sorted m" shows "v \<in> set (bt_values m) \<longleftrightarrow> (\<exists>k. bt_get m k = Some v)"
  using bt_sorted_distinct [OF assms] by (force simp: bt_values_def bt_get_def)

definition bt_map :: "('v \<Rightarrow> 'w) \<Rightarrow> 'v btree_map \<Rightarrow> 'w btree_map" where
  "bt_map f m = map (\<lambda>(k, v). (k, f v)) m"

lemma bt_get_map: "bt_get (bt_map f m) k = map_option f (bt_get m k)"
  by (simp add: bt_get_def bt_map_def map_of_map)

lemma bt_sorted_map [simp]: "bt_sorted (bt_map f m) \<longleftrightarrow> bt_sorted m"
  by (simp add: bt_sorted_def bt_map_def case_prod_beta comp_def)

lemma bt_values_map: "bt_values (bt_map f m) = map f (bt_values m)"
  by (simp add: bt_values_def bt_map_def case_prod_beta)

text \<open>Looking a key up among the values, when a value determines its key.\<close>

lemma find_SomeD: "find P xs = Some x \<Longrightarrow> x \<in> set xs \<and> P x"
  by (induction xs) (auto split: if_splits)

lemma find_unique:
  assumes "x \<in> set xs" "P x" and uniq: "\<And>y. y \<in> set xs \<Longrightarrow> P y \<Longrightarrow> y = x"
  shows "find P xs = Some x"
proof (cases "find P xs")
  case None
  with assms(1,2) show ?thesis by (auto simp: find_None_iff)
next
  case (Some y)
  then have "y \<in> set xs" "P y" by (auto simp: find_Some_iff)
  with uniq Some show ?thesis by blast
qed

lemma find_bt_values:
  assumes "bt_sorted m" and key: "\<And>k v. bt_get m k = Some v \<Longrightarrow> key v = k"
  shows "find (\<lambda>v. key v = k) (rev (bt_values m)) = bt_get m k"
proof (cases "bt_get m k")
  case None
  then have "\<forall>v\<in>set (bt_values m). key v \<noteq> k" using key by (auto simp: in_bt_values [OF assms(1)])
  with None show ?thesis by (simp add: find_None_iff)
next
  case (Some v)
  have "find (\<lambda>v. key v = k) (rev (bt_values m)) = Some v"
  proof (rule find_unique)
    show "v \<in> set (rev (bt_values m))" using Some by (auto simp: in_bt_values [OF assms(1)])
    show "key v = k" using Some by (rule key)
    show "w = v" if "w \<in> set (rev (bt_values m))" "key w = k" for w
      using that key Some by (fastforce simp: in_bt_values [OF assms(1)])
  qed
  with Some show ?thesis by simp
qed

section \<open>Ordered sets\<close>

text \<open>A \<open>BTreeSet<String>\<close> is a sorted list without duplicates.\<close>

definition bs_insert :: "string \<Rightarrow> string list \<Rightarrow> string list" where
  "bs_insert x xs = (if x \<in> set xs then xs else insort x xs)"

definition bs_of :: "string list \<Rightarrow> string list" where
  "bs_of xs = fold bs_insert xs []"

lemma length_bs_insert: "length (bs_insert x xs) \<le> Suc (length xs)"
  by (simp add: bs_insert_def)

lemma set_bs_insert [simp]: "set (bs_insert x xs) = insert x (set xs)"
  by (auto simp: bs_insert_def set_insort_key)

lemma sorted_bs_insert [simp]: "sorted xs \<Longrightarrow> sorted (bs_insert x xs)"
  by (simp add: bs_insert_def sorted_insort)

lemma distinct_bs_insert [simp]: "distinct xs \<Longrightarrow> distinct (bs_insert x xs)"
  by (simp add: bs_insert_def distinct_insort)

lemma bs_of_fold:
  "sorted acc \<Longrightarrow> distinct acc \<Longrightarrow>
     sorted (fold bs_insert xs acc) \<and> distinct (fold bs_insert xs acc) \<and> set (fold bs_insert xs acc) = set acc \<union> set xs"
  by (induction xs arbitrary: acc) auto

lemma bs_of_set [simp]: "set (bs_of xs) = set xs" "sorted (bs_of xs)" "distinct (bs_of xs)"
  using bs_of_fold [of "[]" xs] by (simp_all add: bs_of_def)

section \<open>The contract and its clients\<close>

locale map_interface =
  fixes empty :: 'm and get :: "'m \<Rightarrow> string \<Rightarrow> 'v option" and ins :: "string \<Rightarrow> 'v \<Rightarrow> 'm \<Rightarrow> 'm"
    and del :: "string \<Rightarrow> 'm \<Rightarrow> 'm" and inv :: "'m \<Rightarrow> bool"
  assumes get_empty: "get empty k = None"
    and get_ins: "get (ins k v m) = (get m)(k \<mapsto> v)"
    and get_del: "get (del k m) = (get m)(k := None)"
    and inv_empty: "inv empty"
    and inv_ins: "inv m \<Longrightarrow> inv (ins k v m)"
    and inv_del: "inv m \<Longrightarrow> inv (del k m)"
    and extensional: "inv m \<Longrightarrow> inv m' \<Longrightarrow> get m = get m' \<Longrightarrow> m = m'"
begin

lemma ins_overwrites: "inv m \<Longrightarrow> ins k v (ins k w m) = ins k v m"
  by (rule extensional) (simp_all add: inv_ins get_ins)

lemma ins_commute: "inv m \<Longrightarrow> k \<noteq> l \<Longrightarrow> ins k v (ins l w m) = ins l w (ins k v m)"
  by (rule extensional) (simp_all add: inv_ins get_ins fun_upd_twist)

lemma del_absent: "inv m \<Longrightarrow> get m k = None \<Longrightarrow> del k m = m"
  by (rule extensional) (auto simp: inv_del get_del)

lemma del_ins: "inv m \<Longrightarrow> del k (ins k v m) = del k m"
  by (rule extensional) (simp_all add: inv_del inv_ins get_del get_ins)

text \<open>Inserting a list of entries: the last one with a key wins, other keys are kept.\<close>

lemma get_fold_ins:
  "get (fold (\<lambda>x. ins (key x) (f x)) xs m) k =
     (case find (\<lambda>x. key x = k) (rev xs) of Some x \<Rightarrow> Some (f x) | None \<Rightarrow> get m k)"
proof (induction xs arbitrary: m rule: rev_induct)
  case (snoc x xs)
  then show ?case by (simp add: get_ins)
qed simp

lemma inv_fold_ins: "inv m \<Longrightarrow> inv (fold (\<lambda>x. ins (key x) (f x)) xs m)"
  by (induction xs arbitrary: m) (simp_all add: inv_ins)

end

interpretation bt: map_interface "[]" bt_get bt_insert bt_remove bt_sorted
  by unfold_locales (simp_all add: bt_get_insert bt_get_remove bt_sorted_insert bt_sorted_remove bt_ext)

end
