(* ===== verification/Claim_Wal_Projection.thy ===== *)
theory Claim_Wal_Projection
  imports Claim_Wal_Codec Ordered_Map
begin

text \<open>
  Replay of the claim log into the materialised claim state: \<open>ProjectionAccumulator\<close> and
  \<open>project_claim_wal_recovery\<close> of \<open>src/crates/forge-core-store/src/claim_wal.rs\<close>, and the snapshot
  a checkpoint keeps of it.

  The lemmas show that the three status views partition the latest claims, and that replaying
  a log from a checkpoint snapshot gives the same claims as replaying it from the start.
\<close>

section \<open>The code\<close>

record ProjectedClaim =
  pc_claim_contract :: ClaimContract
  pc_last_seq :: u64
  pc_last_operation :: ClaimWalOperation
  pc_recorded_at :: string
  pc_wal_offset :: nat

datatype DiagnosticSeverity = SevWarning | SevError

datatype ProjectionDiagnosticCode =
  HeartbeatWithoutActiveClaim | HeartbeatAgentMismatch | ReleaseWithoutActiveClaim
| ReleaseAgentMismatch | HandoffWithoutActiveClaim | HandoffAgentMismatch
| ReconcileWithoutOpenClaim | ReconcileAgentMismatch | ReacquireByDifferentAgent
| OperationStatusMismatch

record ProjectionDiagnostic =
  pd_severity :: DiagnosticSeverity
  pd_code :: ProjectionDiagnosticCode
  pd_seq :: u64
  pd_claim_id :: string
  pd_message :: string

record ProjectionAccumulator =
  latest_by_claim_id :: "ProjectedClaim btree_map"
  active_by_claim_id :: "ProjectedClaim btree_map"
  released_by_claim_id :: "ProjectedClaim btree_map"
  handoff_recorded_by_claim_id :: "ProjectedClaim btree_map"
  pa_diagnostics :: "ProjectionDiagnostic list"
  last_applied_seq :: u64
  applied_records :: nat

definition accumulator_default :: ProjectionAccumulator where
  "accumulator_default =
     \<lparr> latest_by_claim_id = [], active_by_claim_id = [], released_by_claim_id = [],
       handoff_recorded_by_claim_id = [], pa_diagnostics = [], last_applied_seq = 0, applied_records = 0 \<rparr>"

definition record_claim :: "ClaimWalRecord \<Rightarrow> ClaimContract" where
  "record_claim rec = wp_claim_contract (wr_payload rec)"

definition projected_claim :: "ClaimWalRecord \<Rightarrow> ProjectedClaim" where
  "projected_claim rec =
     \<lparr> pc_claim_contract = record_claim rec,
       pc_last_seq = wr_seq rec,
       pc_last_operation = wr_operation rec,
       pc_recorded_at = wp_recorded_at (wr_payload rec),
       pc_wal_offset = wr_offset rec \<rparr>"

definition projection_warning :: "ProjectionDiagnosticCode \<Rightarrow> ClaimWalRecord \<Rightarrow> string \<Rightarrow> ProjectionDiagnostic" where
  "projection_warning code rec message =
     \<lparr> pd_severity = SevWarning, pd_code = code, pd_seq = wr_seq rec,
       pd_claim_id = cc_id (record_claim rec), pd_message = message \<rparr>"

definition status_matches :: "ClaimWalRecord \<Rightarrow> bool" where
  "status_matches rec =
     (let status = csr_value (cc_status (record_claim rec)) in
      case wr_operation rec of
        WopAcquire \<Rightarrow> status = Active
      | WopHeartbeat \<Rightarrow> status = Active
      | WopRelease \<Rightarrow> status = Released
      | WopHandoffRecorded \<Rightarrow> status = HandoffRecorded
      | WopReconcileStatus \<Rightarrow> status \<in> {Stale, Expired, HandoffRequired})"

definition push_status_mismatch_diagnostic ::
    "ClaimWalRecord \<Rightarrow> ProjectionDiagnostic list \<Rightarrow> ProjectionDiagnostic list" where
  "push_status_mismatch_diagnostic rec diagnostics =
     (if \<not> status_matches rec then
        diagnostics @ [projection_warning OperationStatusMismatch rec
          ''claim WAL operation does not match embedded claim status'']
      else diagnostics)"

datatype MissingOp = MissHeartbeat | MissRelease | MissReconcile

definition missing_diag_code :: "MissingOp \<Rightarrow> ProjectionDiagnosticCode" where
  "missing_diag_code m =
     (case m of MissHeartbeat \<Rightarrow> HeartbeatWithoutActiveClaim | MissRelease \<Rightarrow> ReleaseWithoutActiveClaim
      | MissReconcile \<Rightarrow> ReconcileWithoutOpenClaim)"

definition mismatch_diag_code :: "MissingOp \<Rightarrow> ProjectionDiagnosticCode" where
  "mismatch_diag_code m =
     (case m of MissHeartbeat \<Rightarrow> HeartbeatAgentMismatch | MissRelease \<Rightarrow> ReleaseAgentMismatch
      | MissReconcile \<Rightarrow> ReconcileAgentMismatch)"

definition missing_message :: "MissingOp \<Rightarrow> string" where
  "missing_message m =
     (case m of MissHeartbeat \<Rightarrow> ''heartbeat has no matching active claim''
      | MissRelease \<Rightarrow> ''release has no matching active claim''
      | MissReconcile \<Rightarrow> ''reconcile status record has no matching active claim'')"

text \<open>The two guards return the diagnostic they push when they refuse a record.\<close>

definition matching_active_claim ::
    "ClaimWalRecord \<Rightarrow> ProjectedClaim btree_map \<Rightarrow> MissingOp \<Rightarrow> ProjectionDiagnostic option" where
  "matching_active_claim rec active m =
     (case bt_get active (cc_id (record_claim rec)) of
        None \<Rightarrow> Some (projection_warning (missing_diag_code m) rec (missing_message m))
      | Some act \<Rightarrow>
          if claimant_agent_id (cc_claim (pc_claim_contract act))
             \<noteq> claimant_agent_id (cc_claim (record_claim rec)) then
            Some (projection_warning (mismatch_diag_code m) rec
              ''claim lifecycle record agent does not match active claim agent'')
          else None)"

definition matching_open_claim_for_handoff ::
    "ClaimWalRecord \<Rightarrow> ProjectedClaim btree_map \<Rightarrow> ProjectionDiagnostic option" where
  "matching_open_claim_for_handoff rec latest =
     (case bt_get latest (cc_id (record_claim rec)) of
        None \<Rightarrow> Some (projection_warning HandoffWithoutActiveClaim rec ''handoff has no matching open claim'')
      | Some lat \<Rightarrow>
          if csr_value (cc_status (pc_claim_contract lat)) \<notin> {Active, Stale, HandoffRequired} then
            Some (projection_warning HandoffWithoutActiveClaim rec
              ''handoff target is not open or handoff-required'')
          else if claimant_agent_id (cc_claim (pc_claim_contract lat))
             \<noteq> claimant_agent_id (cc_claim (record_claim rec)) then
            Some (projection_warning HandoffAgentMismatch rec
              ''handoff lifecycle record agent does not match open claim agent'')
          else None)"

definition record_applied :: "ClaimWalRecord \<Rightarrow> ProjectionAccumulator \<Rightarrow> ProjectionAccumulator" where
  "record_applied rec acc =
     acc\<lparr> last_applied_seq := wr_seq rec, applied_records := Suc (applied_records acc) \<rparr>"

definition push_diag :: "ProjectionDiagnostic \<Rightarrow> ProjectionAccumulator \<Rightarrow> ProjectionAccumulator" where
  "push_diag d acc = acc\<lparr> pa_diagnostics := pa_diagnostics acc @ [d] \<rparr>"

definition apply_acquire :: "ClaimWalRecord \<Rightarrow> ProjectionAccumulator \<Rightarrow> ProjectionAccumulator" where
  "apply_acquire rec acc =
     (let claim_id = cc_id (record_claim rec);
          projected = projected_claim rec;
          acc' =
            (case bt_get (active_by_claim_id acc) claim_id of
               Some act \<Rightarrow>
                 if claimant_agent_id (cc_claim (pc_claim_contract act))
                    \<noteq> claimant_agent_id (cc_claim (pc_claim_contract projected)) then
                   push_diag (projection_warning ReacquireByDifferentAgent rec
                     ''acquire replaced an active claim held by another agent'') acc
                 else acc
             | None \<Rightarrow> acc)
      in record_applied rec (acc'
           \<lparr> latest_by_claim_id := bt_insert claim_id projected (latest_by_claim_id acc'),
             active_by_claim_id := bt_insert claim_id projected (active_by_claim_id acc'),
             released_by_claim_id := bt_remove claim_id (released_by_claim_id acc'),
             handoff_recorded_by_claim_id := bt_remove claim_id (handoff_recorded_by_claim_id acc') \<rparr>))"

definition apply_heartbeat :: "ClaimWalRecord \<Rightarrow> ProjectionAccumulator \<Rightarrow> ProjectionAccumulator" where
  "apply_heartbeat rec acc =
     (let claim_id = cc_id (record_claim rec); projected = projected_claim rec in
      case matching_active_claim rec (active_by_claim_id acc) MissHeartbeat of
        Some d \<Rightarrow> push_diag d acc
      | None \<Rightarrow> record_applied rec (acc
          \<lparr> latest_by_claim_id := bt_insert claim_id projected (latest_by_claim_id acc),
            active_by_claim_id := bt_insert claim_id projected (active_by_claim_id acc) \<rparr>))"

definition apply_release :: "ClaimWalRecord \<Rightarrow> ProjectionAccumulator \<Rightarrow> ProjectionAccumulator" where
  "apply_release rec acc =
     (let claim_id = cc_id (record_claim rec); projected = projected_claim rec in
      case matching_active_claim rec (active_by_claim_id acc) MissRelease of
        Some d \<Rightarrow> push_diag d acc
      | None \<Rightarrow> record_applied rec (acc
          \<lparr> active_by_claim_id := bt_remove claim_id (active_by_claim_id acc),
            latest_by_claim_id := bt_insert claim_id projected (latest_by_claim_id acc),
            released_by_claim_id := bt_insert claim_id projected (released_by_claim_id acc),
            handoff_recorded_by_claim_id := bt_remove claim_id (handoff_recorded_by_claim_id acc) \<rparr>))"

definition apply_handoff_recorded :: "ClaimWalRecord \<Rightarrow> ProjectionAccumulator \<Rightarrow> ProjectionAccumulator" where
  "apply_handoff_recorded rec acc =
     (let claim_id = cc_id (record_claim rec); projected = projected_claim rec in
      case matching_open_claim_for_handoff rec (latest_by_claim_id acc) of
        Some d \<Rightarrow> push_diag d acc
      | None \<Rightarrow> record_applied rec (acc
          \<lparr> active_by_claim_id := bt_remove claim_id (active_by_claim_id acc),
            latest_by_claim_id := bt_insert claim_id projected (latest_by_claim_id acc),
            handoff_recorded_by_claim_id := bt_insert claim_id projected (handoff_recorded_by_claim_id acc),
            released_by_claim_id := bt_remove claim_id (released_by_claim_id acc) \<rparr>))"

definition apply_reconcile_status :: "ClaimWalRecord \<Rightarrow> ProjectionAccumulator \<Rightarrow> ProjectionAccumulator" where
  "apply_reconcile_status rec acc =
     (let claim_id = cc_id (record_claim rec); projected = projected_claim rec in
      case matching_active_claim rec (active_by_claim_id acc) MissReconcile of
        Some d \<Rightarrow> push_diag d acc
      | None \<Rightarrow> record_applied rec (acc
          \<lparr> active_by_claim_id :=
              (if csr_value (cc_status (pc_claim_contract projected)) \<in> {Active, Stale}
               then bt_insert claim_id projected (active_by_claim_id acc)
               else bt_remove claim_id (active_by_claim_id acc)),
            latest_by_claim_id := bt_insert claim_id projected (latest_by_claim_id acc),
            released_by_claim_id := bt_remove claim_id (released_by_claim_id acc),
            handoff_recorded_by_claim_id := bt_remove claim_id (handoff_recorded_by_claim_id acc) \<rparr>))"

definition apply_record :: "ClaimWalRecord \<Rightarrow> ProjectionAccumulator \<Rightarrow> ProjectionAccumulator" where
  "apply_record rec acc0 =
     (let acc = acc0\<lparr> pa_diagnostics := push_status_mismatch_diagnostic rec (pa_diagnostics acc0) \<rparr> in
      case wr_operation rec of
        WopAcquire \<Rightarrow> apply_acquire rec acc
      | WopHeartbeat \<Rightarrow> apply_heartbeat rec acc
      | WopRelease \<Rightarrow> apply_release rec acc
      | WopHandoffRecorded \<Rightarrow> apply_handoff_recorded rec acc
      | WopReconcileStatus \<Rightarrow> apply_reconcile_status rec acc)"

definition seed_claim :: "ClaimWalSnapshotClaim \<Rightarrow> ProjectionAccumulator \<Rightarrow> ProjectionAccumulator" where
  "seed_claim snapshot_claim acc =
     (let claim_id = cc_id (sc_claim_contract snapshot_claim);
          projected =
            \<lparr> pc_claim_contract = sc_claim_contract snapshot_claim,
              pc_last_seq = sc_last_seq snapshot_claim,
              pc_last_operation = sc_last_operation snapshot_claim,
              pc_recorded_at = sc_recorded_at snapshot_claim,
              pc_wal_offset = 0 \<rparr>;
          status = csr_value (cc_status (sc_claim_contract snapshot_claim))
      in acc
        \<lparr> latest_by_claim_id := bt_insert claim_id projected (latest_by_claim_id acc),
          active_by_claim_id :=
            (if status \<in> {Active, Stale} then bt_insert claim_id projected (active_by_claim_id acc)
             else bt_remove claim_id (active_by_claim_id acc)),
          released_by_claim_id :=
            (if status = Released then bt_insert claim_id projected (released_by_claim_id acc)
             else bt_remove claim_id (released_by_claim_id acc)),
          handoff_recorded_by_claim_id :=
            (if status = HandoffRecorded then bt_insert claim_id projected (handoff_recorded_by_claim_id acc)
             else bt_remove claim_id (handoff_recorded_by_claim_id acc)) \<rparr>)"

definition seed_snapshot :: "ClaimWalSnapshotPayload \<Rightarrow> ProjectionAccumulator \<Rightarrow> ProjectionAccumulator" where
  "seed_snapshot snapshot acc =
     fold seed_claim (latest_claims snapshot) (acc\<lparr> last_applied_seq := sp_last_seq snapshot \<rparr>)"

section \<open>The projection and its indexes\<close>

type_synonym ClaimIdIndex = "string list btree_map"

definition push_index :: "string \<Rightarrow> string \<Rightarrow> ClaimIdIndex \<Rightarrow> ClaimIdIndex" where
  "push_index key claim_id index =
     bt_insert key ((case bt_get index key of Some vs \<Rightarrow> vs | None \<Rightarrow> []) @ [claim_id]) index"

definition sort_index_values :: "ClaimIdIndex \<Rightarrow> ClaimIdIndex" where
  "sort_index_values index = map (\<lambda>(key, vs). (key, remdups_adj (sort vs))) index"

definition build_active_indexes ::
    "ProjectedClaim btree_map \<Rightarrow> ClaimIdIndex \<times> ClaimIdIndex \<times> ClaimIdIndex" where
  "build_active_indexes active =
     (let step = (\<lambda>(claim_id, projected) (by_agent, by_scope, by_path).
            (push_index (claimant_agent_id (cc_claim (pc_claim_contract projected))) claim_id by_agent,
             push_index (cs_id (cc_scope (pc_claim_contract projected))) claim_id by_scope,
             fold (\<lambda>path. push_index path claim_id) (cs_paths (cc_scope (pc_claim_contract projected))) by_path));
          (by_agent, by_scope, by_path) = fold step active ([], [], [])
      in (sort_index_values by_agent, sort_index_values by_scope, sort_index_values by_path))"

record ClaimWalProjection =
  pj_recovery :: ClaimWalRecovery
  pj_last_applied_seq :: u64
  pj_applied_records :: nat
  pj_claims :: "ClaimContract list"
  pj_latest :: "ProjectedClaim btree_map"
  pj_active :: "ProjectedClaim btree_map"
  pj_released :: "ProjectedClaim btree_map"
  pj_handoff_recorded :: "ProjectedClaim btree_map"
  active_claim_ids_by_agent :: ClaimIdIndex
  active_claim_ids_by_scope :: ClaimIdIndex
  active_claim_ids_by_path :: ClaimIdIndex
  pj_diagnostics :: "ProjectionDiagnostic list"

definition project_claim_wal_recovery :: "ClaimWalRecovery \<Rightarrow> ClaimWalProjection" where
  "project_claim_wal_recovery recovery =
     (let seeded = (case rv_checkpoint recovery of
             Some checkpoint \<Rightarrow> seed_snapshot (ck_snapshot checkpoint) accumulator_default
           | None \<Rightarrow> accumulator_default);
          acc = fold apply_record (rv_records recovery) seeded;
          (by_agent, by_scope, by_path) = build_active_indexes (active_by_claim_id acc)
      in \<lparr> pj_recovery = recovery,
           pj_last_applied_seq = last_applied_seq acc,
           pj_applied_records = applied_records acc,
           pj_claims = map pc_claim_contract (bt_values (latest_by_claim_id acc)),
           pj_latest = latest_by_claim_id acc,
           pj_active = active_by_claim_id acc,
           pj_released = released_by_claim_id acc,
           pj_handoff_recorded = handoff_recorded_by_claim_id acc,
           active_claim_ids_by_agent = by_agent,
           active_claim_ids_by_scope = by_scope,
           active_claim_ids_by_path = by_path,
           pj_diagnostics = pa_diagnostics acc \<rparr>)"

definition snapshot_claims_from_projection :: "ProjectedClaim btree_map \<Rightarrow> ClaimWalSnapshotClaim list" where
  "snapshot_claims_from_projection latest =
     map (\<lambda>projected.
        \<lparr> sc_claim_contract = pc_claim_contract projected,
          sc_last_seq = pc_last_seq projected,
          sc_last_operation = pc_last_operation projected,
          sc_recorded_at = pc_recorded_at projected \<rparr>) (bt_values latest)"

section \<open>The status views partition the latest claims\<close>

definition pc_status :: "ProjectedClaim \<Rightarrow> ClaimStatus" where
  "pc_status p = csr_value (cc_status (pc_claim_contract p))"

definition view :: "ClaimStatus set \<Rightarrow> (string \<rightharpoonup> ProjectedClaim) \<Rightarrow> (string \<rightharpoonup> ProjectedClaim)" where
  "view S m k = (case m k of Some p \<Rightarrow> if pc_status p \<in> S then Some p else None | None \<Rightarrow> None)"

lemma view_upd: "view S (m(k \<mapsto> p)) = (view S m)(k := if pc_status p \<in> S then Some p else None)"
  by (auto simp: view_def fun_eq_iff)

lemma view_empty [simp]: "view S (\<lambda>_. None) = (\<lambda>_. None)"
  by (simp add: view_def fun_eq_iff)

definition proj_inv :: "ProjectionAccumulator \<Rightarrow> bool" where
  "proj_inv acc \<longleftrightarrow>
     bt_sorted (latest_by_claim_id acc) \<and> bt_sorted (active_by_claim_id acc) \<and>
     bt_sorted (released_by_claim_id acc) \<and> bt_sorted (handoff_recorded_by_claim_id acc) \<and>
     (\<forall>k p. bt_get (latest_by_claim_id acc) k = Some p \<longrightarrow> cc_id (pc_claim_contract p) = k) \<and>
     bt_get (active_by_claim_id acc) = view {Active, Stale} (bt_get (latest_by_claim_id acc)) \<and>
     bt_get (released_by_claim_id acc) = view {Released} (bt_get (latest_by_claim_id acc)) \<and>
     bt_get (handoff_recorded_by_claim_id acc) = view {HandoffRecorded} (bt_get (latest_by_claim_id acc))"

lemma proj_inv_default: "proj_inv accumulator_default"
  by (simp add: proj_inv_def accumulator_default_def fun_eq_iff view_def)

lemma proj_inv_diag [simp]: "proj_inv (acc\<lparr> pa_diagnostics := ds \<rparr>) = proj_inv acc" "proj_inv (push_diag d acc) = proj_inv acc"
  by (simp_all add: proj_inv_def push_diag_def)

lemma proj_inv_seq [simp]: "proj_inv (acc\<lparr> last_applied_seq := q \<rparr>) = proj_inv acc"
  by (simp add: proj_inv_def)

lemma projected_claim_fields [simp]:
  "pc_claim_contract (projected_claim rec) = record_claim rec"
  "pc_status (projected_claim rec) = csr_value (cc_status (record_claim rec))"
  by (simp_all add: projected_claim_def pc_status_def)

lemma view_upd_same: "view S m k = None \<Longrightarrow> pc_status p \<notin> S \<Longrightarrow> view S (m(k \<mapsto> p)) = view S m"
  by (auto simp: view_upd)

lemma view_active_disjoint:
  "view {Active, Stale} m k = Some p \<Longrightarrow> view {Released} m k = None \<and> view {HandoffRecorded} m k = None"
  by (auto simp: view_def split: option.splits if_splits)

lemmas bt_laws = bt_get_insert bt_get_remove bt_sorted_insert bt_sorted_remove

text \<open>The record's claim becomes the latest one, and the views follow its status.\<close>

definition installs :: "ClaimWalRecord \<Rightarrow> ProjectionAccumulator \<Rightarrow> ProjectionAccumulator \<Rightarrow> bool" where
  "installs rec acc acc' \<longleftrightarrow>
     latest_by_claim_id acc' =
       bt_insert (cc_id (record_claim rec)) (projected_claim rec) (latest_by_claim_id acc) \<and>
     last_applied_seq acc' = wr_seq rec \<and> proj_inv acc'"

text \<open>The views after an update: each one gets the new claim or loses its key.\<close>

definition view_step :: "ClaimStatus set \<Rightarrow> string \<Rightarrow> ProjectedClaim \<Rightarrow> ProjectedClaim btree_map \<Rightarrow>
    ProjectedClaim btree_map \<Rightarrow> bool" where
  "view_step S k p m m' \<longleftrightarrow>
     (if pc_status p \<in> S then m' = bt_insert k p m
      else m' = bt_remove k m \<or> m' = m \<and> bt_get m k = None)"

lemma view_step_get:
  "view_step S k p m m' \<Longrightarrow> bt_get m = view S l \<Longrightarrow> bt_get m' = view S (l(k \<mapsto> p))"
  by (auto simp: view_step_def view_upd bt_get_insert bt_get_remove split: if_splits)

lemma view_step_sorted: "view_step S k p m m' \<Longrightarrow> bt_sorted m \<Longrightarrow> bt_sorted m'"
  by (auto simp: view_step_def bt_sorted_insert bt_sorted_remove split: if_splits)

lemma installsI:
  assumes inv: "proj_inv acc"
    and latest: "latest_by_claim_id acc' =
      bt_insert (cc_id (record_claim rec)) (projected_claim rec) (latest_by_claim_id acc)"
    and seq: "last_applied_seq acc' = wr_seq rec"
    and views: "view_step {Active, Stale} (cc_id (record_claim rec)) (projected_claim rec)
        (active_by_claim_id acc) (active_by_claim_id acc')"
      "view_step {Released} (cc_id (record_claim rec)) (projected_claim rec)
        (released_by_claim_id acc) (released_by_claim_id acc')"
      "view_step {HandoffRecorded} (cc_id (record_claim rec)) (projected_claim rec)
        (handoff_recorded_by_claim_id acc) (handoff_recorded_by_claim_id acc')"
  shows "installs rec acc acc'"
proof -
  have sorted: "bt_sorted (latest_by_claim_id acc)" "bt_sorted (active_by_claim_id acc)"
      "bt_sorted (released_by_claim_id acc)" "bt_sorted (handoff_recorded_by_claim_id acc)"
    and keys: "\<forall>k p. bt_get (latest_by_claim_id acc) k = Some p \<longrightarrow> cc_id (pc_claim_contract p) = k"
    and get: "bt_get (active_by_claim_id acc) = view {Active, Stale} (bt_get (latest_by_claim_id acc))"
      "bt_get (released_by_claim_id acc) = view {Released} (bt_get (latest_by_claim_id acc))"
      "bt_get (handoff_recorded_by_claim_id acc) = view {HandoffRecorded} (bt_get (latest_by_claim_id acc))"
    using inv unfolding proj_inv_def by blast+
  have get': "bt_get (latest_by_claim_id acc') =
      (bt_get (latest_by_claim_id acc))(cc_id (record_claim rec) \<mapsto> projected_claim rec)"
    unfolding latest by (rule bt_get_insert)
  have "\<forall>k p. bt_get (latest_by_claim_id acc') k = Some p \<longrightarrow> cc_id (pc_claim_contract p) = k"
    unfolding get' using keys by (auto split: if_splits)
  then show ?thesis
    unfolding installs_def proj_inv_def get' using latest seq bt_sorted_insert [OF sorted(1)]
      view_step_sorted [OF views(1) sorted(2)] view_step_sorted [OF views(2) sorted(3)]
      view_step_sorted [OF views(3) sorted(4)] view_step_get [OF views(1) get(1)]
      view_step_get [OF views(2) get(2)] view_step_get [OF views(3) get(3)] by simp
qed

lemma apply_acquire_installs:
  assumes "proj_inv acc" "csr_value (cc_status (record_claim rec)) = Active"
  shows "installs rec acc (apply_acquire rec acc)"
  using assms(1)
  by (rule installsI)
    (simp_all add: apply_acquire_def Let_def push_diag_def record_applied_def view_step_def assms(2)
      split: option.splits)

lemma apply_heartbeat_installs:
  assumes inv: "proj_inv acc" and act: "csr_value (cc_status (record_claim rec)) = Active"
    and m: "matching_active_claim rec (active_by_claim_id acc) MissHeartbeat = None"
  shows "installs rec acc (apply_heartbeat rec acc)"
proof -
  obtain p where "bt_get (active_by_claim_id acc) (cc_id (record_claim rec)) = Some p"
    using m by (auto simp: matching_active_claim_def split: option.splits)
  with inv have "bt_get (released_by_claim_id acc) (cc_id (record_claim rec)) = None"
    "bt_get (handoff_recorded_by_claim_id acc) (cc_id (record_claim rec)) = None"
    unfolding proj_inv_def by (metis view_active_disjoint)+
  with inv show ?thesis
    by (intro installsI) (simp_all add: apply_heartbeat_def Let_def m record_applied_def view_step_def act)
qed

lemma apply_release_installs:
  assumes "proj_inv acc" "csr_value (cc_status (record_claim rec)) = Released"
    and "matching_active_claim rec (active_by_claim_id acc) MissRelease = None"
  shows "installs rec acc (apply_release rec acc)"
  using assms(1)
  by (rule installsI)
    (simp_all add: apply_release_def Let_def record_applied_def view_step_def assms(2,3))

lemma apply_handoff_recorded_installs:
  assumes "proj_inv acc" "csr_value (cc_status (record_claim rec)) = HandoffRecorded"
    and "matching_open_claim_for_handoff rec (latest_by_claim_id acc) = None"
  shows "installs rec acc (apply_handoff_recorded rec acc)"
  using assms(1)
  by (rule installsI)
    (simp_all add: apply_handoff_recorded_def Let_def record_applied_def view_step_def assms(2,3))

lemma apply_reconcile_status_installs:
  assumes "proj_inv acc" and st: "csr_value (cc_status (record_claim rec)) \<in> {Stale, Expired, HandoffRequired}"
    and "matching_active_claim rec (active_by_claim_id acc) MissReconcile = None"
  shows "installs rec acc (apply_reconcile_status rec acc)"
  using assms(1)
  by (rule installsI)
    (use st in \<open>auto simp: apply_reconcile_status_def Let_def record_applied_def view_step_def assms(3)\<close>)

section \<open>One record\<close>

text \<open>Whether the guards of \<open>apply_record\<close> let a record through, from the latest claims alone.\<close>

definition admits :: "ProjectionAccumulator \<Rightarrow> ClaimWalRecord \<Rightarrow> bool" where
  "admits acc rec =
     (case bt_get (latest_by_claim_id acc) (cc_id (record_claim rec)) of
        None \<Rightarrow> wr_operation rec = WopAcquire
      | Some p \<Rightarrow>
          wr_operation rec = WopAcquire \<or>
          claimant_agent_id (cc_claim (pc_claim_contract p)) = claimant_agent_id (cc_claim (record_claim rec)) \<and>
          pc_status p \<in> (if wr_operation rec = WopHandoffRecorded then {Active, Stale, HandoffRequired}
                           else {Active, Stale}))"

lemma matching_active_claim_admits:
  assumes "proj_inv acc" "wr_operation rec \<notin> {WopAcquire, WopHandoffRecorded}"
  shows "matching_active_claim rec (active_by_claim_id acc) m = None \<longleftrightarrow> admits acc rec"
proof -
  have "bt_get (active_by_claim_id acc) = view {Active, Stale} (bt_get (latest_by_claim_id acc))"
    using assms(1) by (simp add: proj_inv_def)
  with assms(2) show ?thesis
    by (auto simp: matching_active_claim_def admits_def view_def split: option.splits if_splits)
qed

lemma matching_handoff_admits:
  assumes "wr_operation rec = WopHandoffRecorded"
  shows "matching_open_claim_for_handoff rec (latest_by_claim_id acc) = None \<longleftrightarrow> admits acc rec"
  using assms
  by (auto simp: matching_open_claim_for_handoff_def admits_def pc_status_def split: option.splits if_splits)

lemma installs_diag [simp]: "installs rec (acc\<lparr> pa_diagnostics := ds \<rparr>) acc' = installs rec acc acc'"
  by (simp add: installs_def)

lemma admits_diag [simp]: "admits (acc\<lparr> pa_diagnostics := ds \<rparr>) rec = admits acc rec"
  by (simp add: admits_def)

lemma apply_record_admitted:
  assumes inv: "proj_inv acc" and st: "status_matches rec" and ad: "admits acc rec"
  shows "installs rec acc (apply_record rec acc)"
proof -
  define ds where "ds = push_status_mismatch_diagnostic rec (pa_diagnostics acc)"
  define acc1 where "acc1 = acc\<lparr> pa_diagnostics := ds \<rparr>"
  have inv1: "proj_inv acc1" and ad1: "admits acc1 rec" using inv ad by (simp_all add: acc1_def)
  have "installs rec acc1 (apply_record rec acc)"
  proof (cases "wr_operation rec")
    case WopHandoffRecorded
    then show ?thesis
      using st ad1 inv1 matching_handoff_admits [of rec acc1]
      by (simp add: apply_record_def Let_def ds_def [symmetric] acc1_def [symmetric] status_matches_def
          apply_handoff_recorded_installs)
  qed (use st ad1 inv1 matching_active_claim_admits [OF inv1, of rec] in
      \<open>simp_all add: apply_record_def Let_def ds_def [symmetric] acc1_def [symmetric] status_matches_def
          apply_acquire_installs apply_heartbeat_installs apply_release_installs apply_reconcile_status_installs\<close>)
  then show ?thesis by (simp add: acc1_def)
qed

lemma apply_record_refused:
  assumes inv: "proj_inv acc" and ad: "\<not> admits acc rec"
  shows "\<exists>ds. apply_record rec acc = acc\<lparr> pa_diagnostics := ds \<rparr>"
proof -
  define acc1 where "acc1 = acc\<lparr> pa_diagnostics := push_status_mismatch_diagnostic rec (pa_diagnostics acc) \<rparr>"
  have inv1: "proj_inv acc1" and ad1: "\<not> admits acc1 rec" using inv ad by (simp_all add: acc1_def)
  have md: "\<exists>d. matching_active_claim rec (active_by_claim_id acc1) m = Some d"
    if "wr_operation rec \<notin> {WopAcquire, WopHandoffRecorded}" for m
    using that ad1 matching_active_claim_admits [OF inv1, of rec m] by auto
  have "\<exists>d. apply_record rec acc = push_diag d acc1"
  proof (cases "wr_operation rec")
    case WopAcquire
    then show ?thesis using ad by (auto simp: admits_def split: option.splits)
  next
    case WopHandoffRecorded
    then show ?thesis
      using ad1 matching_handoff_admits [of rec acc1]
      by (auto simp: apply_record_def Let_def acc1_def [symmetric] apply_handoff_recorded_def)
  next
    case WopHeartbeat
    then show ?thesis using md [of MissHeartbeat]
      by (auto simp: apply_record_def Let_def acc1_def [symmetric] apply_heartbeat_def)
  next
    case WopRelease
    then show ?thesis using md [of MissRelease]
      by (auto simp: apply_record_def Let_def acc1_def [symmetric] apply_release_def)
  next
    case WopReconcileStatus
    then show ?thesis using md [of MissReconcile]
      by (auto simp: apply_record_def Let_def acc1_def [symmetric] apply_reconcile_status_def)
  qed
  then show ?thesis by (auto simp: push_diag_def acc1_def)
qed

lemma apply_record_inv: "proj_inv acc \<Longrightarrow> status_matches rec \<Longrightarrow> proj_inv (apply_record rec acc)"
  using apply_record_admitted [of acc rec] apply_record_refused [of acc rec]
  by (cases "admits acc rec") (auto simp: installs_def)

lemma apply_records_inv:
  "proj_inv acc \<Longrightarrow> list_all status_matches rs \<Longrightarrow> proj_inv (fold apply_record rs acc)"
  by (induction rs arbitrary: acc) (auto simp: apply_record_inv)

text \<open>The claims of the projection: the latest contract of each id.\<close>

definition claims_of :: "ProjectionAccumulator \<Rightarrow> string \<rightharpoonup> ClaimContract" where
  "claims_of acc k = map_option pc_claim_contract (bt_get (latest_by_claim_id acc) k)"

lemma claims_of_apply:
  assumes "proj_inv acc" "status_matches rec"
  shows "claims_of (apply_record rec acc) =
    (if admits acc rec then (claims_of acc)(cc_id (record_claim rec) \<mapsto> record_claim rec) else claims_of acc)"
  using apply_record_admitted [OF assms] apply_record_refused [OF assms(1), of rec]
  by (auto simp: claims_of_def installs_def bt_get_insert fun_eq_iff)

lemma admits_claims_of:
  "admits acc rec \<longleftrightarrow>
     (case claims_of acc (cc_id (record_claim rec)) of
        None \<Rightarrow> wr_operation rec = WopAcquire
      | Some c \<Rightarrow>
          wr_operation rec = WopAcquire \<or>
          claimant_agent_id (cc_claim c) = claimant_agent_id (cc_claim (record_claim rec)) \<and>
          csr_value (cc_status c) \<in> (if wr_operation rec = WopHandoffRecorded
             then {Active, Stale, HandoffRequired} else {Active, Stale}))"
  by (auto simp: admits_def claims_of_def pc_status_def split: option.splits)

section \<open>Checkpoints\<close>

lemma seed_claim_inv:
  assumes "proj_inv acc" shows "proj_inv (seed_claim sc acc)"
proof -
  define p where "p = \<lparr> pc_claim_contract = sc_claim_contract sc, pc_last_seq = sc_last_seq sc,
      pc_last_operation = sc_last_operation sc, pc_recorded_at = sc_recorded_at sc, pc_wal_offset = 0 \<rparr>"
  have st: "pc_status p = csr_value (cc_status (sc_claim_contract sc))"
    and id: "cc_id (pc_claim_contract p) = cc_id (sc_claim_contract sc)"
    by (simp_all add: p_def pc_status_def)
  define rec where "rec = \<lparr> wr_seq = sc_last_seq sc, wr_operation = sc_last_operation sc,
      wr_payload = \<lparr> wp_schema_version = [], wp_operation = sc_last_operation sc,
        wp_recorded_at = sc_recorded_at sc, wp_claim_contract = sc_claim_contract sc \<rparr>,
      wr_offset = 0, wr_record_len = 0 \<rparr>"
  have pr: "projected_claim rec = p" "record_claim rec = sc_claim_contract sc"
    by (simp_all add: rec_def p_def projected_claim_def record_claim_def)
  have "installs rec acc ((seed_claim sc acc)\<lparr> last_applied_seq := wr_seq rec \<rparr>)"
    using assms
    by (rule installsI) (simp_all add: seed_claim_def Let_def pr p_def [symmetric] view_step_def st)
  then show ?thesis by (simp add: installs_def)
qed

lemma claims_of_seed: "claims_of (seed_claim sc acc) = (claims_of acc)(cc_id (sc_claim_contract sc) \<mapsto> sc_claim_contract sc)"
  by (simp add: claims_of_def seed_claim_def Let_def bt_get_insert fun_eq_iff)

lemma seed_claims_inv: "proj_inv acc \<Longrightarrow> proj_inv (fold seed_claim scs acc)"
  by (induction scs arbitrary: acc) (auto simp: seed_claim_inv)

lemma claims_of_default [simp]: "claims_of accumulator_default k = None"
  by (simp add: claims_of_def accumulator_default_def)

lemma claims_of_seed_fold:
  "claims_of (fold seed_claim scs acc) k =
     (case find (\<lambda>sc. cc_id (sc_claim_contract sc) = k) (rev scs) of
        Some sc \<Rightarrow> Some (sc_claim_contract sc) | None \<Rightarrow> claims_of acc k)"
  by (induction scs arbitrary: acc rule: rev_induct) (auto simp: claims_of_seed)

lemma find_map: "find P (map f xs) = map_option f (find (P \<circ> f) xs)"
  by (induction xs) auto

lemma seed_snapshot_claims:
  assumes inv: "proj_inv acc" and snap: "latest_claims snapshot = snapshot_claims_from_projection (latest_by_claim_id acc)"
  shows "proj_inv (seed_snapshot snapshot accumulator_default)"
    "claims_of (seed_snapshot snapshot accumulator_default) = claims_of acc"
proof -
  show "proj_inv (seed_snapshot snapshot accumulator_default)"
    by (simp add: seed_snapshot_def seed_claims_inv proj_inv_default)
  have m: "bt_sorted (latest_by_claim_id acc)"
    "\<And>k p. bt_get (latest_by_claim_id acc) k = Some p \<Longrightarrow> cc_id (pc_claim_contract p) = k"
    using inv by (simp_all add: proj_inv_def)
  have none: "claims_of (accumulator_default\<lparr> last_applied_seq := s \<rparr>) k = None" for s k
    by (simp add: claims_of_def accumulator_default_def)
  note find = find_bt_values [of "latest_by_claim_id acc" "\<lambda>p. cc_id (pc_claim_contract p)", OF m]
  show "claims_of (seed_snapshot snapshot accumulator_default) = claims_of acc"
  proof
    fix k
    have "claims_of acc k = map_option pc_claim_contract (bt_get (latest_by_claim_id acc) k)"
      by (simp add: claims_of_def)
    then show "claims_of (seed_snapshot snapshot accumulator_default) k = claims_of acc k"
      unfolding seed_snapshot_def snap snapshot_claims_from_projection_def claims_of_seed_fold rev_map find_map
      by (simp add: comp_def find none split: option.splits)
  qed
qed

text \<open>Two accumulators with the same claims stay so under the same records.\<close>

lemma claims_of_apply_records:
  "proj_inv acc \<Longrightarrow> proj_inv acc' \<Longrightarrow> claims_of acc = claims_of acc' \<Longrightarrow> list_all status_matches rs \<Longrightarrow>
     claims_of (fold apply_record rs acc) = claims_of (fold apply_record rs acc')"
proof (induction rs arbitrary: acc acc')
  case (Cons r rs)
  have "claims_of (apply_record r acc) = claims_of (apply_record r acc')"
    using Cons.prems by (simp add: claims_of_apply admits_claims_of)
  with Cons show ?case by (simp add: apply_record_inv)
qed simp

lemma claims_list_eq:
  assumes "proj_inv acc" "proj_inv acc'" "claims_of acc = claims_of acc'"
  shows "map pc_claim_contract (bt_values (latest_by_claim_id acc)) =
    map pc_claim_contract (bt_values (latest_by_claim_id acc'))"
proof -
  have "bt_map pc_claim_contract (latest_by_claim_id acc) = bt_map pc_claim_contract (latest_by_claim_id acc')"
    using assms by (intro bt_ext) (auto simp: proj_inv_def bt_get_map claims_of_def fun_eq_iff)
  then show ?thesis by (metis bt_values_map)
qed

section \<open>The indexes\<close>

definition indexed :: "ClaimIdIndex \<Rightarrow> string \<Rightarrow> string set" where
  "indexed index key = (case bt_get index key of Some vs \<Rightarrow> set vs | None \<Rightarrow> {})"

lemma indexed_Nil [simp]: "indexed [] key = {}"
  by (simp add: indexed_def)

lemma indexed_push: "indexed (push_index key v index) key' = indexed index key' \<union> (if key = key' then {v} else {})"
  by (auto simp: indexed_def push_index_def bt_get_insert split: option.splits)

lemma indexed_sort: "indexed (sort_index_values index) key = indexed index key"
proof -
  have "sort_index_values index = bt_map (\<lambda>vs. remdups_adj (sort vs)) index"
    by (simp add: sort_index_values_def bt_map_def)
  then show ?thesis by (auto simp: indexed_def bt_get_map split: option.splits)
qed

lemma indexed_push_paths:
  "indexed (fold (\<lambda>path. push_index path v) paths index) key =
     indexed index key \<union> (if key \<in> set paths then {v} else {})"
  by (induction paths arbitrary: index) (auto simp: indexed_push)

definition index_step ::
    "string \<times> ProjectedClaim \<Rightarrow> ClaimIdIndex \<times> ClaimIdIndex \<times> ClaimIdIndex
     \<Rightarrow> ClaimIdIndex \<times> ClaimIdIndex \<times> ClaimIdIndex" where
  "index_step = (\<lambda>(claim_id, projected) (by_agent, by_scope, by_path).
     (push_index (claimant_agent_id (cc_claim (pc_claim_contract projected))) claim_id by_agent,
      push_index (cs_id (cc_scope (pc_claim_contract projected))) claim_id by_scope,
      fold (\<lambda>path. push_index path claim_id) (cs_paths (cc_scope (pc_claim_contract projected))) by_path))"

lemma fold_index_step:
  assumes "fold index_step active (a, s, p) = (a', s', p')"
  shows "indexed a' key = indexed a key \<union>
      {i. \<exists>c. (i, c) \<in> set active \<and> claimant_agent_id (cc_claim (pc_claim_contract c)) = key}"
    "indexed s' key = indexed s key \<union>
      {i. \<exists>c. (i, c) \<in> set active \<and> cs_id (cc_scope (pc_claim_contract c)) = key}"
    "indexed p' key = indexed p key \<union>
      {i. \<exists>c. (i, c) \<in> set active \<and> key \<in> set (cs_paths (cc_scope (pc_claim_contract c)))}"
  using assms
  by (induction active arbitrary: a s p) (auto simp: index_step_def indexed_push indexed_push_paths split: if_splits)

lemma build_active_indexes_correct:
  assumes "bt_sorted active" "build_active_indexes active = (by_agent, by_scope, by_path)"
  shows "i \<in> indexed by_agent key \<longleftrightarrow>
      (\<exists>c. bt_get active i = Some c \<and> claimant_agent_id (cc_claim (pc_claim_contract c)) = key)"
    "i \<in> indexed by_scope key \<longleftrightarrow>
      (\<exists>c. bt_get active i = Some c \<and> cs_id (cc_scope (pc_claim_contract c)) = key)"
    "i \<in> indexed by_path key \<longleftrightarrow>
      (\<exists>c. bt_get active i = Some c \<and> key \<in> set (cs_paths (cc_scope (pc_claim_contract c))))"
proof -
  obtain a s p where f: "fold index_step active ([], [], []) = (a, s, p)" by (metis prod_cases3)
  then have e: "by_agent = sort_index_values a" "by_scope = sort_index_values s" "by_path = sort_index_values p"
    using assms(2) by (simp_all add: build_active_indexes_def index_step_def [symmetric])
  have m: "bt_get active i = Some c \<longleftrightarrow> (i, c) \<in> set active" for i c
    using bt_sorted_distinct [OF assms(1)] by (simp add: bt_get_def)
  show "i \<in> indexed by_agent key \<longleftrightarrow>
      (\<exists>c. bt_get active i = Some c \<and> claimant_agent_id (cc_claim (pc_claim_contract c)) = key)"
    "i \<in> indexed by_scope key \<longleftrightarrow>
      (\<exists>c. bt_get active i = Some c \<and> cs_id (cc_scope (pc_claim_contract c)) = key)"
    "i \<in> indexed by_path key \<longleftrightarrow>
      (\<exists>c. bt_get active i = Some c \<and> key \<in> set (cs_paths (cc_scope (pc_claim_contract c))))"
    unfolding e indexed_sort fold_index_step [OF f] m by simp_all
qed

section \<open>Properties\<close>

text \<open>The accumulator of a projection, and its invariant.\<close>

definition replay_accumulator :: "ClaimWalRecovery \<Rightarrow> ProjectionAccumulator" where
  "replay_accumulator recovery =
     fold apply_record (rv_records recovery)
       (case rv_checkpoint recovery of
          Some checkpoint \<Rightarrow> seed_snapshot (ck_snapshot checkpoint) accumulator_default
        | None \<Rightarrow> accumulator_default)"

lemma replay_accumulator_inv:
  "list_all status_matches (rv_records recovery) \<Longrightarrow> proj_inv (replay_accumulator recovery)"
  unfolding replay_accumulator_def
  by (intro apply_records_inv)
    (auto simp: seed_snapshot_def seed_claims_inv proj_inv_default split: option.splits)

lemma project_fields:
  "pj_latest (project_claim_wal_recovery r) = latest_by_claim_id (replay_accumulator r)"
  "pj_active (project_claim_wal_recovery r) = active_by_claim_id (replay_accumulator r)"
  "pj_released (project_claim_wal_recovery r) = released_by_claim_id (replay_accumulator r)"
  "pj_handoff_recorded (project_claim_wal_recovery r) = handoff_recorded_by_claim_id (replay_accumulator r)"
  "pj_claims (project_claim_wal_recovery r) =
     map pc_claim_contract (bt_values (latest_by_claim_id (replay_accumulator r)))"
  "(active_claim_ids_by_agent (project_claim_wal_recovery r),
    active_claim_ids_by_scope (project_claim_wal_recovery r),
    active_claim_ids_by_path (project_claim_wal_recovery r)) =
     build_active_indexes (active_by_claim_id (replay_accumulator r))"
  by (simp_all add: project_claim_wal_recovery_def replay_accumulator_def Let_def split: prod.splits)

text \<open>A sample log: the sample claim is acquired, then released.\<close>

definition sample_acquire :: ClaimWalRecord where
  "sample_acquire =
     \<lparr> wr_seq = 1, wr_operation = WopAcquire,
       wr_payload = wal_payload WopAcquire sample_claim ''1970-01-01T00:00:00Z'',
       wr_offset = 0, wr_record_len = 29 \<rparr>"

definition sample_release :: ClaimWalRecord where
  "sample_release =
     \<lparr> wr_seq = 2, wr_operation = WopRelease,
       wr_payload = wal_payload WopRelease
         (sample_claim\<lparr> cc_status := \<lparr> csr_value = Released, evaluated_at = [], reason_code = None \<rparr> \<rparr>)
         ''1970-01-01T00:00:30Z'',
       wr_offset = 29, wr_record_len = 29 \<rparr>"

definition sample_recovery :: "ClaimWalCheckpointRecord option \<Rightarrow> ClaimWalRecord list \<Rightarrow> ClaimWalRecovery" where
  "sample_recovery ck recs =
     \<lparr> wal_path = ''wal'', rv_records = recs, rv_checkpoint = ck, last_observed_seq = 2,
       valid_record_count = length recs, last_good_offset = 58, original_len = 58, repaired = False,
       stop_reason = CleanEof \<rparr>"

definition sample_checkpoint :: ClaimWalCheckpointRecord where
  "sample_checkpoint =
     \<lparr> ck_seq = 2,
       ck_payload = \<lparr> cp_schema_version = ''0.4'', snapshot_path = [], snapshot_crc32c = 0,
         last_seq_in_snapshot = 1, archived_wal_path = None, archived_wal_sha256 = None,
         generation_path = None, generation_sha256 = None, generation_anchor = None,
         cp_created_at = [], cp_created_at_ms = 0 \<rparr>,
       ck_snapshot = \<lparr> sp_schema_version = ''0.1'', sp_created_at = [], sp_created_at_ms = 0, sp_last_seq = 1,
         latest_claims = snapshot_claims_from_projection
           (latest_by_claim_id (fold apply_record [sample_acquire] accumulator_default)) \<rparr>,
       ck_offset = 0, ck_record_len = 29 \<rparr>"

lemmas sample_defs = sample_acquire_def sample_release_def sample_recovery_def sample_checkpoint_def
  status_matches_def record_claim_def wal_payload_def sample_claim_def

text \<open>
  C17. Replay keeps its views consistent: whatever lifecycle records are replayed (from the
  start or from a checkpoint snapshot), a claim is listed as active, released or handed off
  exactly when the latest record of its id left it in such a status, and the agent, scope
  and path indexes list exactly the active claims of that agent, scope and path.
\<close>

theorem projection_views_consistent:
  assumes "list_all status_matches (rv_records recovery)"
    and "P = project_claim_wal_recovery recovery"
  shows "bt_get (pj_active P) i = (case bt_get (pj_latest P) i of None \<Rightarrow> None
        | Some c \<Rightarrow> if pc_status c \<in> {Active, Stale} then Some c else None) \<and>
    bt_get (pj_released P) i = (case bt_get (pj_latest P) i of None \<Rightarrow> None
        | Some c \<Rightarrow> if pc_status c = Released then Some c else None) \<and>
    bt_get (pj_handoff_recorded P) i = (case bt_get (pj_latest P) i of None \<Rightarrow> None
        | Some c \<Rightarrow> if pc_status c = HandoffRecorded then Some c else None) \<and>
    (i \<in> indexed (active_claim_ids_by_agent P) key \<longleftrightarrow>
      (\<exists>c. bt_get (pj_active P) i = Some c \<and> claimant_agent_id (cc_claim (pc_claim_contract c)) = key)) \<and>
    (i \<in> indexed (active_claim_ids_by_scope P) key \<longleftrightarrow>
      (\<exists>c. bt_get (pj_active P) i = Some c \<and> cs_id (cc_scope (pc_claim_contract c)) = key)) \<and>
    (i \<in> indexed (active_claim_ids_by_path P) key \<longleftrightarrow>
      (\<exists>c. bt_get (pj_active P) i = Some c \<and> key \<in> set (cs_paths (cc_scope (pc_claim_contract c)))))"
proof -
  have inv: "proj_inv (replay_accumulator recovery)" using assms(1) by (rule replay_accumulator_inv)
  then have "bt_sorted (active_by_claim_id (replay_accumulator recovery))" by (simp add: proj_inv_def)
  note idx = build_active_indexes_correct [OF this project_fields(6) [symmetric]]
  have v: "bt_get (active_by_claim_id (replay_accumulator recovery)) =
      view {Active, Stale} (bt_get (latest_by_claim_id (replay_accumulator recovery)))"
    "bt_get (released_by_claim_id (replay_accumulator recovery)) =
      view {Released} (bt_get (latest_by_claim_id (replay_accumulator recovery)))"
    "bt_get (handoff_recorded_by_claim_id (replay_accumulator recovery)) =
      view {HandoffRecorded} (bt_get (latest_by_claim_id (replay_accumulator recovery)))"
    using inv by (simp_all add: proj_inv_def)
  show ?thesis
    unfolding assms(2) idx project_fields(1-4) unfolding v view_def by (simp split: option.splits)
qed

theorem projection_views_consistent_witness:
  "bt_get (pj_active (project_claim_wal_recovery (sample_recovery None [sample_acquire, sample_release])))
     ''claim.story.S1.S1'' =
   (case bt_get (pj_latest (project_claim_wal_recovery (sample_recovery None [sample_acquire, sample_release])))
      ''claim.story.S1.S1'' of None \<Rightarrow> None
    | Some c \<Rightarrow> if pc_status c \<in> {Active, Stale} then Some c else None)"
proof -
  have "list_all status_matches (rv_records (sample_recovery None [sample_acquire, sample_release]))"
    by (simp add: sample_defs)
  from projection_views_consistent [OF this refl] show ?thesis by blast
qed

text \<open>
  C18. Checkpoint compaction is transparent: replaying the records of a log that starts from
  the snapshot of an earlier replay gives exactly the claims, in the same order, that
  replaying the whole history from the empty state gives.
\<close>

theorem checkpoint_transparent:
  assumes st: "list_all status_matches history" "list_all status_matches rest"
    and whole: "rv_checkpoint whole = None" "rv_records whole = history @ rest"
    and rotated: "rv_checkpoint rotated = Some ck" "rv_records rotated = rest"
    and snapshot: "latest_claims (ck_snapshot ck) = snapshot_claims_from_projection
      (latest_by_claim_id (fold apply_record history accumulator_default))"
  shows "pj_claims (project_claim_wal_recovery rotated) = pj_claims (project_claim_wal_recovery whole)"
proof -
  let ?acc = "fold apply_record history accumulator_default"
  have inv: "proj_inv ?acc" using proj_inv_default st(1) by (rule apply_records_inv)
  note seed = seed_snapshot_claims [OF inv snapshot]
  have "claims_of (replay_accumulator rotated) = claims_of (replay_accumulator whole)"
    unfolding replay_accumulator_def whole rotated
    using claims_of_apply_records [OF seed(1) inv seed(2) st(2)] by simp
  moreover have "proj_inv (replay_accumulator rotated)" "proj_inv (replay_accumulator whole)"
    using st by (simp_all add: replay_accumulator_inv whole rotated)
  ultimately show ?thesis unfolding project_fields by (intro claims_list_eq)
qed

theorem checkpoint_transparent_witness:
  "pj_claims (project_claim_wal_recovery (sample_recovery (Some sample_checkpoint) [sample_release])) =
   pj_claims (project_claim_wal_recovery (sample_recovery None ([sample_acquire] @ [sample_release])))"
  by (rule checkpoint_transparent [of "[sample_acquire]" "[sample_release]" _ _ sample_checkpoint])
    (simp_all add: sample_defs)

end
