(* ===== verification/Claim_Bus.thy ===== *)
theory Claim_Bus
  imports Write_Guard Claim_Wal_Projection
begin

text \<open>
  The coordination bus as the command line drives it: the operations of
  \<open>src/crates/forge-core-cli/src/claim.rs\<close> over the authoritative log
  (\<open>derive_state\<close> of \<open>src/crates/forge-core-store/src/derive_state.rs\<close>).  Each operation runs under
  the directory lock: load the claims from the log, let the engine decide, append the
  resulting claim.  The state is the log file, the YAML cache (by file name) and the handoff
  artifacts.
\<close>

section \<open>Deriving the claims from the log\<close>

datatype DeriveStateError =
  DsRecoveryStopped (ds_err_stop_reason: ClaimWalStopReason) (ds_err_last_good_offset: nat) (ds_err_original_len: nat)
| DsRepairDidNotRecover (ds_err_reason: ClaimWalStopReason)

definition claim_wal_relative_path :: string where
  "claim_wal_relative_path = ''wal/claims.fmw1''"

text \<open>Replay of the log file, with the content it leaves behind.\<close>

definition replay_claim_wal :: "wal_env \<Rightarrow> bool \<Rightarrow> u8 list \<Rightarrow> bool \<Rightarrow> u8 list \<times> ClaimWalProjection" where
  "replay_claim_wal env residue bytes repair =
     (let (bytes', recovery) = recover_claim_wal_file env residue claim_wal_relative_path bytes repair
      in (bytes', project_claim_wal_recovery recovery))"

definition derive_state_inner ::
    "wal_env \<Rightarrow> bool \<Rightarrow> u8 list \<Rightarrow> u8 list \<times> (DeriveStateError + ClaimWalProjection)" where
  "derive_state_inner env residue bytes =
     (let (bytes1, first) = replay_claim_wal env residue bytes False;
          reason = stop_reason (pj_recovery first)
      in if reason = CleanEof then (bytes1, Inr first)
         else if reason \<in> {TruncatedHeader, TruncatedPayload} then
           (let (bytes2, _) = replay_claim_wal env residue bytes1 True;
                (bytes3, repaired_projection) = replay_claim_wal env residue bytes2 False
            in if stop_reason (pj_recovery repaired_projection) = CleanEof
               then (bytes3, Inr repaired_projection)
               else (bytes3, Inl (DsRepairDidNotRecover (stop_reason (pj_recovery repaired_projection)))))
         else (bytes1, Inl (DsRecoveryStopped reason (last_good_offset (pj_recovery first))
                 (original_len (pj_recovery first)))))"

section \<open>The state of the bus and the envelopes\<close>

record ClaimHandoffArtifact =
  ha_claim_id :: string
  ha_scope_kind :: string
  ha_scope_id :: string
  recorded_by_agent_id :: string
  original_claimant_agent_id :: string
  previous_status :: string
  recorded_status :: string
  ha_recorded_at :: string
  ha_summary :: string
  ha_evidence_refs :: "string list"
  ha_claim_contract :: ClaimContract

record bus =
  wal_file :: "u8 list option"
  claim_cache :: "ClaimContract btree_map"
  handoffs :: "ClaimHandoffArtifact btree_map"

datatype load_error = CacheWithoutWal nat | DeriveFailed DeriveStateError

datatype cli_error =
  ReservedScopeId ScopeId
| ClaimsUnreadable load_error
| ClaimNotFound string
| PersistFailed ClaimWalAppendError

datatype 'a CliEnvelope = CliOk 'a | CliErr cli_error | CliReject ClaimRejection

record ClaimResult =
  res_claim_id :: string
  res_scope_kind :: string
  res_scope_id :: string
  res_principal_id :: "string option"
  res_agent_id :: string
  res_status :: string
  res_acquired_at :: string
  res_expires_at :: string

definition from_contract :: "ClaimContract \<Rightarrow> ClaimResult" where
  "from_contract c =
     \<lparr> res_claim_id = cc_id c,
       res_scope_kind = scope_kind_slug (cs_kind (cc_scope c)),
       res_scope_id = cs_id (cc_scope c),
       res_principal_id = claimant_principal_id (cc_claim c),
       res_agent_id = claimant_agent_id (cc_claim c),
       res_status = status_slug (csr_value (cc_status c)),
       res_acquired_at = acquired_at (cc_lease c),
       res_expires_at = expires_at (cc_lease c) \<rparr>"

section \<open>Loading and resolving\<close>

datatype ClaimRef = Full ClaimId | Scope ScopeId

definition is_reserved_claim_prefix :: "string \<Rightarrow> bool" where
  "is_reserved_claim_prefix token \<longleftrightarrow> starts_with token ''claim.''"

definition parse_claim_ref :: "string \<Rightarrow> ClaimRef" where
  "parse_claim_ref token = (if is_reserved_claim_prefix token then Full token else Scope token)"

definition resolve_claim :: "ClaimContract list \<Rightarrow> ClaimRef \<Rightarrow> ClaimContract option" where
  "resolve_claim claims r =
     (case r of
        Full i \<Rightarrow> find (\<lambda>c. cc_id c = i) claims
      | Scope i \<Rightarrow> find (\<lambda>c. cs_id (cc_scope c) = i) claims)"

definition slug_for_file :: "string \<Rightarrow> string" where
  "slug_for_file i =
     concat (map (\<lambda>ch. case ch of
         [c] \<Rightarrow> if is_ascii_alphanumeric c \<or> c = CHR ''-'' \<or> c = CHR ''_'' then [c] else ''-''
       | _ \<Rightarrow> ''-'') (utf8_chars i))"

text \<open>\<open>load_claims\<close>: the log when it exists; without a log only an empty cache is accepted.\<close>

definition load_claims :: "wal_env \<Rightarrow> bool \<Rightarrow> bus \<Rightarrow> bus \<times> (load_error + ClaimContract list)" where
  "load_claims env residue b =
     (case wal_file b of
        Some bytes \<Rightarrow>
          (let (bytes', r) = derive_state_inner env residue bytes
           in (b\<lparr> wal_file := Some bytes' \<rparr>,
               case r of Inl e \<Rightarrow> Inl (DeriveFailed e) | Inr projection \<Rightarrow> Inr (pj_claims projection)))
      | None \<Rightarrow>
          if claim_cache b = [] then (b, Inr [])
          else (b, Inl (CacheWithoutWal (length (claim_cache b)))))"

definition save_claim :: "bus \<Rightarrow> ClaimContract \<Rightarrow> bus" where
  "save_claim b claim =
     b\<lparr> claim_cache := bt_insert (slug_for_file (cc_id claim) @ ''.yaml'') claim (claim_cache b) \<rparr>"

definition persist_claim_mutation ::
    "wal_env \<Rightarrow> bool \<Rightarrow> bus \<Rightarrow> ClaimWalOperation \<Rightarrow> ClaimContract \<Rightarrow> string
     \<Rightarrow> bus \<times> (ClaimWalAppendError + unit)" where
  "persist_claim_mutation env residue b oper claim recorded_at =
     (let bytes = (case wal_file b of Some bytes \<Rightarrow> bytes | None \<Rightarrow> []) in
      case append_claim_wal_record env residue claim_wal_relative_path bytes oper claim recorded_at of
        (bytes', Inl e) \<Rightarrow> (b\<lparr> wal_file := map_option (\<lambda>_. bytes') (wal_file b) \<rparr>, Inl e)
      | (bytes', Inr seq) \<Rightarrow> (save_claim (b\<lparr> wal_file := Some bytes' \<rparr>) claim, Inr ()))"

section \<open>The operations\<close>

definition run_acquire ::
    "(string \<Rightarrow> string) \<Rightarrow> wal_env \<Rightarrow> bool \<Rightarrow> bus \<Rightarrow> AcquireRequest \<Rightarrow> i64 \<Rightarrow> bus \<times> ClaimResult CliEnvelope" where
  "run_acquire lower env residue b req now_unix =
     (if is_reserved_claim_prefix (rq_scope_id req) then (b, CliErr (ReservedScopeId (rq_scope_id req)))
      else
        (case load_claims env residue b of
           (b1, Inl e) \<Rightarrow> (b1, CliErr (ClaimsUnreadable e))
         | (b1, Inr existing) \<Rightarrow>
             (case acquire lower existing req now_unix of
                Rejected reason \<Rightarrow> (b1, CliReject reason)
              | Accepted claim \<Rightarrow>
                  (case persist_claim_mutation env residue b1 WopAcquire claim (acquired_at (cc_lease claim)) of
                     (b2, Inl e) \<Rightarrow> (b2, CliErr (PersistFailed e))
                   | (b2, Inr ()) \<Rightarrow> (b2, CliOk (from_contract claim))))))"

definition run_heartbeat ::
    "wal_env \<Rightarrow> bool \<Rightarrow> bus \<Rightarrow> string \<Rightarrow> StableId \<Rightarrow> i64 \<Rightarrow> bus \<times> ClaimResult CliEnvelope" where
  "run_heartbeat env residue b claim_id agent_id now_unix =
     (case load_claims env residue b of
        (b1, Inl e) \<Rightarrow> (b1, CliErr (ClaimsUnreadable e))
      | (b1, Inr existing) \<Rightarrow>
          (case resolve_claim existing (parse_claim_ref claim_id) of
             None \<Rightarrow> (b1, CliErr (ClaimNotFound claim_id))
           | Some target \<Rightarrow>
               (case heartbeat target agent_id now_unix of
                  Rejected reason \<Rightarrow> (b1, CliReject reason)
                | Accepted updated \<Rightarrow>
                    (case persist_claim_mutation env residue b1 WopHeartbeat updated
                        (last_heartbeat_at (cc_lease updated)) of
                       (b2, Inl e) \<Rightarrow> (b2, CliErr (PersistFailed e))
                     | (b2, Inr ()) \<Rightarrow> (b2, CliOk (from_contract updated))))))"

definition run_release ::
    "wal_env \<Rightarrow> bool \<Rightarrow> bus \<Rightarrow> string \<Rightarrow> StableId \<Rightarrow> i64 \<Rightarrow> bus \<times> ClaimResult CliEnvelope" where
  "run_release env residue b claim_id agent_id now_unix =
     (case load_claims env residue b of
        (b1, Inl e) \<Rightarrow> (b1, CliErr (ClaimsUnreadable e))
      | (b1, Inr existing) \<Rightarrow>
          (case resolve_claim existing (parse_claim_ref claim_id) of
             None \<Rightarrow> (b1, CliErr (ClaimNotFound claim_id))
           | Some target \<Rightarrow>
               (case release target agent_id now_unix of
                  Rejected reason \<Rightarrow> (b1, CliReject reason)
                | Accepted updated \<Rightarrow>
                    (case persist_claim_mutation env residue b1 WopRelease updated
                        (evaluated_at (cc_status updated)) of
                       (b2, Inl e) \<Rightarrow> (b2, CliErr (PersistFailed e))
                     | (b2, Inr ()) \<Rightarrow> (b2, CliOk (from_contract updated))))))"

definition handoff_artifact_ref :: "ClaimContract \<Rightarrow> i64 \<Rightarrow> string" where
  "handoff_artifact_ref claim now_unix =
     ''handoffs/expired-claims/expired-claim-'' @ slug_for_file (cs_id (cc_scope claim)) @ ''-'' @
     slug_for_file (unix_to_rfc3339 now_unix) @ ''.yaml''"

definition handoff_artifact ::
    "ClaimContract \<Rightarrow> ClaimContract \<Rightarrow> StableId \<Rightarrow> string \<Rightarrow> string list \<Rightarrow> i64 \<Rightarrow> ClaimHandoffArtifact" where
  "handoff_artifact target updated agent_id summary refs now_unix =
     \<lparr> ha_claim_id = cc_id updated,
       ha_scope_kind = scope_kind_slug (cs_kind (cc_scope updated)),
       ha_scope_id = cs_id (cc_scope updated),
       recorded_by_agent_id = agent_id,
       original_claimant_agent_id = claimant_agent_id (cc_claim target),
       previous_status = status_slug (csr_value (cc_status target)),
       recorded_status = status_slug (csr_value (cc_status updated)),
       ha_recorded_at = unix_to_rfc3339 now_unix,
       ha_summary = trim summary,
       ha_evidence_refs = refs,
       ha_claim_contract = target \<rparr>"

record ClaimHandoffResult =
  hr_claim_id :: string
  hr_scope_kind :: string
  hr_scope_id :: string
  hr_agent_id :: string
  hr_status :: string
  hr_recorded_at :: string
  hr_handoff_ref :: string

definition run_handoff ::
    "wal_env \<Rightarrow> bool \<Rightarrow> bus \<Rightarrow> string \<Rightarrow> StableId \<Rightarrow> string \<Rightarrow> string list \<Rightarrow> i64
     \<Rightarrow> bus \<times> ClaimHandoffResult CliEnvelope" where
  "run_handoff env residue b claim_id agent_id summary refs now_unix =
     (case load_claims env residue b of
        (b1, Inl e) \<Rightarrow> (b1, CliErr (ClaimsUnreadable e))
      | (b1, Inr existing) \<Rightarrow>
          (case resolve_claim existing (parse_claim_ref claim_id) of
             None \<Rightarrow> (b1, CliErr (ClaimNotFound claim_id))
           | Some target \<Rightarrow>
               (let artifact_ref = handoff_artifact_ref target now_unix;
                    request = \<lparr> recorder_agent_id = agent_id, rh_summary = summary,
                      rh_evidence_refs = artifact_ref # refs \<rparr>
                in case record_handoff target request now_unix of
                     Rejected reason \<Rightarrow> (b1, CliReject reason)
                   | Accepted updated \<Rightarrow>
                       (let b2 = b1\<lparr> handoffs := bt_insert artifact_ref
                              (handoff_artifact target updated agent_id summary refs now_unix) (handoffs b1) \<rparr>
                        in case persist_claim_mutation env residue b2 WopHandoffRecorded updated
                               (evaluated_at (cc_status updated)) of
                             (b3, Inl e) \<Rightarrow> (b3, CliErr (PersistFailed e))
                           | (b3, Inr ()) \<Rightarrow>
                               (b3, CliOk
                                 \<lparr> hr_claim_id = cc_id updated,
                                   hr_scope_kind = scope_kind_slug (cs_kind (cc_scope updated)),
                                   hr_scope_id = cs_id (cc_scope updated),
                                   hr_agent_id = agent_id,
                                   hr_status = status_slug (csr_value (cc_status updated)),
                                   hr_recorded_at = unix_to_rfc3339 now_unix,
                                   hr_handoff_ref = artifact_ref \<rparr>)))))"

fun persist_transitions ::
    "wal_env \<Rightarrow> bool \<Rightarrow> bus \<Rightarrow> ClaimReconcileTransition list \<Rightarrow> bus \<times> (ClaimWalAppendError + unit)" where
  "persist_transitions env residue b [] = (b, Inr ())"
| "persist_transitions env residue b (tr # trs) =
     (case persist_claim_mutation env residue b WopReconcileStatus (crt_updated tr)
         (evaluated_at (cc_status (crt_updated tr))) of
        (b', Inl e) \<Rightarrow> (b', Inl e)
      | (b', Inr ()) \<Rightarrow> persist_transitions env residue b' trs)"

record ClaimReconcileResult =
  cr_now_unix :: i64
  cr_scanned :: nat
  cr_changed :: nat
  cr_transitions :: "ClaimReconcileTransition list"

definition run_reconcile_once ::
    "wal_env \<Rightarrow> bool \<Rightarrow> bus \<Rightarrow> i64 \<Rightarrow> bus \<times> ClaimReconcileResult CliEnvelope" where
  "run_reconcile_once env residue b now_unix =
     (case load_claims env residue b of
        (b1, Inl e) \<Rightarrow> (b1, CliErr (ClaimsUnreadable e))
      | (b1, Inr existing) \<Rightarrow>
          (let report = reconcile_claims existing now_unix in
           case persist_transitions env residue b1 (crr_transitions report) of
             (b2, Inl e) \<Rightarrow> (b2, CliErr (PersistFailed e))
           | (b2, Inr ()) \<Rightarrow>
               (b2, CliOk
                 \<lparr> cr_now_unix = now_unix,
                   cr_scanned = crr_scanned report,
                   cr_changed = length (crr_transitions report),
                   cr_transitions = crr_transitions report \<rparr>)))"

definition handoff_blocker_reason :: "ClaimContract \<Rightarrow> i64 \<Rightarrow> string option" where
  "handoff_blocker_reason claim now_unix =
     (if csr_value (cc_status claim) = HandoffRequired then Some ''handoff_required''
      else if csr_value (cc_status claim) \<in> {Active, Stale}
              \<and> handoff_required (expiry_policy claim) \<and> is_expired claim now_unix
      then Some ''expired_requires_handoff''
      else None)"

text \<open>The status view: the live claims, and the blockers with their reason.\<close>

record ClaimStatusView =
  sv_active :: "ActiveClaimSummary list"
  sv_expired_handoff_required :: "(ClaimContract \<times> string) list"

definition run_status :: "wal_env \<Rightarrow> bool \<Rightarrow> bus \<Rightarrow> i64 \<Rightarrow> bus \<times> ClaimStatusView CliEnvelope" where
  "run_status env residue b now_unix =
     (case load_claims env residue b of
        (b1, Inl e) \<Rightarrow> (b1, CliErr (ClaimsUnreadable e))
      | (b1, Inr existing) \<Rightarrow>
          (b1, CliOk
            \<lparr> sv_active = project_active existing now_unix,
              sv_expired_handoff_required =
                List.map_filter (\<lambda>claim. map_option (\<lambda>r. (claim, r)) (handoff_blocker_reason claim now_unix))
                  existing \<rparr>))"

definition conflict_code_str :: "ConflictCode \<Rightarrow> string" where
  "conflict_code_str c =
     (case c of
        WriteTargetClaimed \<Rightarrow> ''write_target_claimed''
      | OverlappingWriteSet \<Rightarrow> ''overlapping_write_set''
      | PathOutsideScope \<Rightarrow> ''path_outside_scope''
      | ReadTargetChanged \<Rightarrow> ''read_target_changed''
      | WriteTargetChanged \<Rightarrow> ''write_target_changed''
      | ExpectedStateVersionMismatch \<Rightarrow> ''expected_state_version_mismatch''
      | CompletionNowDone \<Rightarrow> ''completion_now_done''
      | MissingInverseForDestructiveWrite \<Rightarrow> ''missing_inverse_for_destructive_write'')"

record WriteBlock =
  wb_blocked_path :: string
  wb_blocking_claim_id :: string
  wb_claimant :: string
  wb_conflict_code :: string

record WriteCheckPayload =
  wcp_writer :: string
  wcp_allowed :: bool
  wcp_governed_by_self :: "string list"
  wcp_ungoverned :: "string list"
  wcp_blocks :: "WriteBlock list"

text \<open>The gate answers the payload also when it rejects the write.\<close>

definition run_check_write ::
    "(string \<Rightarrow> string) \<Rightarrow> wal_env \<Rightarrow> bool \<Rightarrow> bus \<Rightarrow> StableId \<Rightarrow> string list \<Rightarrow> i64
     \<Rightarrow> bus \<times> (cli_error + WriteCheckPayload)" where
  "run_check_write lower env residue b writer targets now_unix =
     (case load_claims env residue b of
        (b1, Inl e) \<Rightarrow> (b1, Inl (ClaimsUnreadable e))
      | (b1, Inr existing) \<Rightarrow>
          (case check_write_against_claims lower targets writer existing now_unix of
             WcOk governed free \<Rightarrow>
               (b1, Inr \<lparr> wcp_writer = writer, wcp_allowed = (free = []), wcp_governed_by_self = governed,
                    wcp_ungoverned = free, wcp_blocks = [] \<rparr>)
           | WcBlocked bs \<Rightarrow>
               (b1, Inr \<lparr> wcp_writer = writer, wcp_allowed = False, wcp_governed_by_self = [],
                    wcp_ungoverned = [],
                    wcp_blocks = map (\<lambda>d.
                      \<lparr> wb_blocked_path = blocked_path d,
                        wb_blocking_claim_id = bd_blocking_claim_id d,
                        wb_claimant = bd_claimant d,
                        wb_conflict_code = conflict_code_str (bd_conflict_code d) \<rparr>) bs \<rparr>)))"

end
