(* ===== verification/Bus_Safety.thy ===== *)
theory Bus_Safety
  imports Claim_Bus
begin

text \<open>
  Safety and progress of the coordination bus.  The locale \<open>claim_store\<close> is what the operations
  rely on of the log: a claim that is put is read back, the other claims are kept.  Its
  interpretation discharges these laws for the byte-level log.  The client lemmas give the
  safety of the bus: whatever operations run, at whatever (even non-monotone) times, and
  wherever a crash cuts the log, no two open claims hold the same scope or overlapping paths.
  The last section shows that a write the engine accepts goes through when the log has room.
\<close>

section \<open>Safety of a set of claims\<close>

definition canonical_id :: "ClaimContract \<Rightarrow> ClaimId" where
  "canonical_id c =
     ''claim.'' @ scope_kind_slug (cs_kind (cc_scope c)) @ ''.'' @ cs_id (cc_scope c) @ ''.'' @ cs_id (cc_scope c)"

definition conflicting :: "(string \<Rightarrow> string) \<Rightarrow> ClaimContract \<Rightarrow> ClaimContract \<Rightarrow> bool" where
  "conflicting lower c d \<longleftrightarrow>
     claim_holds_scope c (cs_kind (cc_scope d)) (cs_id (cc_scope d)) \<or>
     paths_overlap lower (cs_paths (cc_scope c)) (cs_paths (cc_scope d))"

lemma conflicting_sym: "conflicting lower c d \<longleftrightarrow> conflicting lower d c"
  by (auto simp: conflicting_def claim_holds_scope_def paths_overlap_sym)

definition bus_safe :: "(string \<Rightarrow> string) \<Rightarrow> (string \<rightharpoonup> ClaimContract) \<Rightarrow> bool" where
  "bus_safe lower m \<longleftrightarrow>
     (\<forall>i c. m i = Some c \<longrightarrow> cc_id c = i \<and> canonical_id c = i \<and> handoff_required (expiry_policy c)) \<and>
     (\<forall>i c j d. m i = Some c \<longrightarrow> m j = Some d \<longrightarrow> i \<noteq> j \<longrightarrow> open_claim c \<longrightarrow> open_claim d \<longrightarrow>
        \<not> conflicting lower c d)"

lemma bus_safe_empty: "bus_safe lower (\<lambda>_. None)"
  by (simp add: bus_safe_def)

lemma bus_safe_made:
  "bus_safe lower m \<Longrightarrow> m i = Some c \<Longrightarrow> cc_id c = i"
  "bus_safe lower m \<Longrightarrow> m i = Some c \<Longrightarrow> canonical_id c = i"
  "bus_safe lower m \<Longrightarrow> m i = Some c \<Longrightarrow> handoff_required (expiry_policy c)"
  by (simp_all add: bus_safe_def)

lemma bus_safe_apart:
  "bus_safe lower m \<Longrightarrow> m i = Some c \<Longrightarrow> m j = Some d \<Longrightarrow> i \<noteq> j \<Longrightarrow> open_claim c \<Longrightarrow> open_claim d \<Longrightarrow>
     \<not> conflicting lower c d"
  unfolding bus_safe_def by blast

lemma conflicting_cong: "cc_scope c = cc_scope c' \<Longrightarrow> conflicting lower c d \<longleftrightarrow> conflicting lower c' d"
  by (simp add: conflicting_def claim_holds_scope_def)

lemma bus_safe_update:
  assumes safe: "bus_safe lower m"
    and new: "canonical_id c = cc_id c" "handoff_required (expiry_policy c)"
    and free: "\<And>j d. m j = Some d \<Longrightarrow> j \<noteq> cc_id c \<Longrightarrow> open_claim c \<Longrightarrow> open_claim d \<Longrightarrow> \<not> conflicting lower c d"
  shows "bus_safe lower (m(cc_id c \<mapsto> c))"
proof -
  have "\<not> conflicting lower x y"
    if "(m(cc_id c \<mapsto> c)) i = Some x" "(m(cc_id c \<mapsto> c)) j = Some y" "i \<noteq> j" "open_claim x" "open_claim y"
    for i j x y
  proof (cases "i = cc_id c \<or> j = cc_id c")
    case True
    with that free [of i x] free [of j y] show ?thesis by (auto simp: conflicting_sym [of lower x] split: if_splits)
  next
    case False
    with that show ?thesis using bus_safe_apart [OF safe, of i x j y] by simp
  qed
  moreover have "cc_id x = i \<and> canonical_id x = i \<and> handoff_required (expiry_policy x)"
    if "(m(cc_id c \<mapsto> c)) i = Some x" for i x
    using that new bus_safe_made [OF safe, of i x] by (simp split: if_splits)
  ultimately show ?thesis unfolding bus_safe_def by blast
qed

section \<open>The contract of the claim store\<close>

text \<open>The records the log accepts for a set of claims.\<close>

definition lifecycle_put :: "(string \<rightharpoonup> ClaimContract) \<Rightarrow> ClaimWalOperation \<Rightarrow> ClaimContract \<Rightarrow> bool" where
  "lifecycle_put m oper c \<longleftrightarrow>
     csr_value (cc_status c) \<in>
       (case oper of WopAcquire \<Rightarrow> {Active} | WopHeartbeat \<Rightarrow> {Active} | WopRelease \<Rightarrow> {Released}
        | WopHandoffRecorded \<Rightarrow> {HandoffRecorded} | WopReconcileStatus \<Rightarrow> {Stale, Expired, HandoffRequired}) \<and>
     (oper = WopAcquire \<or>
      (\<exists>c0. m (cc_id c) = Some c0 \<and> claimant_agent_id (cc_claim c0) = claimant_agent_id (cc_claim c) \<and>
        csr_value (cc_status c0) \<in>
          (if oper = WopHandoffRecorded then {Active, Stale, HandoffRequired} else {Active, Stale})))"

text \<open>One engine decision on an existing claim, by the operation that logs it.\<close>

definition op_step :: "ClaimWalOperation \<Rightarrow> ClaimContract \<Rightarrow> ClaimContract \<Rightarrow> bool" where
  "op_step oper c0 c \<longleftrightarrow>
     (oper = WopHeartbeat \<and> (\<exists>a now. heartbeat c0 a now = Accepted c)) \<or>
     (oper = WopRelease \<and> (\<exists>a now. release c0 a now = Accepted c)) \<or>
     (oper = WopHandoffRecorded \<and> (\<exists>req now. record_handoff c0 req now = Accepted c)) \<or>
     (oper = WopReconcileStatus \<and> (\<exists>now tr. reconcile_claim c0 now = Some tr \<and> c = crt_updated tr))"

lemma op_step_claim_step: "op_step oper c0 c \<Longrightarrow> claim_step c0 c"
  by (auto simp: op_step_def intro: claim_step.intros)

lemma op_step_lifecycle_put:
  assumes "op_step oper c0 c" "m (cc_id c0) = Some c0"
  shows "lifecycle_put m oper c"
proof -
  have "cc_id c = cc_id c0" "cc_claim c = cc_claim c0"
    using claim_step_same_authority [OF op_step_claim_step [OF assms(1)]] by (simp_all add: same_authority_def)
  with assms show ?thesis
    by (auto simp: op_step_def lifecycle_put_def heartbeat_Accepted release_Accepted record_handoff_Accepted
        reconcile_claim_Some reconciled_transition_def is_live_def)
qed

locale claim_store =
  fixes store_inv :: "'s \<Rightarrow> bool" and claims :: "'s \<Rightarrow> string \<rightharpoonup> ClaimContract"
    and put :: "'s \<Rightarrow> ClaimWalOperation \<Rightarrow> ClaimContract \<Rightarrow> string \<Rightarrow> 's option"
  assumes put_inv: "store_inv s \<Longrightarrow> lifecycle_put (claims s) oper c \<Longrightarrow> put s oper c t = Some s' \<Longrightarrow> store_inv s'"
    and claims_put: "store_inv s \<Longrightarrow> lifecycle_put (claims s) oper c \<Longrightarrow> put s oper c t = Some s' \<Longrightarrow>
      claims s' = (claims s)(cc_id c \<mapsto> c)"
begin

lemma put_acquired:
  assumes s: "store_inv s" "bus_safe lower (claims s)"
    and existing: "set existing = ran (claims s)"
    and acq: "acquire lower existing req now = Accepted c" and put: "put s WopAcquire c t = Some s'"
  shows "store_inv s'" "bus_safe lower (claims s')" "claims s' = (claims s)(cc_id c \<mapsto> c)"
    "claims s (cc_id c) = Some d \<Longrightarrow> \<not> open_claim d"
proof -
  obtain e where c: "c = acquired_claim req now e" and free: "acquirable lower existing req now"
    using acq by (auto simp: acquire_Accepted_iff)
  have lp: "lifecycle_put (claims s) WopAcquire c" by (simp add: lifecycle_put_def c)
  show "store_inv s'" using s(1) lp put by (rule put_inv)
  show upd: "claims s' = (claims s)(cc_id c \<mapsto> c)" using s(1) lp put by (rule claims_put)
  have block: "\<not> claim_holds_scope x (rq_scope_kind req) (rq_scope_id req) \<and>
      \<not> paths_overlap lower (rq_paths req) (cs_paths (cc_scope x))"
    if "claims s j = Some x" "open_claim x" for j x
  proof -
    have "x \<in> set existing" using that(1) existing by (auto simp: ran_def)
    moreover have "blocks_acquire x now"
      using that bus_safe_made(3) [OF s(2) that(1)] by (simp add: blocks_acquire_open)
    ultimately show ?thesis using free by (simp add: acquirable_def)
  qed
  then have nc: "\<not> conflicting lower c x" if "claims s j = Some x" "open_claim x" for j x
    using block [OF that] by (auto simp: conflicting_def c claim_holds_scope_def)
  have can: "canonical_id c = cc_id c" "handoff_required (expiry_policy c)" by (simp_all add: canonical_id_def c)
  show "bus_safe lower (claims s')"
    unfolding upd using s(2) can by (rule bus_safe_update) (use nc in blast)
  show "\<not> open_claim d" if "claims s (cc_id c) = Some d"
  proof
    assume o: "open_claim d"
    have "canonical_id d = cc_id c" using s(2) that by (rule bus_safe_made)
    then have "canonical_id d = canonical_id c" using can by simp
    then have "scope_kind_slug (cs_kind (cc_scope d)) @ CHR ''.'' # cs_id (cc_scope d) @ ''.'' @ cs_id (cc_scope d) =
        scope_kind_slug (cs_kind (cc_scope c)) @ CHR ''.'' # cs_id (cc_scope c) @ ''.'' @ cs_id (cc_scope c)"
      by (simp add: canonical_id_def)
    then have "cs_kind (cc_scope d) = cs_kind (cc_scope c) \<and> cs_id (cc_scope d) = cs_id (cc_scope c)"
      by (rule dotted_id_inj)
    with block [OF that o] show False by (simp add: claim_holds_scope_def c)
  qed
qed

lemma put_stepped:
  assumes s: "store_inv s" "bus_safe lower (claims s)"
    and c0: "claims s i = Some c0" and op: "op_step oper c0 c" and put: "put s oper c t = Some s'"
  shows "store_inv s'" "bus_safe lower (claims s')" "claims s' = (claims s)(i \<mapsto> c)"
proof -
  have i: "cc_id c0 = i" "canonical_id c0 = i" "handoff_required (expiry_policy c0)"
    using bus_safe_made [OF s(2) c0] by simp_all
  have auth: "cc_id c = i" "cc_scope c = cc_scope c0" "expiry_policy c = expiry_policy c0"
    using claim_step_same_authority [OF op_step_claim_step [OF op]] i by (simp_all add: same_authority_def)
  have open0: "open_claim c0" using op_step_claim_step [OF op] by (rule claim_step_from_open)
  have lp: "lifecycle_put (claims s) oper c" by (rule op_step_lifecycle_put [OF op]) (simp add: c0 i)
  show "store_inv s'" using s(1) lp put by (rule put_inv)
  show upd: "claims s' = (claims s)(i \<mapsto> c)" using claims_put [OF s(1) lp put] auth by simp
  have "\<not> conflicting lower c x" if "claims s j = Some x" "j \<noteq> cc_id c" "open_claim x" for j x
    using bus_safe_apart [OF s(2) c0 that(1)] that open0 auth conflicting_cong [of c c0] by simp
  then show "bus_safe lower (claims s')"
    unfolding upd using bus_safe_update [OF s(2), of c] auth i by (auto simp: canonical_id_def)
qed

end

section \<open>The log implements the store\<close>

text \<open>
  \<open>env_ok\<close> is what the log relies on of the serialisation library and of the checkpoint
  authority: what was written as JSON reads back, and a refused checkpoint is not a clean end.
\<close>

definition env_ok :: "wal_env \<Rightarrow> bool" where
  "env_ok env \<longleftrightarrow> ckpt_reasons_ok env \<and> (\<forall>payload. json_reads_back env payload)"

definition log_recovery :: "wal_env \<Rightarrow> u8 list \<Rightarrow> ClaimWalRecovery" where
  "log_recovery env bytes = decode_prefix env claim_wal_relative_path bytes"

definition log_claims :: "wal_env \<Rightarrow> u8 list \<Rightarrow> string \<rightharpoonup> ClaimContract" where
  "log_claims env bytes = claims_of (replay_accumulator (log_recovery env bytes))"

text \<open>A log that lifecycle records and at most one torn append produced.\<close>

definition wal_inv :: "wal_env \<Rightarrow> u8 list \<Rightarrow> bool" where
  "wal_inv env bytes \<longleftrightarrow>
     env_ok env \<and> length bytes < 2 ^ 64 \<and>
     stop_reason (log_recovery env bytes) \<in> {CleanEof, TruncatedHeader, TruncatedPayload} \<and>
     rv_checkpoint (log_recovery env bytes) = None \<and>
     list_all status_matches (rv_records (log_recovery env bytes))"

lemma log_recovery_fields [simp]:
  "rv_records (log_recovery env bytes) = ds_records (decode_loop env bytes decode_start)"
  "rv_checkpoint (log_recovery env bytes) = ds_checkpoint (decode_loop env bytes decode_start)"
  "stop_reason (log_recovery env bytes) = ds_stop_reason (decode_loop env bytes decode_start)"
  "last_good_offset (log_recovery env bytes) = ds_offset (decode_loop env bytes decode_start)"
  "original_len (log_recovery env bytes) = length bytes"
  "repaired (log_recovery env bytes) = False"
  by (simp_all add: log_recovery_def decode_prefix_def Let_def)

lemma replay_accumulator_cong:
  "rv_records r = rv_records r' \<Longrightarrow> rv_checkpoint r = rv_checkpoint r' \<Longrightarrow>
     replay_accumulator r = replay_accumulator r'"
  by (simp add: replay_accumulator_def)

lemma wal_inv_empty: "env_ok env \<Longrightarrow> wal_inv env []"
  by (simp add: wal_inv_def decode_loop.simps [of env "[]"] decode_start_def)

lemma log_claims_empty: "log_claims env [] = (\<lambda>_. None)"
  by (simp add: log_claims_def replay_accumulator_def decode_loop.simps [of env "[]"] decode_start_def fun_eq_iff)

lemma recover_False:
  "recover_claim_wal_file env False claim_wal_relative_path bytes False = (bytes, log_recovery env bytes)"
  by (simp add: recover_claim_wal_file_def Let_def log_recovery_def)

text \<open>Recovery with repair keeps the claims of such a log and leaves it appendable.\<close>

lemma recover_inv:
  assumes inv: "wal_inv env bytes"
    and rec: "recover_claim_wal_file env False claim_wal_relative_path bytes True = (bytes', recovery)"
  shows "ensure_recovered_appendable recovery = None" "wal_inv env bytes'"
    "log_claims env bytes' = log_claims env bytes" "stop_reason (log_recovery env bytes') = CleanEof"
    "rv_records recovery = rv_records (log_recovery env bytes)" "rv_checkpoint recovery = None"
proof -
  let ?d = "decode_loop env bytes decode_start"
  have ck: "ckpt_reasons_ok env" and stop: "ds_stop_reason ?d \<in> {CleanEof, TruncatedHeader, TruncatedPayload}"
    using inv by (auto simp: wal_inv_def env_ok_def)
  have early: "ds_stop_reason ?d \<noteq> CleanEof \<Longrightarrow> ds_offset ?d < length bytes"
    using decode_loop_stopped_early [of env bytes decode_start] by (simp add: decode_start_def)
  have recovery: "recovery = (log_recovery env bytes)\<lparr> repaired := repaired recovery \<rparr>"
    "repaired recovery \<or> ds_stop_reason ?d = CleanEof"
    using rec stop early
    by (auto simp: recover_claim_wal_file_def Let_def log_recovery_def [symmetric] is_repairable_stop_reason_def
        split: if_splits)
  show ok: "ensure_recovered_appendable recovery = None"
    by (subst recovery(1)) (use recovery(2) in \<open>auto simp: ensure_recovered_appendable_def\<close>)
  show recs: "rv_records recovery = rv_records (log_recovery env bytes)" "rv_checkpoint recovery = None"
    by (subst recovery(1), use inv in \<open>simp add: wal_inv_def\<close>)+
  note log = recovered_log [OF ck rec ok]
  show "stop_reason (log_recovery env bytes') = CleanEof" using log by simp
  have "length bytes' \<le> length bytes" using log(6) by (rule prefix_length_le)
  then show "wal_inv env bytes'" using inv log recs by (simp add: wal_inv_def)
  show "log_claims env bytes' = log_claims env bytes"
    unfolding log_claims_def using inv log recs
    by (intro arg_cong [where f = claims_of] replay_accumulator_cong) (simp_all add: wal_inv_def)
qed

text \<open>An append of an admissible record puts its claim.\<close>

definition wal_put ::
    "wal_env \<times> u8 list \<Rightarrow> ClaimWalOperation \<Rightarrow> ClaimContract \<Rightarrow> string \<Rightarrow> (wal_env \<times> u8 list) option" where
  "wal_put s oper c recorded_at =
     (case append_claim_wal_record (fst s) False claim_wal_relative_path (snd s) oper c recorded_at of
        (bytes', Inr seq) \<Rightarrow> if length bytes' < 2 ^ 64 then Some (fst s, bytes') else None
      | (bytes', Inl e) \<Rightarrow> None)"

lemma wal_put_Some:
  "wal_put (env, bytes) oper c t = Some s' \<longleftrightarrow>
     (\<exists>bytes' seq. append_claim_wal_record env False claim_wal_relative_path bytes oper c t = (bytes', Inr seq) \<and>
        length bytes' < 2 ^ 64 \<and> s' = (env, bytes'))"
  by (auto simp: wal_put_def split: prod.splits sum.splits)

lemma append_inv:
  assumes inv: "wal_inv env bytes" and lp: "lifecycle_put (log_claims env bytes) oper c"
    and app: "append_claim_wal_record env False claim_wal_relative_path bytes oper c t = (bytes'', Inr seq)"
    and fits: "length bytes'' < 2 ^ 64"
  shows "wal_inv env bytes''" "log_claims env bytes'' = (log_claims env bytes)(cc_id c \<mapsto> c)"
proof -
  have ck: "ckpt_reasons_ok env" and json: "json_reads_back env (wal_payload oper c t)"
    using inv by (auto simp: wal_inv_def env_ok_def)
  obtain bytes' recovery r where rec: "recover_claim_wal_file env False claim_wal_relative_path bytes True = (bytes', recovery)"
    and r: "wr_operation r = oper" "wr_payload r = wal_payload oper c t"
    and dec: "decode_loop env bytes'' decode_start =
      advance (Known r (length bytes'')) (decode_loop env bytes' decode_start)"
    using append_decoded [OF ck app json fits] by metis
  note kept = recover_inv [OF inv rec]
  have claim: "record_claim r = c" using r by (simp add: record_claim_def wal_payload_def)
  have st: "status_matches r"
    using lp r claim by (cases oper) (auto simp: lifecycle_put_def status_matches_def)
  let ?acc = "replay_accumulator (log_recovery env bytes')"
  have pinv: "proj_inv ?acc" using kept(2) by (intro replay_accumulator_inv) (simp add: wal_inv_def)
  have ad: "admits ?acc r"
    using lp kept(3) r claim by (auto simp: admits_claims_of lifecycle_put_def log_claims_def split: option.splits)
  show "wal_inv env bytes''"
    using kept(2,4) st fits by (simp add: wal_inv_def dec advance_def)
  have "replay_accumulator (log_recovery env bytes'') = apply_record r ?acc"
    using kept(2) by (simp add: replay_accumulator_def dec wal_inv_def advance_def)
  then show "log_claims env bytes'' = (log_claims env bytes)(cc_id c \<mapsto> c)"
    using claims_of_apply [OF pinv st] ad kept(3) claim by (simp add: log_claims_def)
qed

interpretation ws: claim_store "\<lambda>(env, bytes). wal_inv env bytes" "\<lambda>(env, bytes). log_claims env bytes" wal_put
proof (unfold_locales, goal_cases)
  case (1 s oper c t s')
  then show ?case by (cases s) (auto simp: wal_put_Some dest: append_inv(1))
next
  case (2 s oper c t s')
  then show ?case by (cases s) (auto simp only: wal_put_Some prod.case dest: append_inv(2))
qed

section \<open>The invariant of the bus\<close>

definition wal_bytes :: "bus \<Rightarrow> u8 list" where
  "wal_bytes b = (case wal_file b of Some bytes \<Rightarrow> bytes | None \<Rightarrow> [])"

definition bus_claims :: "wal_env \<Rightarrow> bus \<Rightarrow> string \<rightharpoonup> ClaimContract" where
  "bus_claims env b = log_claims env (wal_bytes b)"

definition bus_inv :: "(string \<Rightarrow> string) \<Rightarrow> wal_env \<Rightarrow> bus \<Rightarrow> bool" where
  "bus_inv lower env b \<longleftrightarrow>
     wal_inv env (wal_bytes b) \<and> (wal_file b = None \<longrightarrow> claim_cache b = []) \<and>
     bus_safe lower (bus_claims env b)"

definition empty_bus :: bus where
  "empty_bus = \<lparr> wal_file = None, claim_cache = [], handoffs = [] \<rparr>"

lemma empty_bus_inv: "env_ok env \<Longrightarrow> bus_inv lower env empty_bus"
  by (simp add: bus_inv_def empty_bus_def wal_bytes_def bus_claims_def wal_inv_empty log_claims_empty bus_safe_empty)

text \<open>Reading the claims: the list a load returns is the claims of the log, each id once.\<close>

lemma projected_claims:
  assumes "wal_inv env bytes"
  defines "cs \<equiv> pj_claims (project_claim_wal_recovery (log_recovery env bytes))"
  shows "set cs = ran (log_claims env bytes)" "distinct (map cc_id cs)"
proof -
  let ?m = "latest_by_claim_id (replay_accumulator (log_recovery env bytes))"
  have pinv: "proj_inv (replay_accumulator (log_recovery env bytes))"
    using assms(1) by (intro replay_accumulator_inv) (simp add: wal_inv_def)
  then have sorted: "bt_sorted ?m" and key: "\<And>k p. bt_get ?m k = Some p \<Longrightarrow> cc_id (pc_claim_contract p) = k"
    by (simp_all add: proj_inv_def)
  show "set cs = ran (log_claims env bytes)"
    using in_bt_values [OF sorted] by (auto simp: cs_def project_fields log_claims_def claims_of_def ran_def image_iff) blast+
  have "cc_id (pc_claim_contract (snd e)) = fst e" if "e \<in> set ?m" for e
    using that bt_sorted_distinct [OF sorted] by (intro key) (simp add: bt_get_def)
  then have "map cc_id cs = map fst ?m"
    by (simp add: cs_def project_fields bt_values_def)
  then show "distinct (map cc_id cs)" using bt_sorted_distinct [OF sorted] by simp
qed

lemma pj_recovery_project [simp]: "pj_recovery (project_claim_wal_recovery r) = r"
  by (simp add: project_claim_wal_recovery_def Let_def split: prod.splits)

lemma derive_state_inv:
  assumes inv: "wal_inv env bytes"
  obtains bytes' where
    "derive_state_inner env False bytes = (bytes', Inr (project_claim_wal_recovery (log_recovery env bytes')))"
    "wal_inv env bytes'" "log_claims env bytes' = log_claims env bytes"
proof (cases "stop_reason (log_recovery env bytes) = CleanEof")
  case True
  then have "derive_state_inner env False bytes = (bytes, Inr (project_claim_wal_recovery (log_recovery env bytes)))"
    by (simp add: derive_state_inner_def replay_claim_wal_def recover_False)
  then show ?thesis using inv that by blast
next
  case False
  obtain bytes' recovery where
    rec: "recover_claim_wal_file env False claim_wal_relative_path bytes True = (bytes', recovery)"
    by (meson surj_pair)
  have "stop_reason (log_recovery env bytes) \<in> {TruncatedHeader, TruncatedPayload}"
    using inv False by (auto simp: wal_inv_def)
  then have "derive_state_inner env False bytes = (bytes', Inr (project_claim_wal_recovery (log_recovery env bytes')))"
    using False recover_inv(4) [OF inv rec]
    by (auto simp: derive_state_inner_def replay_claim_wal_def recover_False rec)
  then show ?thesis using recover_inv(2,3) [OF inv rec] that by blast
qed

lemma load_claims_inv:
  assumes inv: "bus_inv lower env b"
  obtains b1 cs where "load_claims env False b = (b1, Inr cs)"
    "bus_inv lower env b1" "bus_claims env b1 = bus_claims env b"
    "set cs = ran (bus_claims env b)" "distinct (map cc_id cs)"
    "handoffs b1 = handoffs b" "claim_cache b1 = claim_cache b"
proof (cases "wal_file b")
  case None
  with inv have "load_claims env False b = (b, Inr [])" by (simp add: load_claims_def bus_inv_def)
  moreover have "ran (bus_claims env b) = {}" using None by (simp add: bus_claims_def wal_bytes_def log_claims_empty)
  ultimately show ?thesis using inv that by force
next
  case (Some bytes)
  have "wal_inv env bytes" using inv Some by (simp add: bus_inv_def wal_bytes_def)
  then obtain bytes' where
    d: "derive_state_inner env False bytes = (bytes', Inr (project_claim_wal_recovery (log_recovery env bytes')))"
    and inv': "wal_inv env bytes'" and same: "log_claims env bytes' = log_claims env bytes"
    by (rule derive_state_inv)
  let ?b = "b\<lparr> wal_file := Some bytes' \<rparr>" and ?cs = "pj_claims (project_claim_wal_recovery (log_recovery env bytes'))"
  have "load_claims env False b = (?b, Inr ?cs)" using Some d by (simp add: load_claims_def)
  moreover have claims: "bus_claims env ?b = bus_claims env b"
    using Some same by (simp add: bus_claims_def wal_bytes_def)
  moreover have "bus_inv lower env ?b"
    using inv inv' claims by (simp add: bus_inv_def wal_bytes_def)
  moreover have "set ?cs = ran (bus_claims env b)"
    using projected_claims(1) [OF inv'] same Some by (simp add: bus_claims_def wal_bytes_def)
  ultimately show ?thesis using that projected_claims(2) [OF inv'] by simp
qed

text \<open>Writing a claim: a failing append changes nothing, a successful one is a put of the store.\<close>

lemma append_failed:
  assumes inv: "wal_inv env bytes"
    and app: "append_claim_wal_record env False claim_wal_relative_path bytes oper c t = (bytes', Inl e)"
  shows "wal_inv env bytes'" "log_claims env bytes' = log_claims env bytes"
proof -
  obtain recovery where "recover_claim_wal_file env False claim_wal_relative_path bytes True = (bytes', recovery)"
    using app by (auto simp: append_claim_wal_record_def split: prod.splits option.splits sum.splits)
  then show "wal_inv env bytes'" "log_claims env bytes' = log_claims env bytes"
    using recover_inv(2,3) [OF inv] by simp_all
qed

lemma persist_failed:
  assumes inv: "bus_inv lower env b"
    and p: "persist_claim_mutation env False b oper c t = (b', Inl e)"
  shows "bus_inv lower env b'" "bus_claims env b' = bus_claims env b"
proof -
  obtain bytes' where
    app: "append_claim_wal_record env False claim_wal_relative_path (wal_bytes b) oper c t = (bytes', Inl e)"
    and b': "b' = b\<lparr> wal_file := map_option (\<lambda>_. bytes') (wal_file b) \<rparr>"
    using p by (auto simp: persist_claim_mutation_def wal_bytes_def split: prod.splits sum.splits)
  have "wal_inv env (wal_bytes b)" using inv by (simp add: bus_inv_def)
  note kept = append_failed [OF this app]
  show claims: "bus_claims env b' = bus_claims env b"
    using kept(2) b' by (cases "wal_file b") (simp_all add: bus_claims_def wal_bytes_def)
  then show "bus_inv lower env b'"
    using inv kept(1) b' by (cases "wal_file b") (simp_all add: bus_inv_def wal_bytes_def)
qed

lemma persist_put:
  assumes p: "persist_claim_mutation env False b oper c t = (b', Inr ())" and fits: "length (wal_bytes b') < 2 ^ 64"
  shows "wal_put (env, wal_bytes b) oper c t = Some (env, wal_bytes b')" "wal_file b' \<noteq> None"
  using assms
  by (auto simp: persist_claim_mutation_def wal_put_def save_claim_def wal_bytes_def Let_def
      split: prod.splits sum.splits option.splits)

lemma persist_acquired:
  assumes inv: "bus_inv lower env b" and existing: "set existing = ran (bus_claims env b)"
    and acq: "acquire lower existing req now = Accepted c"
    and p: "persist_claim_mutation env False b WopAcquire c t = (b', Inr ())" and fits: "length (wal_bytes b') < 2 ^ 64"
  shows "bus_inv lower env b'" "bus_claims env b' = (bus_claims env b)(cc_id c \<mapsto> c)"
    "bus_claims env b (cc_id c) = Some d \<Longrightarrow> \<not> open_claim d"
  using ws.put_acquired [where s = "(env, wal_bytes b)" and s' = "(env, wal_bytes b')", OF _ _ _ acq persist_put(1) [OF p fits]]
    inv existing persist_put(2) [OF p fits]
  by (auto simp: bus_inv_def bus_claims_def)

lemma persist_stepped:
  assumes inv: "bus_inv lower env b" and c0: "bus_claims env b i = Some c0" and op: "op_step oper c0 c"
    and p: "persist_claim_mutation env False b oper c t = (b', Inr ())" and fits: "length (wal_bytes b') < 2 ^ 64"
  shows "bus_inv lower env b'" "bus_claims env b' = (bus_claims env b)(i \<mapsto> c)"
  using ws.put_stepped [where s = "(env, wal_bytes b)" and s' = "(env, wal_bytes b')", OF _ _ _ op persist_put(1) [OF p fits]]
    inv c0 persist_put(2) [OF p fits]
  by (auto simp: bus_inv_def bus_claims_def)

section \<open>Every operation keeps the invariant\<close>

definition wal_fits :: "bus \<Rightarrow> bool" where
  "wal_fits b \<longleftrightarrow> length (wal_bytes b) < 2 ^ 64"

lemma resolve_claim_in: "resolve_claim cs r = Some c \<Longrightarrow> c \<in> set cs"
  by (auto simp: resolve_claim_def find_Some_iff split: ClaimRef.splits)

lemma bus_claim_key: "bus_inv lower env b \<Longrightarrow> c \<in> ran (bus_claims env b) \<Longrightarrow> bus_claims env b (cc_id c) = Some c"
  by (auto simp: bus_inv_def ran_def dest: bus_safe_made(1))

lemma persist_step_inv:
  assumes "bus_inv lower env b" "c0 \<in> ran (bus_claims env b)" "op_step oper c0 c"
    "persist_claim_mutation env False b oper c t = (b', r)" "wal_fits b'"
  shows "bus_inv lower env b'"
    "r = Inr () \<Longrightarrow> bus_claims env b' = (bus_claims env b)(cc_id c0 \<mapsto> c)"
    "r = Inl e \<Longrightarrow> bus_claims env b' = bus_claims env b"
proof -
  note failed = persist_failed [OF assms(1)]
    and stepped = persist_stepped [OF assms(1) bus_claim_key [OF assms(1,2)] assms(3)]
  have fits: "length (wal_bytes b') < 2 ^ 64" using assms(5) by (simp add: wal_fits_def)
  show "bus_inv lower env b'"
  proof (cases r)
    case (Inl e)
    show ?thesis by (rule failed(1) [OF assms(4) [unfolded Inl]])
  next
    case (Inr u)
    then have "persist_claim_mutation env False b oper c t = (b', Inr ())" using assms(4) by simp
    then show ?thesis using fits by (rule stepped(1))
  qed
  show "bus_claims env b' = (bus_claims env b)(cc_id c0 \<mapsto> c)" if "r = Inr ()"
    by (rule stepped(2) [OF assms(4) [unfolded that] fits])
  show "bus_claims env b' = bus_claims env b" if "r = Inl e"
    by (rule failed(2) [OF assms(4) [unfolded that]])
qed

lemma bus_inv_handoffs [simp]:
  "bus_inv lower env (b\<lparr> handoffs := h \<rparr>) = bus_inv lower env b"
  "bus_claims env (b\<lparr> handoffs := h \<rparr>) = bus_claims env b"
  by (simp_all add: bus_inv_def bus_claims_def wal_bytes_def)

text \<open>All answers of an operation that ends with a write share its resulting state.\<close>

declare case_unit_Unity [simp]

lemma fst_answer [simp]:
  "fst (case pr of (b, Inl e) \<Rightarrow> (b, f e) | (b, Inr ()) \<Rightarrow> (b, g)) = fst pr"
  unfolding case_unit_Unity by (simp split: prod.split sum.split)

lemma persist_acquire_fst:
  assumes "bus_inv lower env b" "set existing = ran (bus_claims env b)"
    "acquire lower existing req now = Accepted c" "wal_fits (fst (persist_claim_mutation env False b WopAcquire c t))"
  shows "bus_inv lower env (fst (persist_claim_mutation env False b WopAcquire c t))"
proof -
  obtain b' r where p: "persist_claim_mutation env False b WopAcquire c t = (b', r)" by (meson surj_pair)
  then show ?thesis
    using persist_failed(1) [OF assms(1)] persist_acquired(1) [OF assms(1-3)] assms(4)
    by (cases r) (simp_all add: wal_fits_def)
qed

lemma persist_step_fst:
  assumes "bus_inv lower env b" "set existing = ran (bus_claims env b)" "c0 \<in> set existing" "op_step oper c0 c"
    "wal_fits (fst (persist_claim_mutation env False b oper c t))"
  shows "bus_inv lower env (fst (persist_claim_mutation env False b oper c t))"
  using persist_step_inv(1) [OF assms(1) _ assms(4) surjective_pairing] assms by simp

lemma run_acquire_inv:
  assumes inv: "bus_inv lower env b" and fits: "wal_fits (fst (run_acquire lower env False b req now))"
  shows "bus_inv lower env (fst (run_acquire lower env False b req now))"
proof -
  obtain b1 cs where l: "load_claims env False b = (b1, Inr cs)" "bus_inv lower env b1"
    "set cs = ran (bus_claims env b1)"
    using load_claims_inv [OF inv] by metis
  show ?thesis
    using fits inv l persist_acquire_fst [OF l(2,3)]
    by (cases "acquire lower cs req now") (simp_all add: run_acquire_def split: if_splits)
qed

lemma run_heartbeat_inv:
  assumes inv: "bus_inv lower env b" and fits: "wal_fits (fst (run_heartbeat env False b i a now))"
  shows "bus_inv lower env (fst (run_heartbeat env False b i a now))"
proof -
  obtain b1 cs where l: "load_claims env False b = (b1, Inr cs)" "bus_inv lower env b1"
    "set cs = ran (bus_claims env b1)"
    using load_claims_inv [OF inv] by metis
  show ?thesis
  proof (cases "resolve_claim cs (parse_claim_ref i)")
    case (Some c0)
    show ?thesis
    proof (cases "heartbeat c0 a now")
      case (Accepted c)
      then have "op_step WopHeartbeat c0 c" by (auto simp: op_step_def)
      from persist_step_fst [OF l(2,3) resolve_claim_in [OF Some] this] show ?thesis
        using fits l(1) Some Accepted by (simp add: run_heartbeat_def)
    qed (use l Some in \<open>simp add: run_heartbeat_def\<close>)
  qed (use l in \<open>simp add: run_heartbeat_def\<close>)
qed

lemma run_release_inv:
  assumes inv: "bus_inv lower env b" and fits: "wal_fits (fst (run_release env False b i a now))"
  shows "bus_inv lower env (fst (run_release env False b i a now))"
proof -
  obtain b1 cs where l: "load_claims env False b = (b1, Inr cs)" "bus_inv lower env b1"
    "set cs = ran (bus_claims env b1)"
    using load_claims_inv [OF inv] by metis
  show ?thesis
  proof (cases "resolve_claim cs (parse_claim_ref i)")
    case (Some c0)
    show ?thesis
    proof (cases "release c0 a now")
      case (Accepted c)
      then have "op_step WopRelease c0 c" by (auto simp: op_step_def)
      from persist_step_fst [OF l(2,3) resolve_claim_in [OF Some] this] show ?thesis
        using fits l(1) Some Accepted by (simp add: run_release_def)
    qed (use l Some in \<open>simp add: run_release_def\<close>)
  qed (use l in \<open>simp add: run_release_def\<close>)
qed

lemma run_handoff_inv:
  assumes inv: "bus_inv lower env b" and fits: "wal_fits (fst (run_handoff env False b i a summary refs now))"
  shows "bus_inv lower env (fst (run_handoff env False b i a summary refs now))"
proof -
  obtain b1 cs where l: "load_claims env False b = (b1, Inr cs)" "bus_inv lower env b1"
    "set cs = ran (bus_claims env b1)"
    using load_claims_inv [OF inv] by metis
  show ?thesis
  proof (cases "resolve_claim cs (parse_claim_ref i)")
    case (Some c0)
    let ?ref = "handoff_artifact_ref c0 now"
    let ?req = "\<lparr> recorder_agent_id = a, rh_summary = summary, rh_evidence_refs = ?ref # refs \<rparr>"
    show ?thesis
    proof (cases "record_handoff c0 ?req now")
      case (Accepted c)
      then have op: "op_step WopHandoffRecorded c0 c" by (auto simp: op_step_def)
      let ?b = "b1\<lparr> handoffs := bt_insert ?ref (handoff_artifact c0 c a summary refs now) (handoffs b1) \<rparr>"
      have "bus_inv lower env ?b" "set cs = ran (bus_claims env ?b)" using l by simp_all
      from persist_step_fst [OF this resolve_claim_in [OF Some] op] show ?thesis
        using fits l(1) Some Accepted by (simp add: run_handoff_def Let_def)
    qed (use l Some in \<open>simp add: run_handoff_def Let_def\<close>)
  qed (use l in \<open>simp add: run_handoff_def\<close>)
qed

text \<open>
  Reconciliation persists its transitions one after the other; each is a decision about a
  claim that the transitions before it have left alone.
\<close>

lemma reconcile_claim_id: "reconcile_claim c now = Some tr \<Longrightarrow> cc_id (crt_updated tr) = cc_id c"
  by (auto simp: reconcile_claim_Some reconciled_transition_def)

lemma persist_transitions_inv:
  assumes "bus_inv lower env b"
    and "\<And>tr. tr \<in> set trs \<Longrightarrow> \<exists>c0. c0 \<in> ran (bus_claims env b) \<and> reconcile_claim c0 now = Some tr"
    and "distinct (map (\<lambda>tr. cc_id (crt_updated tr)) trs)"
    and "\<And>k. wal_fits (fst (persist_transitions env False b (take k trs)))"
  shows "bus_inv lower env (fst (persist_transitions env False b trs))"
  using assms
proof (induction trs arbitrary: b)
  case (Cons tr trs)
  let ?c = "crt_updated tr" and ?t = "evaluated_at (cc_status (crt_updated tr))"
  obtain c0 where c0: "c0 \<in> ran (bus_claims env b)" "reconcile_claim c0 now = Some tr" using Cons.prems(2) [of tr] by auto
  then have op: "op_step WopReconcileStatus c0 ?c" by (auto simp: op_step_def)
  have id: "cc_id ?c = cc_id c0"
    using claim_step_same_authority [OF op_step_claim_step [OF op]] by (simp add: same_authority_def)
  obtain b' r where p: "persist_claim_mutation env False b WopReconcileStatus ?c ?t = (b', r)" by (meson surj_pair)
  have "wal_fits b'" using Cons.prems(4) [of 1] p by (auto split: sum.splits simp: wal_fits_def)
  note st = persist_step_inv [OF Cons.prems(1) c0(1) op p this]
  show ?case
  proof (cases r)
    case (Inr u)
    have "bus_inv lower env (fst (persist_transitions env False b' trs))"
    proof (rule Cons.IH [OF st(1)])
      show "\<exists>d. d \<in> ran (bus_claims env b') \<and> reconcile_claim d now = Some tr'" if tr': "tr' \<in> set trs" for tr'
      proof -
        obtain d where d: "d \<in> ran (bus_claims env b)" "reconcile_claim d now = Some tr'"
          using Cons.prems(2) [of tr'] tr' by auto
        have "cc_id (crt_updated tr') \<in> (\<lambda>tr. cc_id (crt_updated tr)) ` set trs" using tr' by blast
        then have "cc_id d \<noteq> cc_id c0" using Cons.prems(3) id reconcile_claim_id [OF d(2)] by auto
        then have "bus_claims env b' (cc_id d) = Some d"
          using bus_claim_key [OF Cons.prems(1) d(1)] st(2) Inr by simp
        then show ?thesis using d(2) by (blast intro: ranI)
      qed
      show "wal_fits (fst (persist_transitions env False b' (take k trs)))" for k
        using Cons.prems(4) [of "Suc k"] p Inr by simp
    qed (use Cons.prems(3) in simp)
    with p Inr show ?thesis by simp
  qed (use p st(1) in simp)
qed simp

lemma run_reconcile_once_inv:
  assumes inv: "bus_inv lower env b" and l: "load_claims env False b = (b1, Inr cs)"
    and fits: "\<And>k. wal_fits (fst (persist_transitions env False b1 (take k (crr_transitions (reconcile_claims cs now)))))"
  shows "bus_inv lower env (fst (run_reconcile_once env False b now))"
proof -
  from inv obtain b1' cs' where "load_claims env False b = (b1', Inr cs')" "bus_inv lower env b1'"
    "bus_claims env b1' = bus_claims env b" "set cs' = ran (bus_claims env b)" "distinct (map cc_id cs')"
    by (rule load_claims_inv)
  then have b1: "bus_inv lower env b1" "set cs = ran (bus_claims env b1)" "distinct (map cc_id cs)"
    using l by simp_all
  let ?trs = "crr_transitions (reconcile_claims cs now)"
  have ids: "map (\<lambda>tr. cc_id (crt_updated tr)) ?trs =
      map cc_id (filter (\<lambda>c. reconcile_claim c now \<noteq> None) cs)"
    by (auto simp: reconcile_claims_def map_filter_def reconcile_claim_id)
  have "bus_inv lower env (fst (persist_transitions env False b1 ?trs))"
  proof (rule persist_transitions_inv [OF b1(1) _ _ fits])
    show "distinct (map (\<lambda>tr. cc_id (crt_updated tr)) ?trs)"
      unfolding ids using b1(3) by (rule distinct_map_filter)
    show "\<exists>c0. c0 \<in> ran (bus_claims env b1) \<and> reconcile_claim c0 now = Some tr" if "tr \<in> set ?trs" for tr
    proof -
      obtain c where "c \<in> set cs" "reconcile_claim c now = Some tr"
        using \<open>tr \<in> set ?trs\<close> by (auto simp: reconcile_claims_def map_filter_def)
      then show ?thesis using b1(2) by blast
    qed
  qed
  with l show ?thesis by (simp add: run_reconcile_once_def Let_def)
qed

section \<open>Reachable buses\<close>

text \<open>
  Every way the bus changes: an operation at any time (clocks need not be monotone), a crash
  inside an append, and any rewriting of the YAML cache beside an existing log.
\<close>

inductive bus_reach :: "(string \<Rightarrow> string) \<Rightarrow> wal_env \<Rightarrow> bus \<Rightarrow> bool" for lower env where
  init: "bus_reach lower env empty_bus"
| acquired: "bus_reach lower env b \<Longrightarrow> run_acquire lower env False b req now = (b', answer) \<Longrightarrow>
    wal_fits b' \<Longrightarrow> bus_reach lower env b'"
| heartbeaten: "bus_reach lower env b \<Longrightarrow> run_heartbeat env False b i a now = (b', answer) \<Longrightarrow>
    wal_fits b' \<Longrightarrow> bus_reach lower env b'"
| released: "bus_reach lower env b \<Longrightarrow> run_release env False b i a now = (b', answer) \<Longrightarrow>
    wal_fits b' \<Longrightarrow> bus_reach lower env b'"
| handed_off: "bus_reach lower env b \<Longrightarrow> run_handoff env False b i a summary refs now = (b', answer') \<Longrightarrow>
    wal_fits b' \<Longrightarrow> bus_reach lower env b'"
| reconciled: "bus_reach lower env b \<Longrightarrow> load_claims env False b = (b1, Inr cs) \<Longrightarrow>
    (\<And>k. wal_fits (fst (persist_transitions env False b1 (take k (crr_transitions (reconcile_claims cs now)))))) \<Longrightarrow>
    run_reconcile_once env False b now = (b', report) \<Longrightarrow> bus_reach lower env b'"
| status_read: "bus_reach lower env b \<Longrightarrow> run_status env False b now = (b', status) \<Longrightarrow> bus_reach lower env b'"
| write_checked: "bus_reach lower env b \<Longrightarrow> run_check_write lower env False b writer targets now = (b', verdict) \<Longrightarrow>
    bus_reach lower env b'"
| crashed: "bus_reach lower env b \<Longrightarrow>
    append_claim_wal_record env False claim_wal_relative_path (wal_bytes b) oper c t = (bytes'', Inr seq) \<Longrightarrow>
    recover_claim_wal_file env False claim_wal_relative_path (wal_bytes b) True = (bytes', recovery) \<Longrightarrow>
    length bytes' \<le> k \<Longrightarrow> k < length bytes'' \<Longrightarrow> length bytes'' < 2 ^ 64 \<Longrightarrow>
    bus_reach lower env (b\<lparr> wal_file := Some (take k bytes'') \<rparr>)"
| cache_edited: "bus_reach lower env b \<Longrightarrow> wal_file b \<noteq> None \<Longrightarrow>
    bus_reach lower env (b\<lparr> claim_cache := cache \<rparr>)"

lemma crash_inv:
  assumes inv: "bus_inv lower env b"
    and app: "append_claim_wal_record env False claim_wal_relative_path (wal_bytes b) oper c t = (bytes'', Inr seq)"
    and rec: "recover_claim_wal_file env False claim_wal_relative_path (wal_bytes b) True = (bytes', recovery)"
    and cut: "length bytes' \<le> k" "k < length bytes''" and fits: "length bytes'' < 2 ^ 64"
  shows "bus_inv lower env (b\<lparr> wal_file := Some (take k bytes'') \<rparr>)"
    "bus_claims env (b\<lparr> wal_file := Some (take k bytes'') \<rparr>) = bus_claims env b"
proof -
  have wi: "wal_inv env (wal_bytes b)" and ck: "ckpt_reasons_ok env"
    using inv by (simp_all add: bus_inv_def wal_inv_def env_ok_def)
  obtain u reason where ok: "ensure_recovered_appendable recovery = None" and u: "take k bytes'' = bytes' @ u"
    and st: "decode_loop env (bytes' @ u) (decode_loop env bytes' decode_start) =
      (decode_loop env bytes' decode_start)\<lparr> ds_stop_reason := reason \<rparr>"
    and reason: "if u = [] then reason = CleanEof else reason \<in> {TruncatedHeader, TruncatedPayload}"
    using append_cut [OF ck app rec cut fits] by metis
  note kept = recover_inv [OF wi rec]
  have d: "decode_loop env (take k bytes'') decode_start =
      (decode_loop env bytes' decode_start)\<lparr> ds_stop_reason := reason \<rparr>"
    unfolding u st [symmetric] by (rule decode_loop_extend [OF recovered_log(1) [OF ck rec ok]])
  have "reason \<in> {CleanEof, TruncatedHeader, TruncatedPayload}" using reason by (auto split: if_splits)
  then have wi': "wal_inv env (take k bytes'')" using kept(2) fits by (simp add: wal_inv_def d)
  have "log_claims env (take k bytes'') = log_claims env bytes'"
    unfolding log_claims_def by (intro arg_cong [where f = claims_of] replay_accumulator_cong) (simp_all add: d)
  then show claims: "bus_claims env (b\<lparr> wal_file := Some (take k bytes'') \<rparr>) = bus_claims env b"
    using kept(3) by (simp add: bus_claims_def wal_bytes_def)
  then show "bus_inv lower env (b\<lparr> wal_file := Some (take k bytes'') \<rparr>)"
    using inv wi' by (simp add: bus_inv_def wal_bytes_def)
qed

lemma load_claims_fst_inv: "bus_inv lower env b \<Longrightarrow> bus_inv lower env (fst (load_claims env False b))"
  by (erule load_claims_inv [where b = b]) simp

lemma reads_only_load:
  "fst (run_status env residue b now) = fst (load_claims env residue b)"
  "fst (run_check_write lower env residue b writer targets now) = fst (load_claims env residue b)"
  by (simp_all add: run_status_def run_check_write_def split: prod.split sum.split WriteCheck.split)

lemma bus_reach_inv:
  assumes "bus_reach lower env b" "env_ok env" shows "bus_inv lower env b"
  using assms(1)
proof induction
  case init
  show ?case using assms(2) by (rule empty_bus_inv)
next
  case (acquired b req now b' answer)
  then show ?case using run_acquire_inv [of lower env b req now] by simp
next
  case (heartbeaten b i a now b' answer)
  then show ?case using run_heartbeat_inv [of lower env b i a now] by simp
next
  case (released b i a now b' answer)
  then show ?case using run_release_inv [of lower env b i a now] by simp
next
  case (handed_off b i a summary refs now b' answer')
  then show ?case using run_handoff_inv [of lower env b i a summary refs now] by simp
next
  case (reconciled b b1 cs now b' report)
  then show ?case using run_reconcile_once_inv [OF reconciled.IH reconciled.hyps(2,3)] by simp
next
  case (status_read b now b' status)
  then show ?case using load_claims_fst_inv [of lower env b] reads_only_load(1) [of env False b now] by simp
next
  case (write_checked b writer targets now b' verdict)
  then show ?case
    using load_claims_fst_inv [of lower env b] reads_only_load(2) [of lower env False b writer targets now] by simp
next
  case (crashed b oper c t bytes'' seq bytes' recovery k)
  then show ?case by (intro crash_inv(1))
next
  case (cache_edited b cache)
  then show ?case by (auto simp: bus_inv_def bus_claims_def wal_bytes_def)
qed

section \<open>Progress of a write\<close>

text \<open>
  What a write needs beside an engine that accepts it: room for the sequence number, and a
  payload that serialises within the limits.
\<close>

definition log_room :: "wal_env \<Rightarrow> u8 list \<Rightarrow> ClaimWalOperation \<Rightarrow> ClaimContract \<Rightarrow> string \<Rightarrow> bool" where
  "log_room env bytes oper c t \<longleftrightarrow>
     u64_checked_add (last_observed_seq (log_recovery env bytes)) 1 \<noteq> None \<and>
     (case to_json env (wal_payload oper c t) of None \<Rightarrow> False
      | Some pl \<Rightarrow> length pl \<le> DEFAULT_MAX_PAYLOAD_LEN \<and> length bytes + 28 + length pl < 2 ^ 64)"

lemma append_succeeds:
  assumes inv: "wal_inv env bytes" and room: "log_room env bytes oper c t"
  obtains bytes'' where
    "append_claim_wal_record env False claim_wal_relative_path bytes oper c t =
      (bytes'', Inr (last_observed_seq (log_recovery env bytes) + 1))"
    "length bytes'' < 2 ^ 64" "length bytes'' \<le> length bytes + 28 + length (the (to_json env (wal_payload oper c t)))"
proof -
  obtain bytes' recovery where
    rec: "recover_claim_wal_file env False claim_wal_relative_path bytes True = (bytes', recovery)"
    by (meson surj_pair)
  have ok: "ensure_recovered_appendable recovery = None" by (rule recover_inv(1) [OF inv rec])
  have seq: "last_observed_seq recovery = last_observed_seq (log_recovery env bytes)"
    and len: "length bytes' \<le> length bytes"
    using rec by (auto simp: recover_claim_wal_file_def Let_def log_recovery_def split: if_splits)
  obtain pl where pl: "to_json env (wal_payload oper c t) = Some pl" "length pl \<le> DEFAULT_MAX_PAYLOAD_LEN"
    "length bytes + 28 + length pl < 2 ^ 64"
    using room by (auto simp: log_room_def split: option.splits)
  have "u64_checked_add (last_observed_seq recovery) 1 = Some (last_observed_seq recovery + 1)"
    using room by (auto simp: u64_checked_add_def log_room_def seq split: if_splits)
  then have "append_claim_wal_record env False claim_wal_relative_path bytes oper c t =
      (bytes' @ encode_frame env FLAG_PAYLOAD_JSON (last_observed_seq recovery + 1) (record_type oper) pl,
       Inr (last_observed_seq recovery + 1))"
    using pl(1,2) ok rec
    by (simp add: append_claim_wal_record_def lifecycle_payload_bytes_def encode_record_def
        wal_payload_def DEFAULT_MAX_PAYLOAD_LEN_def)
  then show ?thesis using that seq pl len by simp
qed

lemma log_room_recovered:
  assumes inv: "wal_inv env bytes" and room: "log_room env bytes oper c t"
    and rec: "recover_claim_wal_file env False claim_wal_relative_path bytes True = (bytes', recovery)"
  shows "log_room env bytes' oper c t"
proof -
  have ck: "ckpt_reasons_ok env" using inv by (simp add: wal_inv_def env_ok_def)
  note log = recovered_log [OF ck rec recover_inv(1) [OF inv rec]]
  have "last_observed_seq recovery = last_observed_seq (log_recovery env bytes)"
    using rec by (auto simp: recover_claim_wal_file_def Let_def log_recovery_def split: if_splits)
  then have "last_observed_seq (log_recovery env bytes') = last_observed_seq (log_recovery env bytes)"
    using log(5) by (simp add: log_recovery_def decode_prefix_def Let_def)
  then show ?thesis using room prefix_length_le [OF log(6)] by (auto simp: log_room_def split: option.splits)
qed

lemma load_claims_room:
  assumes inv: "bus_inv lower env b" and load: "load_claims env False b = (b0, Inr cs)"
    and room: "log_room env (wal_bytes b) oper c t"
  shows "log_room env (wal_bytes b0) oper c t"
proof (cases "wal_file b")
  case None
  then show ?thesis using load room by (auto simp: load_claims_def split: if_splits)
next
  case (Some bytes)
  obtain bytes' recovery where
    rec: "recover_claim_wal_file env False claim_wal_relative_path bytes True = (bytes', recovery)"
    by (meson surj_pair)
  have wi: "wal_inv env bytes" and rm: "log_room env bytes oper c t"
    using inv room Some by (simp_all add: bus_inv_def wal_bytes_def)
  have "wal_bytes b0 \<in> {bytes, bytes'}"
    using load Some rec
    by (auto simp: load_claims_def derive_state_inner_def replay_claim_wal_def recover_False wal_bytes_def Let_def
        split: prod.splits if_splits)
  then show ?thesis using rm log_room_recovered [OF wi rm rec] by auto
qed

lemma persist_succeeds:
  assumes inv: "wal_inv env (wal_bytes b)" and room: "log_room env (wal_bytes b) oper c t"
  obtains b' where "persist_claim_mutation env False b oper c t = (b', Inr ())" "wal_fits b'"
    "length (wal_bytes b') \<le> length (wal_bytes b) + 28 + length (the (to_json env (wal_payload oper c t)))"
proof -
  from append_succeeds [OF inv room] obtain bytes'' seq where
    "append_claim_wal_record env False claim_wal_relative_path (wal_bytes b) oper c t = (bytes'', Inr seq)"
    and len: "length bytes'' < 2 ^ 64"
    "length bytes'' \<le> length (wal_bytes b) + 28 + length (the (to_json env (wal_payload oper c t)))" by metis
  then have "persist_claim_mutation env False b oper c t = (save_claim (b\<lparr> wal_file := Some bytes'' \<rparr>) c, Inr ())"
    by (simp add: persist_claim_mutation_def wal_bytes_def Let_def)
  with len show ?thesis using that by (simp add: wal_fits_def wal_bytes_def save_claim_def)
qed

text \<open>An acquisition that the engine accepts goes through, and adds its claim.\<close>

lemma run_acquire_accepted:
  assumes inv: "bus_inv lower env b" and load: "load_claims env False b = (b0, Inr cs)"
    and name: "\<not> is_reserved_claim_prefix (rq_scope_id req)"
    and acq: "acquire lower cs req now = Accepted c"
    and room: "log_room env (wal_bytes b) WopAcquire c (acquired_at (cc_lease c))"
  obtains b' where "run_acquire lower env False b req now = (b', CliOk (from_contract c))"
    "wal_fits b'" "bus_inv lower env b'" "bus_claims env b' = (bus_claims env b)(cc_id c \<mapsto> c)"
proof -
  from inv obtain b1 cs' where l: "load_claims env False b = (b1, Inr cs')" "bus_inv lower env b1"
    "bus_claims env b1 = bus_claims env b" "set cs' = ran (bus_claims env b)"
    by (rule load_claims_inv)
  then have eq: "b1 = b0" "cs' = cs" using load by simp_all
  have "wal_inv env (wal_bytes b0)" using l(2) eq by (simp add: bus_inv_def)
  then obtain b' where p: "persist_claim_mutation env False b0 WopAcquire c (acquired_at (cc_lease c)) = (b', Inr ())"
    "wal_fits b'"
    by (rule persist_succeeds [OF _ load_claims_room [OF inv load room]])
  have "bus_inv lower env b0" "set cs = ran (bus_claims env b0)" using l eq by simp_all
  note stored = persist_acquired [OF this acq p(1) p(2) [unfolded wal_fits_def]]
  have "run_acquire lower env False b req now = (b', CliOk (from_contract c))"
    using load name acq p(1) by (simp add: run_acquire_def)
  then show ?thesis using that p(2) stored(1,2) l(3) eq by simp
qed

end
