(* ===== verification/Bus_Properties.thy ===== *)
theory Bus_Properties
  imports Bus_Safety
begin

text \<open>
  The properties of the coordination bus over its reachable states, and a concrete bus with the
  claims of two agents on which they are instantiated.
\<close>

section \<open>Two agents on a bus\<close>

abbreviation alice_request :: AcquireRequest where
  "alice_request \<equiv> sample_request ''alice'' ''S1'' ''src''"

abbreviation bob_request :: AcquireRequest where
  "bob_request \<equiv> sample_request ''bob'' ''S2'' ''docs''"

definition sample_payload :: "AcquireRequest \<Rightarrow> ClaimWalPayload" where
  "sample_payload req = wal_payload WopAcquire (acquired_claim req 0 60) (unix_to_rfc3339 0)"

definition sample_bus_env :: wal_env where
  "sample_bus_env =
     \<lparr> crc32c = (\<lambda>_. 0),
       to_json = (\<lambda>p. if p = sample_payload alice_request then Some [1]
                      else if p = sample_payload bob_request then Some [2] else None),
       from_json = (\<lambda>bs. if bs = [1] then Some (sample_payload alice_request)
                         else if bs = [2] then Some (sample_payload bob_request) else None),
       ckpt_from_json = (\<lambda>_. None), ckpt_canonical = (\<lambda>_. None), ckpt_authority = None \<rparr>"

definition sample_bus1 :: bus where
  "sample_bus1 = fst (run_acquire to_ascii_lowercase sample_bus_env False empty_bus alice_request 0)"

definition sample_bus2 :: bus where
  "sample_bus2 = fst (run_acquire to_ascii_lowercase sample_bus_env False sample_bus1 bob_request 0)"

lemma sample_bus_env_ok: "env_ok sample_bus_env"
  by (simp add: env_ok_def ckpt_reasons_ok_def json_reads_back_def sample_bus_env_def)

lemma sample_run_acquire:
  assumes "bus_inv lower sample_bus_env b" "load_claims sample_bus_env False b = (b0, Inr cs)"
    and "acquire lower cs (sample_request a i p) 0 = Accepted c" "starts_with i ''claim.'' = False"
    and "to_json sample_bus_env (wal_payload WopAcquire c (acquired_at (cc_lease c))) = Some [n]"
    and "u64_checked_add (last_observed_seq (log_recovery sample_bus_env (wal_bytes b))) 1 \<noteq> None"
    and "length (wal_bytes b) < 1000"
  shows "\<exists>b'. run_acquire lower sample_bus_env False b (sample_request a i p) 0 = (b', CliOk (from_contract c)) \<and>
    wal_fits b' \<and> bus_inv lower sample_bus_env b' \<and>
    bus_claims sample_bus_env b' = (bus_claims sample_bus_env b)(cc_id c \<mapsto> c)"
proof -
  have "log_room sample_bus_env (wal_bytes b) WopAcquire c (acquired_at (cc_lease c))"
    using assms(5-) by (simp add: log_room_def DEFAULT_MAX_PAYLOAD_LEN_def)
  moreover have "\<not> is_reserved_claim_prefix (rq_scope_id (sample_request a i p))"
    using assms(4) by (simp add: is_reserved_claim_prefix_def sample_request_def)
  ultimately show ?thesis using run_acquire_accepted [OF assms(1,2) _ assms(3)] by metis
qed

abbreviation alice_claim :: ClaimContract where
  "alice_claim \<equiv> acquired_claim alice_request 0 60"

abbreviation bob_claim :: ClaimContract where
  "bob_claim \<equiv> acquired_claim bob_request 0 60"

lemma sample_request_fields [simp]:
  "rq_scope_kind (sample_request a i p) = SkStory" "rq_scope_id (sample_request a i p) = i"
  "rq_agent_id (sample_request a i p) = a" "rq_paths (sample_request a i p) = [p]"
  "rq_ttl_seconds (sample_request a i p) = 60"
  by (simp_all add: sample_request_def)

lemma sample_paths_apart: "\<not> repo_paths_overlap to_ascii_lowercase ''docs'' ''src''"
  by code_simp

lemma sample_decisions:
  "acquire to_ascii_lowercase [] alice_request 0 = Accepted alice_claim"
  "acquire to_ascii_lowercase [alice_claim] bob_request 0 = Accepted bob_claim"
  by (simp_all add: acquire_Accepted_iff acquirable_def claim_holds_scope_def paths_overlap_def
      sample_paths_apart checked_lease_expiry_Inr i64_max_def i64_range_def i64_min_def)

lemma sample_claim_time: "acquired_at (cc_lease (acquired_claim req now e)) = unix_to_rfc3339 now"
  by (simp add: acquired_claim_def Let_def)

lemma sample_json:
  "to_json sample_bus_env (wal_payload WopAcquire alice_claim (unix_to_rfc3339 0)) = Some [1]"
  "to_json sample_bus_env (wal_payload WopAcquire bob_claim (unix_to_rfc3339 0)) = Some [2]"
  "from_json sample_bus_env [1] = Some (wal_payload WopAcquire alice_claim (unix_to_rfc3339 0))"
  by (simp_all add: sample_bus_env_def sample_payload_def wal_payload_def sample_request_def acquired_claim_def Let_def)

lemma sample_recover_empty:
  "recover_claim_wal_file sample_bus_env False claim_wal_relative_path [] True = ([], log_recovery sample_bus_env [])"
  by (simp add: recover_claim_wal_file_def log_recovery_def decode_prefix_def Let_def decode_loop_done decode_start_def)

lemma sample_append_empty:
  "append_claim_wal_record sample_bus_env False claim_wal_relative_path [] WopAcquire alice_claim
      (unix_to_rfc3339 0) = (encode_frame sample_bus_env FLAG_PAYLOAD_JSON 1 (record_type WopAcquire) [1], Inr 1)"
proof -
  have "last_observed_seq (log_recovery sample_bus_env []) = 0"
    "stop_reason (log_recovery sample_bus_env []) = CleanEof"
    by (simp_all add: log_recovery_def decode_prefix_def Let_def decode_loop_done decode_start_def)
  then show ?thesis
    using sample_json(1) [unfolded wal_payload_def]
    by (simp add: append_claim_wal_record_def sample_recover_empty ensure_recovered_appendable_def
        u64_checked_add_def lifecycle_payload_bytes_def encode_record_def DEFAULT_MAX_PAYLOAD_LEN_def)
qed

lemma sample_bus1:
  "run_acquire to_ascii_lowercase sample_bus_env False empty_bus alice_request 0 =
     (sample_bus1, CliOk (from_contract alice_claim))"
  "wal_bytes sample_bus1 = encode_frame sample_bus_env FLAG_PAYLOAD_JSON 1 (record_type WopAcquire) [1]"
proof -
  have load: "load_claims sample_bus_env False empty_bus = (empty_bus, Inr [])"
    by (simp add: load_claims_def empty_bus_def)
  note app = sample_append_empty
  have wal_file: "wal_file empty_bus = None" by (simp add: empty_bus_def)
  have res: "\<not> is_reserved_claim_prefix ''S1''" by code_simp
  show "run_acquire to_ascii_lowercase sample_bus_env False empty_bus alice_request 0 =
     (sample_bus1, CliOk (from_contract alice_claim))"
    "wal_bytes sample_bus1 = encode_frame sample_bus_env FLAG_PAYLOAD_JSON 1 (record_type WopAcquire) [1]"
    using app by (simp_all add: sample_bus1_def run_acquire_def load res sample_decisions sample_claim_time persist_claim_mutation_def
        wal_file save_claim_def wal_bytes_def)
qed

lemma sample_bus_reach1: "bus_reach to_ascii_lowercase sample_bus_env sample_bus1"
  by (rule bus_reach.acquired [OF bus_reach.init sample_bus1(1)]) (simp add: wal_fits_def sample_bus1(2))

lemma sample_bus1_claims:
  "bus_inv to_ascii_lowercase sample_bus_env sample_bus1"
  "bus_claims sample_bus_env sample_bus1 = [cc_id alice_claim \<mapsto> alice_claim]"
  "\<exists>b. load_claims sample_bus_env False sample_bus1 = (b, Inr [alice_claim])"
  "last_observed_seq (log_recovery sample_bus_env (wal_bytes sample_bus1)) = 1"
proof -
  show inv: "bus_inv to_ascii_lowercase sample_bus_env sample_bus1"
    using sample_bus_reach1 sample_bus_env_ok by (rule bus_reach_inv)
  have "frame_ok FLAG_PAYLOAD_JSON [1]" by (simp add: frame_ok_def wal_consts)
  then have d: "decode_loop sample_bus_env (wal_bytes sample_bus1) decode_start =
     advance (Known \<lparr> wr_seq = 1, wr_operation = WopAcquire,
       wr_payload = wal_payload WopAcquire alice_claim (unix_to_rfc3339 0), wr_offset = 0, wr_record_len = 29 \<rparr> 29)
       decode_start"
    using decode_loop_appended [of decode_start "[]" 1 "[1]" sample_bus_env WopAcquire] sample_json(3) sample_bus1(2)
    by (simp add: decode_start_def)
  then show "last_observed_seq (log_recovery sample_bus_env (wal_bytes sample_bus1)) = 1"
    by (simp add: log_recovery_def decode_prefix_def advance_def)
  have start: "ds_records decode_start = []" "ds_checkpoint decode_start = None" by (simp_all add: decode_start_def)
  show claims: "bus_claims sample_bus_env sample_bus1 = [cc_id alice_claim \<mapsto> alice_claim]"
    using d by (simp add: bus_claims_def log_claims_def replay_accumulator_def advance_def start
        claims_of_apply proj_inv_default status_matches_def record_claim_def wal_payload_def admits_claims_of fun_eq_iff)
  from inv obtain b cs where l: "load_claims sample_bus_env False sample_bus1 = (b, Inr cs)"
    "set cs = {alice_claim}" "distinct (map cc_id cs)"
    by (rule load_claims_inv) (simp add: claims)
  then have "cs = [alice_claim]"
    by (cases cs; cases "tl cs") auto
  with l(1) show "\<exists>b. load_claims sample_bus_env False sample_bus1 = (b, Inr [alice_claim])" by blast
qed

lemma sample_bus2:
  "run_acquire to_ascii_lowercase sample_bus_env False sample_bus1 bob_request 0 =
     (sample_bus2, CliOk (from_contract bob_claim))"
  "wal_fits sample_bus2" "bus_reach to_ascii_lowercase sample_bus_env sample_bus2"
  "bus_claims sample_bus_env sample_bus2 = [cc_id alice_claim \<mapsto> alice_claim, cc_id bob_claim \<mapsto> bob_claim]"
proof -
  obtain b where l: "load_claims sample_bus_env False sample_bus1 = (b, Inr [alice_claim])"
    using sample_bus1_claims(3) ..
  have len: "length (wal_bytes sample_bus1) = 29" by (simp add: sample_bus1(2))
  have n: "starts_with ''S2'' ''claim.'' = False" by code_simp
  have "\<exists>b'. run_acquire to_ascii_lowercase sample_bus_env False sample_bus1 bob_request 0 =
      (b', CliOk (from_contract bob_claim)) \<and> wal_fits b' \<and> bus_inv to_ascii_lowercase sample_bus_env b' \<and>
    bus_claims sample_bus_env b' = (bus_claims sample_bus_env sample_bus1)(cc_id bob_claim \<mapsto> bob_claim)"
    by (rule sample_run_acquire [OF sample_bus1_claims(1) l sample_decisions(2) n])
      (use len in \<open>simp_all add: sample_claim_time sample_json sample_bus1_claims(4) u64_checked_add_def\<close>)
  then show r: "run_acquire to_ascii_lowercase sample_bus_env False sample_bus1 bob_request 0 =
     (sample_bus2, CliOk (from_contract bob_claim))" and f: "wal_fits sample_bus2"
    and "bus_claims sample_bus_env sample_bus2 = [cc_id alice_claim \<mapsto> alice_claim, cc_id bob_claim \<mapsto> bob_claim]"
    by (auto simp: sample_bus2_def sample_bus1_claims(2))
  show "bus_reach to_ascii_lowercase sample_bus_env sample_bus2"
    by (rule bus_reach.acquired [OF sample_bus_reach1 r f])
qed

lemma sample_live: "is_live alice_claim 0"
proof -
  have "rfc3339_to_unix (unix_to_rfc3339 60) = Some 60"
    by (rule rfc3339_round_trip_range) (simp add: representable_def)
  then show ?thesis by (simp add: is_live_def is_expired_def acquired_claim_def Let_def)
qed

lemma sample_covered:
  "scope_covers_any to_ascii_lowercase alice_claim (normalize_segments to_ascii_lowercase ''src'')"
  "\<not> escapes_repo_root (normalize_segments to_ascii_lowercase ''src'')"
proof -
  have "claim_path_covers to_ascii_lowercase ''src'' (normalize_segments to_ascii_lowercase ''src'')" by code_simp
  then show "scope_covers_any to_ascii_lowercase alice_claim (normalize_segments to_ascii_lowercase ''src'')"
    by (simp add: scope_covers_any_def)
  show "\<not> escapes_repo_root (normalize_segments to_ascii_lowercase ''src'')" by code_simp
qed

lemma sample_write_allowed:
  "\<exists>b1 p1. run_check_write to_ascii_lowercase sample_bus_env False sample_bus1 ''alice'' [''src''] 0 = (b1, Inr p1) \<and>
     wcp_allowed p1"
proof -
  obtain b0 where l: "load_claims sample_bus_env False sample_bus1 = (b0, Inr [alice_claim])"
    using sample_bus1_claims(3) ..
  have g: "governs to_ascii_lowercase 0 (normalize_segments to_ascii_lowercase ''src'') alice_claim"
    using sample_covered sample_live by (simp add: governs_def)
  have "check_write_against_claims to_ascii_lowercase [''src''] ''alice'' [alice_claim] 0 = WcOk [''src''] []"
    using g by (simp add: check_write_against_claims_def check_write_Ok_iff owned_by_def)
  then show ?thesis by (simp add: run_check_write_def l)
qed

section \<open>Properties of the bus\<close>

lemma allowed_target:
  assumes load: "load_claims env residue b = (b0, Inr cs)"
    and run: "run_check_write lower env residue b w ts now = (b1, Inr p)" "wcp_allowed p" and t: "t \<in> set ts"
  obtains c where "c \<in> set cs" "governs lower now (normalize_segments lower t) c" "claimant_agent_id (cc_claim c) = w"
proof -
  obtain g where ok: "check_write_against_claims_internal lower ts None w cs now = WcOk g []"
  proof (cases "check_write_against_claims_internal lower ts None w cs now")
    case (WcOk g u)
    then have "p = \<lparr> wcp_writer = w, wcp_allowed = (u = []), wcp_governed_by_self = g, wcp_ungoverned = u, wcp_blocks = [] \<rparr>"
      using run(1) by (simp add: run_check_write_def check_write_against_claims_def load)
    then show ?thesis using run(2) WcOk that by simp
  next
    case (WcBlocked bs)
    then have "\<not> wcp_allowed p" using run(1) by (auto simp add: run_check_write_def check_write_against_claims_def load)
    then show ?thesis using run(2) by simp
  qed
  then have "filter (\<lambda>t. \<forall>c\<in>set cs. \<not> governs lower now (normalize_segments lower t) c) ts = []"
    unfolding check_write_Ok_iff by simp
  then obtain c where c: "c \<in> set cs" "governs lower now (normalize_segments lower t) c"
    using t by (auto simp: filter_empty_conv)
  then have "owned_by None w c" using ok t unfolding check_write_Ok_iff by blast
  with c show ?thesis using that by (simp add: owned_by_def)
qed

lemma loaded:
  assumes "bus_inv lower env b" "load_claims env False b = (b0, Inr cs)"
  shows "bus_inv lower env b0" "bus_claims env b0 = bus_claims env b" "set cs = ran (bus_claims env b0)"
    "distinct (map cc_id cs)"
proof -
  from assms(1) obtain b1 cs1 where "load_claims env False b = (b1, Inr cs1)" "bus_inv lower env b1"
    "bus_claims env b1 = bus_claims env b" "set cs1 = ran (bus_claims env b)" "distinct (map cc_id cs1)"
    by (rule load_claims_inv)
  with assms(2) show "bus_inv lower env b0" "bus_claims env b0 = bus_claims env b" "set cs = ran (bus_claims env b0)"
    "distinct (map cc_id cs)" by simp_all
qed

lemma run_acquire_Ok:
  assumes load: "load_claims env residue b = (b0, Inr cs)"
    and run: "run_acquire lower env residue b req now = (b', CliOk res)"
  obtains c where "acquire lower cs req now = Accepted c" "res = from_contract c"
    "persist_claim_mutation env residue b0 WopAcquire c (acquired_at (cc_lease c)) = (b', Inr ())"
proof (cases "acquire lower cs req now")
  case (Accepted c)
  obtain b2 r where p: "persist_claim_mutation env residue b0 WopAcquire c (acquired_at (cc_lease c)) = (b2, r)"
    by (meson surj_pair)
  then show ?thesis using that Accepted run load by (cases r) (auto simp: run_acquire_def split: if_splits)
next
  case (Rejected reason)
  then show ?thesis using run load by (auto simp: run_acquire_def split: if_splits)
qed



text \<open>
  C14. Effect of a successful acquire: the claim it reports belongs to the requesting agent,
  scope and paths, the next load returns it beside every other claim unchanged, and the claim
  it replaced, if the scope had one, was closed (released, expired or handed off).
\<close>

theorem run_acquire_effect:
  assumes reach: "bus_reach lower env b" "env_ok env" and load: "load_claims env False b = (b0, Inr cs)"
    and run: "run_acquire lower env False b req now = (b', CliOk res)" and fits: "wal_fits b'"
  shows "\<exists>c b1 cs'. load_claims env False b' = (b1, Inr cs') \<and> res = from_contract c \<and>
    claimant_agent_id (cc_claim c) = rq_agent_id req \<and>
    claim_holds_scope c (rq_scope_kind req) (rq_scope_id req) \<and> cs_paths (cc_scope c) = rq_paths req \<and>
    set cs' = insert c {d \<in> set cs. cc_id d \<noteq> cc_id c} \<and>
    (\<forall>d\<in>set cs. cc_id d = cc_id c \<longrightarrow> \<not> open_claim d)"
proof -
  have inv: "bus_inv lower env b" using reach by (rule bus_reach_inv)
  note l = loaded [OF inv load]
  obtain c where c: "acquire lower cs req now = Accepted c" "res = from_contract c"
    "persist_claim_mutation env False b0 WopAcquire c (acquired_at (cc_lease c)) = (b', Inr ())"
    using run_acquire_Ok [OF load run] .
  note stored = persist_acquired [OF l(1,3) c(1,3) fits [unfolded wal_fits_def]]
  from stored(1) obtain b1 cs' where l': "load_claims env False b' = (b1, Inr cs')" "set cs' = ran (bus_claims env b')"
    by (rule load_claims_inv)
  have key: "bus_claims env b0 (cc_id d) = Some d" if "d \<in> set cs" for d
    using bus_claim_key [OF l(1)] that l(3) by simp
  have "d \<in> ran (bus_claims env b') \<longleftrightarrow> d = c \<or> d \<in> set cs \<and> cc_id d \<noteq> cc_id c" for d
  proof -
    have "d \<in> ran (bus_claims env b') \<longleftrightarrow> bus_claims env b' (cc_id d) = Some d"
      using bus_claim_key [OF stored(1)] by (auto intro: ranI)
    also have "\<dots> \<longleftrightarrow> d = c \<or> cc_id d \<noteq> cc_id c \<and> bus_claims env b0 (cc_id d) = Some d"
      by (auto simp: stored(2))
    also have "\<dots> \<longleftrightarrow> d = c \<or> d \<in> set cs \<and> cc_id d \<noteq> cc_id c"
      using key l(3) by (auto intro: ranI)
    finally show ?thesis .
  qed
  then have "set cs' = insert c {d \<in> set cs. cc_id d \<noteq> cc_id c}" unfolding l'(2) by blast
  moreover have "\<not> open_claim d" if "d \<in> set cs" "cc_id d = cc_id c" for d
    using stored(3) [of d] key [OF that(1)] that(2) by simp
  moreover obtain e where "c = acquired_claim req now e" using c(1) by (auto simp: acquire_Accepted_iff)
  ultimately show ?thesis using l'(1) c(2) by (auto simp: claim_holds_scope_def)
qed

theorem run_acquire_effect_witness:
  "\<exists>b1 cs'. load_claims sample_bus_env False sample_bus2 = (b1, Inr cs') \<and> card (set cs') = 2"
proof -
  obtain b0 where l: "load_claims sample_bus_env False sample_bus1 = (b0, Inr [alice_claim])"
    using sample_bus1_claims(3) ..
  from run_acquire_effect [OF sample_bus_reach1 sample_bus_env_ok l sample_bus2(1,2)] obtain c b1 cs' where
    r: "load_claims sample_bus_env False sample_bus2 = (b1, Inr cs')" "from_contract bob_claim = from_contract c"
    "set cs' = insert c {d \<in> set [alice_claim]. cc_id d \<noteq> cc_id c}" by blast
  have "res_claim_id (from_contract bob_claim) = res_claim_id (from_contract c)" using r(2) by simp
  then have "cc_id c = cc_id bob_claim" by (simp add: from_contract_def)
  then have "{d \<in> set [alice_claim]. cc_id d \<noteq> cc_id c} = {alice_claim}" "c \<noteq> alice_claim" by auto
  with r show ?thesis by auto
qed



text \<open>
  C15. Durability across a crash: when the process stops anywhere inside the bytes of an append,
  the next load succeeds and returns the same claims as a load before that append.
\<close>

theorem crash_keeps_claims:
  assumes reach: "bus_reach lower env b" "env_ok env"
    and app: "append_claim_wal_record env False claim_wal_relative_path (wal_bytes b) oper c t = (bytes'', Inr seq)"
    and rec: "recover_claim_wal_file env False claim_wal_relative_path (wal_bytes b) True = (bytes', recovery)"
    and cut: "length bytes' \<le> k" "k < length bytes''" "length bytes'' < 2 ^ 64"
  shows "\<exists>b0 cs b1 cs'. load_claims env False b = (b0, Inr cs) \<and>
    load_claims env False (b\<lparr> wal_file := Some (take k bytes'') \<rparr>) = (b1, Inr cs') \<and> set cs' = set cs"
proof -
  have inv: "bus_inv lower env b" using reach by (rule bus_reach_inv)
  note cr = crash_inv [OF inv app rec cut]
  from inv obtain b0 cs where "load_claims env False b = (b0, Inr cs)" "set cs = ran (bus_claims env b)"
    by (rule load_claims_inv)
  moreover from cr(1) obtain b1 cs' where
    "load_claims env False (b\<lparr> wal_file := Some (take k bytes'') \<rparr>) = (b1, Inr cs')"
    "set cs' = ran (bus_claims env (b\<lparr> wal_file := Some (take k bytes'') \<rparr>))"
    by (rule load_claims_inv)
  ultimately show ?thesis using cr(2) by simp
qed

theorem crash_keeps_claims_witness:
  "\<exists>bytes b1. append_claim_wal_record sample_bus_env False claim_wal_relative_path [] WopAcquire alice_claim
       (unix_to_rfc3339 0) = (bytes, Inr 1) \<and>
     load_claims sample_bus_env False (empty_bus\<lparr> wal_file := Some (take 20 bytes) \<rparr>) = (b1, Inr [])"
proof -
  have w: "wal_bytes empty_bus = []" by (simp add: wal_bytes_def empty_bus_def)
  have rec: "recover_claim_wal_file sample_bus_env False claim_wal_relative_path [] True = ([], log_recovery sample_bus_env [])"
    by (rule sample_recover_empty)
  note app = sample_append_empty
  have "append_claim_wal_record sample_bus_env False claim_wal_relative_path (wal_bytes empty_bus) WopAcquire
      alice_claim (unix_to_rfc3339 0) = (encode_frame sample_bus_env FLAG_PAYLOAD_JSON 1 (record_type WopAcquire) [1], Inr 1)"
    "recover_claim_wal_file sample_bus_env False claim_wal_relative_path (wal_bytes empty_bus) True =
      ([], log_recovery sample_bus_env [])"
    using app rec by (simp_all add: w)
  from crash_keeps_claims [where k = 20, OF bus_reach.init sample_bus_env_ok this]
  obtain b0 cs b1 cs' where "load_claims sample_bus_env False empty_bus = (b0, Inr cs)"
    "load_claims sample_bus_env False (empty_bus\<lparr> wal_file := Some (take 20
      (encode_frame sample_bus_env FLAG_PAYLOAD_JSON 1 (record_type WopAcquire) [1])) \<rparr>) = (b1, Inr cs')" "set cs' = set cs"
    by auto
  moreover have "load_claims sample_bus_env False empty_bus = (empty_bus, Inr [])"
    by (simp add: load_claims_def empty_bus_def)
  ultimately show ?thesis using app by simp
qed

text \<open>
  C2. At most one agent is cleared to write a target: if the write gate allows two agents to
  write target lists that share a target, at whatever two times, on the same reachable bus,
  the agents are the same.
\<close>

theorem check_write_single_writer:
  assumes reach: "bus_reach lower env b" "env_ok env"
    and first: "run_check_write lower env False b w1 ts1 now1 = (b1, Inr p1)" "wcp_allowed p1"
    and second: "run_check_write lower env False b w2 ts2 now2 = (b2, Inr p2)" "wcp_allowed p2"
    and shared: "t \<in> set ts1" "t \<in> set ts2"
  shows "w1 = w2"
proof -
  have inv: "bus_inv lower env b" using reach by (rule bus_reach_inv)
  then obtain b0 cs where load: "load_claims env False b = (b0, Inr cs)" by (rule load_claims_inv)
  obtain c where c: "c \<in> set cs" "governs lower now1 (normalize_segments lower t) c" "claimant_agent_id (cc_claim c) = w1"
    using allowed_target [OF load first shared(1)] .
  obtain d where d: "d \<in> set cs" "governs lower now2 (normalize_segments lower t) d" "claimant_agent_id (cc_claim d) = w2"
    using allowed_target [OF load second shared(2)] .
  have "conflicting lower c d"
    using c(2) d(2) governs_paths_overlap [of lower now1 _ c now2 d] by (auto simp: conflicting_def)
  moreover have "open_claim c" "open_claim d"
    using c(2) d(2) by (auto simp: governs_def is_live_def open_claim_def)
  moreover have "bus_claims env b0 (cc_id c) = Some c" "bus_claims env b0 (cc_id d) = Some d" "bus_safe lower (bus_claims env b0)"
    using c(1) d(1) loaded [OF inv load] bus_claim_key [of lower env b0] by (auto simp add: bus_inv_def [of _ _ b0])
  ultimately have "cc_id c = cc_id d" using bus_safe_apart by metis
  then have "c = d" using loaded(4) [OF inv load] c(1) d(1) by (metis distinct_map inj_on_eq_iff)
  with c(3) d(3) show ?thesis by simp
qed

theorem check_write_single_writer_witness:
  "\<exists>b1 p1. run_check_write to_ascii_lowercase sample_bus_env False sample_bus1 ''alice'' [''src''] 0 = (b1, Inr p1) \<and>
     wcp_allowed p1 \<and>
     (\<forall>w b2 p2. run_check_write to_ascii_lowercase sample_bus_env False sample_bus1 w [''src''] 30 = (b2, Inr p2) \<longrightarrow>
        wcp_allowed p2 \<longrightarrow> w = ''alice'')"
proof -
  obtain b1 p1 where f: "run_check_write to_ascii_lowercase sample_bus_env False sample_bus1 ''alice'' [''src''] 0 = (b1, Inr p1)"
    "wcp_allowed p1" using sample_write_allowed by blast
  have "w = ''alice''"
    if "run_check_write to_ascii_lowercase sample_bus_env False sample_bus1 w [''src''] 30 = (b2, Inr p2)" "wcp_allowed p2"
    for w b2 p2
    using check_write_single_writer [OF sample_bus_reach1 sample_bus_env_ok f that, of "''src''"] by simp
  with f show ?thesis by blast
qed

end
