(* ===== verification/Isolation.thy ===== *)
theory Isolation
  imports Civil_Time Repo_Paths
begin

text \<open>
  Worktree isolation of agents: the contracts of
  \<open>src/crates/forge-core-contracts/src/isolation.rs\<close> and the pure engine of
  \<open>src/crates/forge-core-decisions/src/isolation.rs\<close>: validation of a contract, collisions
  between contracts, the lifecycle table, the merge plan and the branch names it suggests.
  \<open>std::path::Path::components\<close> is modelled as on Unix.

  The lemmas relate the engine's own path normalisation to the one of the write guard, show
  what a validated worktree path and branch name look like, and that the suggested names are
  valid.
\<close>

section \<open>Contracts\<close>

datatype IsolationStatus = IsProposed | IsActive | IsMerging | IsMerged | IsAbandoned

datatype MergePolicy = MpRebase | MpMerge | MpSquash

record IsolationContract =
  iso_id :: string
  iso_agent_id :: string
  branch_name :: string
  worktree_path :: RepoPath
  base_ref :: string
  iso_created_at :: string
  iso_status :: IsolationStatus
  merge_policy :: MergePolicy
  iso_claim_id :: "string option"

datatype GitAction =
  GaWorktreeAdd | GaWorktreeRemove | GaCheckout | GaFetch | GaRebase | GaMerge | GaSquash | GaBranchDelete

record MergeStep =
  ms_action :: GitAction
  ms_args :: "string list"
  rationale :: string

record MergePlan =
  mp_isolation_id :: string
  mp_agent_id :: string
  mp_branch_name :: string
  mp_base_ref :: string
  mp_policy :: MergePolicy
  mp_steps :: "MergeStep list"

datatype IsolationError =
  IllegalBranchName string string
| IllegalWorktreePath string string
| DuplicateBranch string string
| DuplicateWorktreePath string string
| ClaimAgentMismatch string string string
| UnparseableCreatedAt string
| EmptyBaseRef
| ShellMetacharInField string string
| EmptyAgentId
| IllegalTransition IsolationStatus IsolationStatus

section \<open>Validators\<close>

definition contains_shell_metachar :: "string \<Rightarrow> bool" where
  "contains_shell_metachar s \<longleftrightarrow>
     list_ex (\<lambda>c. c \<in> set [CHR '';'', CHR ''&'', CHR ''|'', CHR ''$'', CHR 0x60, CHR ''('', CHR '')'',
                        CHR ''<'', CHR ''>'', CHR 0x0A, CHR ''{'', CHR ''}'']) s"

definition shell_metachar_check :: "string \<Rightarrow> string option" where
  "shell_metachar_check s =
     (if contains_shell_metachar s then Some ''contains a shell metacharacter'' else None)"

fun check_components :: "string \<Rightarrow> string list \<Rightarrow> IsolationError option" where
  "check_components name [] = None"
| "check_components name (component # components) =
     (if component = [] then Some (IllegalBranchName name ''contains empty component'')
      else if ends_with (to_ascii_lowercase component) ''.lock''
      then Some (IllegalBranchName name (''component ends in '' @ [CHR 0x27] @ ''.lock'' @ [CHR 0x27]))
      else check_components name components)"

definition validate_branch_name :: "string \<Rightarrow> IsolationError option" where
  "validate_branch_name name =
     (if is_blank name then Some (IllegalBranchName name ''empty'')
      else if starts_with name ''-'' \<or> starts_with name ''.'' then
        Some (IllegalBranchName name
          (''must not start with '' @ [CHR 0x27] @ ''-'' @ [CHR 0x27] @ '' or '' @ [CHR 0x27] @ ''.'' @ [CHR 0x27]))
      else if contains_str name ''..'' then
        Some (IllegalBranchName name (''contains '' @ [CHR 0x27] @ ''..'' @ [CHR 0x27]))
      else if contains_str name '':'' then
        Some (IllegalBranchName name (''contains '' @ [CHR 0x27] @ '':'' @ [CHR 0x27]))
      else if list_ex char_is_whitespace (utf8_chars name) then
        Some (IllegalBranchName name ''contains whitespace'')
      else if list_ex char_is_control (utf8_chars name) then
        Some (IllegalBranchName name ''contains control character'')
      else
        (case check_components name (split_on (\<lambda>c. c = CHR ''/'') name) of
           Some e \<Rightarrow> Some e
         | None \<Rightarrow>
             (case shell_metachar_check name of
                Some reason \<Rightarrow> Some (IllegalBranchName name reason)
              | None \<Rightarrow> None)))"

text \<open>\<open>Path::components\<close>: empty and inner dot parts vanish, a leading one is the current directory.\<close>

datatype path_component = RootDir | CurDir | ParentDir | NormalComp string

fun component_of :: "string \<Rightarrow> path_component list" where
  "component_of part =
     (if part = [] \<or> part = ''.'' then [] else if part = ''..'' then [ParentDir] else [NormalComp part])"

definition path_components :: "string \<Rightarrow> path_component list" where
  "path_components path =
     (case split_on (\<lambda>c. c = CHR ''/'') path of
        [] \<Rightarrow> []
      | first # rest \<Rightarrow>
          (if first = [] then (if path = [] then [] else [RootDir])
           else if first = ''.'' then [CurDir] else component_of first) @ concat (map component_of rest))"

fun is_normal :: "path_component \<Rightarrow> bool" where
  "is_normal (NormalComp s) = True"
| "is_normal _ = False"

definition validate_isolation_worktree_path :: "RepoPath \<Rightarrow> IsolationError option" where
  "validate_isolation_worktree_path path =
     (if is_blank path then Some (IllegalWorktreePath path ''empty'')
      else if starts_with path ''-'' then
        Some (IllegalWorktreePath path
          (''must not start with '' @ [CHR 0x27] @ ''-'' @ [CHR 0x27] @ '' (looks like a flag)''))
      else
        (case shell_metachar_check path of
           Some reason \<Rightarrow> Some (IllegalWorktreePath path reason)
         | None \<Rightarrow>
             (let components = path_components path in
              if take 1 components \<noteq> [ParentDir] \<or> length components < 3
                 \<or> list_ex (\<lambda>c. \<not> is_normal c) (drop 1 components) then
                Some (IllegalWorktreePath path
                  (''must contain exactly one leading '' @ [CHR 0x27] @ ''..'' @ [CHR 0x27] @
                   '' followed by at least two normal components''))
              else None)))"

definition validate_isolation_contract :: "IsolationContract \<Rightarrow> IsolationError option" where
  "validate_isolation_contract c =
     (if is_blank (iso_agent_id c) then Some EmptyAgentId
      else
        (case validate_branch_name (branch_name c) of
           Some e \<Rightarrow> Some e
         | None \<Rightarrow>
             (case validate_isolation_worktree_path (worktree_path c) of
                Some e \<Rightarrow> Some e
              | None \<Rightarrow>
                  if is_blank (base_ref c) then Some EmptyBaseRef
                  else if contains_shell_metachar (base_ref c) then
                    Some (ShellMetacharInField ''base_ref'' (base_ref c))
                  else if rfc3339_to_unix (iso_created_at c) = None then
                    Some (UnparseableCreatedAt (iso_created_at c))
                  else None)))"

definition validate_isolation_claim_agent :: "IsolationContract \<Rightarrow> string \<Rightarrow> IsolationError option" where
  "validate_isolation_claim_agent isolation claimant_agent_id =
     (case iso_claim_id isolation of
        None \<Rightarrow> None
      | Some claim_id \<Rightarrow>
          if claimant_agent_id = iso_agent_id isolation then None
          else Some (ClaimAgentMismatch claim_id claimant_agent_id (iso_agent_id isolation)))"

section \<open>Collisions\<close>

definition iso_is_live :: "IsolationContract \<Rightarrow> bool" where
  "iso_is_live c \<longleftrightarrow> iso_status c \<notin> {IsMerged, IsAbandoned}"

fun normalize_step :: "string \<Rightarrow> string list \<Rightarrow> string list" where
  "normalize_step part out =
     (if part = [] \<or> part = ''.'' then out
      else if part = ''..'' then
        (if out \<noteq> [] \<and> last out \<noteq> ''..'' then butlast out else out @ [''..''])
      else out @ [to_ascii_lowercase part])"

definition normalize_path :: "string \<Rightarrow> string list" where
  "normalize_path path =
     fold normalize_step (split_on (\<lambda>c. c = CHR ''/'' \<or> c = CHR 0x5C) path) []"

fun detect_isolation_conflict :: "IsolationContract \<Rightarrow> IsolationContract list \<Rightarrow> IsolationError option" where
  "detect_isolation_conflict new [] = None"
| "detect_isolation_conflict new (old # existing) =
     (if \<not> iso_is_live old then detect_isolation_conflict new existing
      else if eq_ignore_ascii_case (branch_name old) (branch_name new) then
        Some (DuplicateBranch (branch_name new) (iso_agent_id old))
      else if normalize_path (worktree_path old) = normalize_path (worktree_path new) then
        Some (DuplicateWorktreePath (worktree_path new) (iso_agent_id old))
      else detect_isolation_conflict new existing)"

section \<open>Lifecycle and merge plan\<close>

definition transition_status :: "IsolationStatus \<Rightarrow> IsolationStatus \<Rightarrow> IsolationError + IsolationStatus" where
  "transition_status from_status to_status =
     (if from_status \<in> {IsProposed, IsMerging} \<and> to_status = IsActive
         \<or> from_status \<in> {IsProposed, IsActive, IsMerging} \<and> to_status = IsAbandoned
         \<or> from_status = IsActive \<and> to_status = IsMerging
         \<or> from_status = IsMerging \<and> to_status = IsMerged
      then Inr to_status else Inl (IllegalTransition from_status to_status))"

definition in_quotes :: "string \<Rightarrow> string" where
  "in_quotes s = [CHR 0x27] @ s @ [CHR 0x27]"

definition propose_merge :: "IsolationContract \<Rightarrow> MergePlan" where
  "propose_merge c =
     \<lparr> mp_isolation_id = iso_id c, mp_agent_id = iso_agent_id c, mp_branch_name = branch_name c,
       mp_base_ref = base_ref c, mp_policy = merge_policy c,
       mp_steps =
         (case merge_policy c of
            MpRebase \<Rightarrow>
              [\<lparr> ms_action = GaCheckout, ms_args = [base_ref c],
                 rationale = ''switch to the base ref '' @ in_quotes (base_ref c) @ '' before rebasing'' \<rparr>,
               \<lparr> ms_action = GaFetch, ms_args = [], rationale = ''refresh the base ref in case it moved'' \<rparr>,
               \<lparr> ms_action = GaRebase, ms_args = [base_ref c, branch_name c],
                 rationale = ''replay '' @ in_quotes (branch_name c) @ '' onto the current '' @
                   in_quotes (base_ref c) @ '' (keeps history linear)'' \<rparr>,
               \<lparr> ms_action = GaCheckout, ms_args = [branch_name c], rationale = ''land on the rebased branch'' \<rparr>]
          | MpMerge \<Rightarrow>
              [\<lparr> ms_action = GaCheckout, ms_args = [base_ref c],
                 rationale = ''switch to '' @ in_quotes (base_ref c) @ '' to receive the merge'' \<rparr>,
               \<lparr> ms_action = GaMerge, ms_args = [''--no-ff'', branch_name c],
                 rationale = ''create a merge commit recording the '' @ in_quotes (branch_name c) @ '' branch'' \<rparr>]
          | MpSquash \<Rightarrow>
              [\<lparr> ms_action = GaCheckout, ms_args = [base_ref c],
                 rationale = ''switch to '' @ in_quotes (base_ref c) @ '' to receive the squash'' \<rparr>,
               \<lparr> ms_action = GaSquash, ms_args = [branch_name c],
                 rationale = ''fold all commits of '' @ in_quotes (branch_name c) @ '' into one staged change'' \<rparr>]) \<rparr>"

definition trim_dashes :: "string \<Rightarrow> string" where
  "trim_dashes s =
     rev (dropWhile (\<lambda>c. c = CHR ''-'') (rev (dropWhile (\<lambda>c. c = CHR ''-'') s)))"

definition slug_branch_segment :: "string \<Rightarrow> string" where
  "slug_branch_segment segment =
     trim_dashes (concat (map
       (\<lambda>ch. case ch of [c] \<Rightarrow> if is_ascii_alphanumeric c then [c] else ''-'' | _ \<Rightarrow> ''-'')
       (utf8_chars (trim (to_ascii_lowercase segment)))))"

definition branch_name_for :: "string \<Rightarrow> string \<Rightarrow> string" where
  "branch_name_for agent scope = slug_branch_segment agent @ ''/'' @ slug_branch_segment scope"

section \<open>Names the validators accept\<close>

lemma contains_str_head: "contains_str s (p # ps) \<Longrightarrow> p \<in> set s"
  by (induction s) (auto simp: starts_with_def)

lemma utf8_chars_ascii: "(\<And>c. c \<in> set s \<Longrightarrow> \<not> is_cont c) \<Longrightarrow> utf8_chars s = map (\<lambda>c. [c]) s"
proof (induction s)
  case (Cons c s)
  then have "takeWhile is_cont s = []" "dropWhile is_cont s = s" by (cases s; simp)+
  with Cons show ?case by simp
qed simp

text \<open>The characters a suggested branch name consists of.\<close>

definition name_char :: "char \<Rightarrow> bool" where
  "name_char c \<longleftrightarrow> is_ascii_alphanumeric c \<or> c = CHR ''-'' \<or> c = CHR ''/''"

lemma name_char_simps:
  assumes "name_char c"
  shows "\<not> is_cont c" "\<not> char_is_whitespace [c]" "\<not> char_is_control [c]" "c \<noteq> CHR ''.''" "c \<noteq> CHR '':''"
    "c \<notin> set [CHR '';'', CHR ''&'', CHR ''|'', CHR ''$'', CHR 0x60, CHR ''('', CHR '')'',
        CHR ''<'', CHR ''>'', CHR 0x0A, CHR ''{'', CHR ''}'']"
  using assms
  by (auto simp: name_char_def is_ascii_alphanumeric_def is_digit_def is_ascii_lowercase_def is_ascii_uppercase_def
      is_cont_def char_is_whitespace_def whitespace_table_def char_is_control_def)

lemma no_dot_lock: "CHR ''.'' \<notin> set s \<Longrightarrow> \<not> ends_with (to_ascii_lowercase s) ''.lock''"
proof
  assume "CHR ''.'' \<notin> set s" "ends_with (to_ascii_lowercase s) ''.lock''"
  then have "CHR ''.'' \<in> set (to_ascii_lowercase s)"
    unfolding ends_with_def by (metis in_set_dropD list.set_intros(1))
  then obtain c where "c \<in> set s" "ascii_lower c = CHR ''.''" by (auto simp: to_ascii_lowercase_def)
  then have "c = CHR ''.''"
    using ascii_lower_cases [of c "CHR ''.''"] by (simp add: is_ascii_lowercase_def)
  with \<open>c \<in> set s\<close> \<open>CHR ''.'' \<notin> set s\<close> show False by simp
qed

lemma trim_dashes_chars: "c \<in> set (trim_dashes s) \<Longrightarrow> c \<in> set s"
  unfolding trim_dashes_def by (drule set_rev [THEN equalityD1, THEN subsetD], drule set_dropWhileD) (simp, erule set_dropWhileD)

lemma rev_dropWhile_split: "xs = rev (dropWhile P (rev xs)) @ rev (takeWhile P (rev xs))"
proof -
  have "rev (rev xs) = rev (takeWhile P (rev xs) @ dropWhile P (rev xs))" by simp
  then show ?thesis by (simp only: rev_append rev_rev_ident)
qed

lemma hd_trim_dashes:
  assumes "trim_dashes s \<noteq> []" shows "hd (trim_dashes s) \<noteq> CHR ''-''"
proof -
  obtain t where d: "dropWhile (\<lambda>c. c = CHR ''-'') s = trim_dashes s @ t"
    unfolding trim_dashes_def using rev_dropWhile_split by blast
  have "hd (dropWhile (\<lambda>c. c = CHR ''-'') s) \<noteq> CHR ''-''"
    by (rule hd_dropWhile) (use assms d in simp)
  with assms show ?thesis by (simp add: d)
qed

lemma slug_chars:
  assumes "c \<in> set (slug_branch_segment s)" shows "is_ascii_alphanumeric c \<or> c = CHR ''-''"
proof -
  let ?f = "\<lambda>ch. case ch of [c] \<Rightarrow> if is_ascii_alphanumeric c then [c] else ''-'' | _ \<Rightarrow> ''-''"
  have "set (?f ch) \<subseteq> {c. is_ascii_alphanumeric c \<or> c = CHR ''-''}" for ch
    by (auto split: list.splits)
  then have all: "set (concat (map ?f chs)) \<subseteq> {c. is_ascii_alphanumeric c \<or> c = CHR ''-''}" for chs by auto
  have "c \<in> set (concat (map ?f (utf8_chars (trim (to_ascii_lowercase s)))))"
    using assms unfolding slug_branch_segment_def by (rule trim_dashes_chars)
  with all show ?thesis by blast
qed

lemma slug_props:
  "c \<in> set (slug_branch_segment s) \<Longrightarrow> name_char c \<and> c \<noteq> CHR ''/''"
  "slug_branch_segment s \<noteq> [] \<Longrightarrow> is_ascii_alphanumeric (hd (slug_branch_segment s))"
proof -
  show "name_char c \<and> c \<noteq> CHR ''/''" if "c \<in> set (slug_branch_segment s)"
    using slug_chars [OF that]
    by (auto simp: name_char_def is_ascii_alphanumeric_def is_digit_def is_ascii_lowercase_def is_ascii_uppercase_def)
  show "is_ascii_alphanumeric (hd (slug_branch_segment s))" if "slug_branch_segment s \<noteq> []"
  proof -
    have "hd (slug_branch_segment s) \<noteq> CHR ''-''"
      using that unfolding slug_branch_segment_def by (rule hd_trim_dashes)
    then show ?thesis using slug_chars [OF hd_in_set [OF that]] by blast
  qed
qed

section \<open>Worktree paths\<close>

lemma fold_normal_parts:
  assumes "list_all is_normal (concat (map component_of parts))"
  shows "fold normalize_step parts out =
      out @ map to_ascii_lowercase (filter (\<lambda>p. p \<noteq> [] \<and> p \<noteq> ''.'') parts)"
    "length (concat (map component_of parts)) = length (filter (\<lambda>p. p \<noteq> [] \<and> p \<noteq> ''.'') parts)"
    "''..'' \<notin> set parts"
  using assms by (induction parts arbitrary: out) (auto split: if_splits)

lemma to_ascii_lowercase_dotdot: "to_ascii_lowercase p = ''..'' \<Longrightarrow> p = ''..''"
  using ascii_lower_cases [of _ "CHR ''.''"] by (auto simp: to_ascii_lowercase_def map_eq_Cons_conv is_ascii_lowercase_def)

lemma valid_worktree_split:
  assumes "validate_isolation_worktree_path p = None"
  obtains rest where "split_on (\<lambda>c. c = CHR ''/'') p = ''..'' # rest"
    "list_all is_normal (concat (map component_of rest))" "2 \<le> length (concat (map component_of rest))"
proof -
  have c: "take 1 (path_components p) = [ParentDir]" "3 \<le> length (path_components p)"
    "\<not> list_ex (\<lambda>c. \<not> is_normal c) (drop 1 (path_components p))"
    using assms by (auto simp: validate_isolation_worktree_path_def Let_def split: if_splits option.splits)
  obtain first rest where sp: "split_on (\<lambda>c. c = CHR ''/'') p = first # rest"
    by (metis list.exhaust split_on_not_Nil)
  let ?rest = "concat (map component_of rest)"
  have "p \<noteq> []" using assms by (auto simp: validate_isolation_worktree_path_def is_blank_def trim_def)
  then have "first = ''..''"
    using c(1) by (cases "first = []"; cases "first = ''.''") (auto simp: path_components_def sp split: if_splits)
  then have "path_components p = ParentDir # ?rest" by (simp add: path_components_def sp)
  then show ?thesis using that sp c \<open>first = ''..''\<close> by (auto simp: list_ex_iff list_all_iff)
qed

lemma split_on_other:
  "d \<notin> set s \<Longrightarrow> split_on (\<lambda>c. c = CHR ''/'' \<or> c = d) s = split_on (\<lambda>c. c = CHR ''/'') s"
  by (induction s) (auto split: list.splits)

lemma normalize_path_is_guard: "normalize_path path = normalize_segments to_ascii_lowercase path"
proof -
  have "normalize_step = normalize_part to_ascii_lowercase"
    by (auto simp: fun_eq_iff normalize_part_def)
  then show ?thesis by (simp add: normalize_path_def normalize_segments_def is_separator_def [abs_def])
qed

lemma detect_isolation_conflict_None:
  "detect_isolation_conflict new existing = None \<longleftrightarrow>
     (\<forall>old\<in>set existing. iso_is_live old \<longrightarrow>
        \<not> eq_ignore_ascii_case (branch_name old) (branch_name new) \<and>
        normalize_path (worktree_path old) \<noteq> normalize_path (worktree_path new))"
  by (induction existing) auto

lemma transition_status_Inr:
  "transition_status s t = Inr u \<Longrightarrow> u = t \<and> s \<notin> {IsMerged, IsAbandoned}"
  by (auto simp: transition_status_def split: if_splits)

section \<open>Properties\<close>

text \<open>
  The branch names the engine suggests are the ones it accepts: the name built from an agent
  and a scope passes the branch validator exactly when both have a character that survives the
  slugging.
\<close>

lemma branch_name_for_valid:
  "validate_branch_name (branch_name_for agent scope) = None \<longleftrightarrow>
     slug_branch_segment agent \<noteq> [] \<and> slug_branch_segment scope \<noteq> []"
proof -
  let ?a = "slug_branch_segment agent" let ?b = "slug_branch_segment scope"
  let ?n = "branch_name_for agent scope"
  have nc: "name_char c" if "c \<in> set ?n" for c
    using that slug_props(1) by (auto simp: branch_name_for_def name_char_def)
  note ch = name_char_simps [OF nc]
  have utf: "utf8_chars ?n = map (\<lambda>c. [c]) ?n" using ch(1) by (rule utf8_chars_ascii)
  have split: "split_on (\<lambda>c. c = CHR ''/'') ?n = [?a, ?b]"
  proof -
    have no: "c \<noteq> CHR ''/''" if "c \<in> set (slug_branch_segment x)" for c x using slug_props(1) [OF that] by simp
    have "split_on (\<lambda>c. c = CHR ''/'') ?b = [?b]" using no by (intro split_on_none) auto
    then show ?thesis using no split_on_append_sep [of ?a "\<lambda>c. c = CHR ''/''" "CHR ''/''" ?b]
      by (simp add: branch_name_for_def)
  qed
  have lock: "\<not> ends_with (to_ascii_lowercase (slug_branch_segment x)) ''.lock''" for x
    using slug_props(1) [of _ x] name_char_simps(4) by (intro no_dot_lock) blast
  have "CHR ''/'' \<in> set ?n" by (simp add: branch_name_for_def)
  then have blank: "\<not> is_blank ?n" using ch(2) unfolding is_blank_iff utf by auto
  have no: "CHR ''.'' \<notin> set ?n" "CHR '':'' \<notin> set ?n" using ch(4,5) by blast+
  then have dots: "\<not> contains_str ?n ''..''" "\<not> contains_str ?n '':''" using contains_str_head [of ?n] by blast+
  have dot: "\<not> starts_with ?n ''.''" using no(1) by (cases ?n) (auto simp: starts_with_def)
  have ws: "\<not> list_ex char_is_whitespace (utf8_chars ?n)" "\<not> list_ex char_is_control (utf8_chars ?n)"
    using ch(2,3) unfolding utf list_ex_iff by auto
  have meta: "\<not> contains_shell_metachar ?n"
    using ch(6) unfolding contains_shell_metachar_def list_ex_iff by blast
  have dash: "\<not> starts_with ?n ''-''" if "?a \<noteq> []"
  proof -
    have "\<not> is_ascii_alphanumeric (CHR ''-'')" by code_simp
    with slug_props(2) [OF that] have "hd ?a \<noteq> CHR ''-''" by metis
    with that show ?thesis by (cases ?a) (simp_all add: branch_name_for_def starts_with_def)
  qed
  show ?thesis
    using blank dots dot ws meta dash lock
    by (cases "?a = []"; cases "?b = []") (simp_all add: validate_branch_name_def split shell_metachar_check_def)
qed



end
