(* ===== verification/Isolation_Registry.thy ===== *)
theory Isolation_Registry
  imports Isolation Claim_Bus
begin

text \<open>
  The isolation registry as the command line drives it
  (\<open>src/crates/forge-core-cli/src/isolation.rs\<close>): propose, link a claim, transition, status and
  merge plan over the directory of contract files, and the shell commands it suggests.  The
  directory maps file names to documents; \<open>None\<close> is a file that does not parse.  A linked claim is
  looked up on the claim bus.

  The lemmas show that the registry never holds two live contracts with the same branch or the
  same worktree path, that quoting for the shell is faithful, and what a proposal does to a
  contract that is already stored under its file name.
\<close>

section \<open>Text of the commands\<close>

datatype ExitReason = ExOk | ExRejectedByGate | ExInvalidDecisionShape | ExConflict | ExEnvConfig

definition shell_quote :: "string \<Rightarrow> string" where
  "shell_quote s =
     [CHR 0x27] @ concat (map (\<lambda>c. if c = CHR 0x27 then [CHR 0x27, CHR 0x5C, CHR 0x27, CHR 0x27] else [c]) s) @
     [CHR 0x27]"

definition suggested_worktree_commands :: "IsolationContract \<Rightarrow> string list" where
  "suggested_worktree_commands c =
     [''git worktree add -b '' @ shell_quote (branch_name c) @ '' '' @ shell_quote (worktree_path c) @ '' '' @
        shell_quote (base_ref c),
      ''cd '' @ shell_quote (worktree_path c)]"

definition action_subcommand :: "GitAction \<Rightarrow> string" where
  "action_subcommand a =
     (case a of
        GaWorktreeAdd \<Rightarrow> ''worktree''
      | GaWorktreeRemove \<Rightarrow> ''worktree''
      | GaCheckout \<Rightarrow> ''checkout''
      | GaFetch \<Rightarrow> ''fetch''
      | GaRebase \<Rightarrow> ''rebase''
      | GaMerge \<Rightarrow> ''merge''
      | GaSquash \<Rightarrow> ''merge --squash''
      | GaBranchDelete \<Rightarrow> ''branch'')"

fun join_spaces :: "string list \<Rightarrow> string" where
  "join_spaces [] = []"
| "join_spaces [w] = w"
| "join_spaces (w # v # ws) = w @ '' '' @ join_spaces (v # ws)"

definition merge_back_commands :: "IsolationContract \<Rightarrow> string list" where
  "merge_back_commands c =
     map (\<lambda>s. ''git '' @ action_subcommand (ms_action s) @ '' '' @ join_spaces (map shell_quote (ms_args s)))
       (mp_steps (propose_merge c))"

definition status_str :: "IsolationStatus \<Rightarrow> string" where
  "status_str s =
     (case s of
        IsProposed \<Rightarrow> ''proposed''
      | IsActive \<Rightarrow> ''active''
      | IsMerging \<Rightarrow> ''merging''
      | IsMerged \<Rightarrow> ''merged''
      | IsAbandoned \<Rightarrow> ''abandoned'')"

definition policy_str :: "MergePolicy \<Rightarrow> string" where
  "policy_str p = (case p of MpRebase \<Rightarrow> ''rebase'' | MpMerge \<Rightarrow> ''merge'' | MpSquash \<Rightarrow> ''squash'')"

definition parse_merge_policy :: "string \<Rightarrow> string + MergePolicy" where
  "parse_merge_policy raw =
     (let t = to_ascii_lowercase (trim raw) in
      if t = ''rebase'' then Inr MpRebase
      else if t = ''merge'' then Inr MpMerge
      else if t = ''squash'' then Inr MpSquash
      else Inl t)"

definition parse_status :: "string \<Rightarrow> string + IsolationStatus" where
  "parse_status raw =
     (let t = to_ascii_lowercase (trim raw) in
      if t = ''proposed'' then Inr IsProposed
      else if t = ''active'' then Inr IsActive
      else if t = ''merging'' then Inr IsMerging
      else if t = ''merged'' then Inr IsMerged
      else if t = ''abandoned'' then Inr IsAbandoned
      else Inl t)"

section \<open>The directory of contracts\<close>

type_synonym iso_dir = "IsolationContract option btree_map"

definition iso_file :: "string \<Rightarrow> string" where
  "iso_file i = slug_for_file i @ ''.yaml''"

text \<open>The contracts in the order of the file names, and the number of files that do not parse.\<close>

definition load_isolations :: "iso_dir \<Rightarrow> IsolationContract list \<times> nat" where
  "load_isolations dir =
     (List.map_filter id (bt_values dir), length (filter (\<lambda>d. d = None) (bt_values dir)))"

definition save_isolation :: "iso_dir \<Rightarrow> IsolationContract \<Rightarrow> iso_dir" where
  "save_isolation dir c = bt_insert (iso_file (iso_id c)) (Some c) dir"

datatype iso_detail =
  IsoRejection IsolationError
| IsoNeedsClaims
| IsoClaimsState load_error
| IsoClaimNotFound string
| IsoMalformed nat
| IsoNotFound string
| IsoNoncanonical
| IsoNotAttachable
| IsoOtherClaim
| IsoClaimNotLive

record IsolationProposePayload =
  ipp_isolation :: IsolationContract
  contract_path :: string
  suggested_git_commands :: "string list"

datatype 'a iso_answer = IsoOk 'a | IsoErr ExitReason iso_detail

section \<open>The operations\<close>

definition proposed_contract ::
    "string \<Rightarrow> string \<Rightarrow> string \<Rightarrow> string \<Rightarrow> MergePolicy \<Rightarrow> string option \<Rightarrow> string \<Rightarrow> i64 \<Rightarrow> IsolationContract" where
  "proposed_contract agent branch path base policy claim isolation_id now_unix =
     \<lparr> iso_id = isolation_id, iso_agent_id = agent, branch_name = branch, worktree_path = path,
       base_ref = base, iso_created_at = unix_to_rfc3339 now_unix, iso_status = IsProposed,
       merge_policy = policy, iso_claim_id = claim \<rparr>"

text \<open>The check of the linked claim, on the claim bus when there is one.\<close>

definition check_linked_claim ::
    "wal_env \<Rightarrow> bool \<Rightarrow> bus option \<Rightarrow> IsolationContract \<Rightarrow> bus option \<times> (ExitReason \<times> iso_detail) option" where
  "check_linked_claim env residue claims contract =
     (case iso_claim_id contract of
        None \<Rightarrow> (claims, None)
      | Some claim_id \<Rightarrow>
          (case claims of
             None \<Rightarrow> (None, Some (ExEnvConfig, IsoNeedsClaims))
           | Some b \<Rightarrow>
               (case load_claims env residue b of
                  (b1, Inl e) \<Rightarrow> (Some b1, Some (ExEnvConfig, IsoClaimsState e))
                | (b1, Inr cs) \<Rightarrow>
                    (Some b1,
                     case find (\<lambda>c. cc_id c = claim_id) cs of
                       None \<Rightarrow> Some (ExInvalidDecisionShape, IsoClaimNotFound claim_id)
                     | Some c \<Rightarrow>
                         (case validate_isolation_claim_agent contract (claimant_agent_id (cc_claim c)) of
                            Some e \<Rightarrow> Some (ExRejectedByGate, IsoRejection e)
                          | None \<Rightarrow> None)))))"

definition run_propose ::
    "wal_env \<Rightarrow> bool \<Rightarrow> bus option \<Rightarrow> iso_dir \<Rightarrow> string \<Rightarrow> string \<Rightarrow> string \<Rightarrow> string \<Rightarrow> MergePolicy
     \<Rightarrow> string option \<Rightarrow> string \<Rightarrow> i64 \<Rightarrow> bus option \<times> iso_dir \<times> IsolationProposePayload iso_answer" where
  "run_propose env residue claims dir agent branch path base policy claim isolation_id now_unix =
     (let contract = proposed_contract agent branch path base policy claim isolation_id now_unix in
      case validate_isolation_contract contract of
        Some e \<Rightarrow> (claims, dir, IsoErr ExRejectedByGate (IsoRejection e))
      | None \<Rightarrow>
          (case check_linked_claim env residue claims contract of
             (claims1, Some (reason, detail)) \<Rightarrow> (claims1, dir, IsoErr reason detail)
           | (claims1, None) \<Rightarrow>
               (case load_isolations dir of (existing, malformed) \<Rightarrow>
                  if malformed \<noteq> 0 then (claims1, dir, IsoErr ExEnvConfig (IsoMalformed malformed))
                  else
                    (case detect_isolation_conflict contract existing of
                       Some e \<Rightarrow> (claims1, dir, IsoErr ExRejectedByGate (IsoRejection e))
                     | None \<Rightarrow>
                         (claims1, save_isolation dir contract,
                          IsoOk \<lparr> ipp_isolation = contract, contract_path = iso_file (iso_id contract),
                            suggested_git_commands = suggested_worktree_commands contract \<rparr>)))))"

definition run_link_claim ::
    "wal_env \<Rightarrow> bool \<Rightarrow> bus \<Rightarrow> iso_dir \<Rightarrow> string \<Rightarrow> string \<Rightarrow> i64
     \<Rightarrow> bus \<times> iso_dir \<times> IsolationProposePayload iso_answer" where
  "run_link_claim env residue b dir isolation_id claim_id now_unix =
     (if \<exists>d\<in>set (bt_values dir). d = None then (b, dir, IsoErr ExEnvConfig (IsoMalformed 1))
      else
        (case filter (\<lambda>(f, d). map_option iso_id d = Some isolation_id) dir of
           [] \<Rightarrow> (b, dir, IsoErr ExInvalidDecisionShape (IsoNotFound isolation_id))
         | (f, d) # others \<Rightarrow>
             if others \<noteq> [] \<or> f \<noteq> iso_file isolation_id then (b, dir, IsoErr ExEnvConfig IsoNoncanonical)
             else
               (let contract = the d in
                if iso_status contract \<notin> {IsProposed, IsActive} then (b, dir, IsoErr ExRejectedByGate IsoNotAttachable)
                else if iso_claim_id contract \<noteq> None \<and> iso_claim_id contract \<noteq> Some claim_id then
                  (b, dir, IsoErr ExRejectedByGate IsoOtherClaim)
                else
                  (case load_claims env residue b of
                     (b1, Inl e) \<Rightarrow> (b1, dir, IsoErr ExEnvConfig (IsoClaimsState e))
                   | (b1, Inr cs) \<Rightarrow>
                       (case find (\<lambda>c. cc_id c = claim_id) cs of
                          None \<Rightarrow> (b1, dir, IsoErr ExInvalidDecisionShape (IsoClaimNotFound claim_id))
                        | Some c \<Rightarrow>
                            if \<not> is_live c now_unix then (b1, dir, IsoErr ExRejectedByGate IsoClaimNotLive)
                            else
                              (let linked = contract\<lparr> iso_claim_id := Some claim_id \<rparr> in
                               case validate_isolation_claim_agent linked (claimant_agent_id (cc_claim c)) of
                                 Some e \<Rightarrow> (b1, dir, IsoErr ExRejectedByGate (IsoRejection e))
                               | None \<Rightarrow>
                                   (b1, if iso_claim_id contract \<noteq> None then dir else save_isolation dir linked,
                                    IsoOk \<lparr> ipp_isolation = linked, contract_path = iso_file isolation_id,
                                      suggested_git_commands = [] \<rparr>)))))))"

definition run_transition ::
    "iso_dir \<Rightarrow> string \<Rightarrow> IsolationStatus \<Rightarrow> iso_dir \<times> IsolationProposePayload iso_answer" where
  "run_transition dir isolation_id to_status =
     (case load_isolations dir of (contracts, malformed) \<Rightarrow>
        if malformed \<noteq> 0 then (dir, IsoErr ExEnvConfig (IsoMalformed malformed))
        else
          (case find (\<lambda>c. iso_id c = isolation_id) contracts of
             None \<Rightarrow> (dir, IsoErr ExInvalidDecisionShape (IsoNotFound isolation_id))
           | Some c \<Rightarrow>
               (case transition_status (iso_status c) to_status of
                  Inl e \<Rightarrow> (dir, IsoErr ExRejectedByGate (IsoRejection e))
                | Inr new \<Rightarrow>
                    (let c' = c\<lparr> iso_status := new \<rparr> in
                     (save_isolation dir c',
                      IsoOk \<lparr> ipp_isolation = c', contract_path = iso_file (iso_id c'),
                        suggested_git_commands = (if new = IsMerging then merge_back_commands c' else []) \<rparr>)))))"

record IsolationSummary =
  is_id :: string
  is_agent_id :: string
  is_branch_name :: string
  is_worktree_path :: string
  is_base_ref :: string
  is_status :: string
  is_merge_policy :: string
  is_claim_id :: "string option"
  is_created_at :: string

definition summary_of :: "IsolationContract \<Rightarrow> IsolationSummary" where
  "summary_of c =
     \<lparr> is_id = iso_id c, is_agent_id = iso_agent_id c, is_branch_name = branch_name c,
       is_worktree_path = worktree_path c, is_base_ref = base_ref c, is_status = status_str (iso_status c),
       is_merge_policy = policy_str (merge_policy c), is_claim_id = iso_claim_id c,
       is_created_at = iso_created_at c \<rparr>"

definition run_iso_status :: "iso_dir \<Rightarrow> string option \<Rightarrow> IsolationSummary list iso_answer" where
  "run_iso_status dir agent_filter =
     (case load_isolations dir of (contracts, malformed) \<Rightarrow>
        if malformed \<noteq> 0 then IsoErr ExEnvConfig (IsoMalformed malformed)
        else IsoOk (map summary_of
               (filter (\<lambda>c. case agent_filter of None \<Rightarrow> True | Some a \<Rightarrow> iso_agent_id c = a) contracts)))"

definition run_merge_plan :: "iso_dir \<Rightarrow> string \<Rightarrow> MergePlan iso_answer" where
  "run_merge_plan dir isolation_id =
     (case load_isolations dir of (contracts, malformed) \<Rightarrow>
        if malformed \<noteq> 0 then IsoErr ExEnvConfig (IsoMalformed malformed)
        else
          (case find (\<lambda>c. iso_id c = isolation_id) contracts of
             None \<Rightarrow> IsoErr ExInvalidDecisionShape (IsoNotFound isolation_id)
           | Some c \<Rightarrow> IsoOk (propose_merge c)))"

section \<open>The registry never holds two live contracts for one branch or path\<close>

definition clash :: "IsolationContract \<Rightarrow> IsolationContract \<Rightarrow> bool" where
  "clash c d \<longleftrightarrow> eq_ignore_ascii_case (branch_name c) (branch_name d) \<or>
     normalize_path (worktree_path c) = normalize_path (worktree_path d)"

lemma clash_sym: "clash c d \<longleftrightarrow> clash d c"
  by (auto simp: clash_def eq_ignore_ascii_case_def)

definition iso_inv :: "iso_dir \<Rightarrow> bool" where
  "iso_inv dir \<longleftrightarrow> bt_sorted dir \<and>
     (\<forall>f d. bt_get dir f = Some d \<longrightarrow> (\<exists>c. d = Some c \<and> f = iso_file (iso_id c))) \<and>
     (\<forall>f g c d. bt_get dir f = Some (Some c) \<longrightarrow> bt_get dir g = Some (Some d) \<longrightarrow> f \<noteq> g \<longrightarrow>
        iso_is_live c \<longrightarrow> iso_is_live d \<longrightarrow> \<not> clash c d)"

lemma iso_inv_empty: "iso_inv []"
  by (simp add: iso_inv_def)

lemma iso_invD:
  assumes "iso_inv dir"
  shows "bt_sorted dir" "bt_get dir f = Some d \<Longrightarrow> \<exists>c. d = Some c \<and> f = iso_file (iso_id c)"
    "bt_get dir f = Some (Some c) \<Longrightarrow> bt_get dir g = Some (Some e) \<Longrightarrow> f \<noteq> g \<Longrightarrow>
       iso_is_live c \<Longrightarrow> iso_is_live e \<Longrightarrow> \<not> clash c e"
  using assms unfolding iso_inv_def by blast+

lemma bt_get_save: "bt_get (save_isolation dir c) = (bt_get dir)(iso_file (iso_id c) \<mapsto> Some c)"
  by (simp add: save_isolation_def bt_get_insert)

text \<open>Storing a contract keeps the invariant when it clashes with no other live one.\<close>

lemma save_isolation_inv:
  assumes inv: "iso_inv dir"
    and free: "\<And>f d. bt_get dir f = Some (Some d) \<Longrightarrow> f \<noteq> iso_file (iso_id c) \<Longrightarrow> iso_is_live c \<Longrightarrow> iso_is_live d \<Longrightarrow>
      \<not> clash d c"
  shows "iso_inv (save_isolation dir c)"
proof -
  let ?f = "iso_file (iso_id c)"
  note get = bt_get_save [of dir c]
  have "\<not> clash x y"
    if "bt_get (save_isolation dir c) f = Some (Some x)" "bt_get (save_isolation dir c) g = Some (Some y)"
      "f \<noteq> g" "iso_is_live x" "iso_is_live y" for f g x y
    using that iso_invD(3) [OF inv, of f x g y] free [of f x] free [of g y] clash_sym [of x y]
    unfolding get by (cases "f = ?f"; cases "g = ?f") simp_all
  moreover have "\<exists>e. d = Some e \<and> f = iso_file (iso_id e)" if "bt_get (save_isolation dir c) f = Some d" for f d
    using that iso_invD(2) [OF inv, of f d] unfolding get by (cases "f = ?f") auto
  moreover have "bt_sorted (save_isolation dir c)"
    unfolding save_isolation_def using iso_invD(1) [OF inv] by (rule bt_sorted_insert)
  ultimately show ?thesis unfolding iso_inv_def by blast
qed

lemma load_isolations_inv:
  assumes "iso_inv dir"
  shows "snd (load_isolations dir) = 0"
    "c \<in> set (fst (load_isolations dir)) \<longleftrightarrow> bt_get dir (iso_file (iso_id c)) = Some (Some c)"
proof -
  note sorted = iso_invD(1) [OF assms]
  have "\<forall>d\<in>set (bt_values dir). d \<noteq> None"
    using iso_invD(2) [OF assms] in_bt_values [OF sorted] by blast
  then show "snd (load_isolations dir) = 0" by (simp add: load_isolations_def filter_empty_conv)
  have "c \<in> set (fst (load_isolations dir)) \<longleftrightarrow> Some c \<in> set (bt_values dir)"
    by (force simp: load_isolations_def List.map_filter_def)
  also have "\<dots> \<longleftrightarrow> (\<exists>f. bt_get dir f = Some (Some c))" by (rule in_bt_values [OF sorted])
  also have "\<dots> \<longleftrightarrow> bt_get dir (iso_file (iso_id c)) = Some (Some c)"
    using iso_invD(2) [OF assms] by blast
  finally show "c \<in> set (fst (load_isolations dir)) \<longleftrightarrow> bt_get dir (iso_file (iso_id c)) = Some (Some c)" .
qed

lemma run_propose_cases:
  assumes "run_propose env residue claims dir a br p base pol cl i now = (claims', dir', ans)"
  shows "dir' = dir \<and> (\<exists>r e. ans = IsoErr r e) \<or>
    dir' = save_isolation dir (proposed_contract a br p base pol cl i now) \<and> snd (load_isolations dir) = 0 \<and>
    validate_isolation_contract (proposed_contract a br p base pol cl i now) = None \<and>
    detect_isolation_conflict (proposed_contract a br p base pol cl i now) (fst (load_isolations dir)) = None \<and>
    ans = IsoOk \<lparr> ipp_isolation = proposed_contract a br p base pol cl i now, contract_path = iso_file i,
      suggested_git_commands = suggested_worktree_commands (proposed_contract a br p base pol cl i now) \<rparr>"
proof -
  let ?c = "proposed_contract a br p base pol cl i now"
  have i: "iso_id ?c = i" by (simp add: proposed_contract_def)
  obtain cl1 lk where lk: "check_linked_claim env residue claims ?c = (cl1, lk)" by (meson surj_pair)
  obtain cs n where ld: "load_isolations dir = (cs, n)" by (meson surj_pair)
  show ?thesis
    using assms lk ld i
    by (cases "validate_isolation_contract ?c"; cases lk; cases "n = 0"; cases "detect_isolation_conflict ?c cs")
      (auto simp: run_propose_def Let_def)
qed

lemma run_propose_inv:
  assumes inv: "iso_inv dir" and run: "run_propose env residue claims dir a br p base pol cl i now = (claims', dir', ans)"
  shows "iso_inv dir'"
proof -
  let ?c = "proposed_contract a br p base pol cl i now"
  have "iso_inv (save_isolation dir ?c)"
    if "detect_isolation_conflict ?c (fst (load_isolations dir)) = None"
  proof (rule save_isolation_inv [OF inv])
    show "\<not> clash d ?c" if d: "bt_get dir f = Some (Some d)" "iso_is_live d" for f d
    proof -
      have "f = iso_file (iso_id d)" using iso_invD(2) [OF inv d(1)] by simp
      then have "d \<in> set (fst (load_isolations dir))" using d(1) by (simp add: load_isolations_inv(2) [OF inv])
      with d(2) \<open>detect_isolation_conflict ?c (fst (load_isolations dir)) = None\<close> show ?thesis
        unfolding detect_isolation_conflict_None clash_def by blast
    qed
  qed
  with run_propose_cases [OF run] inv show ?thesis by blast
qed

text \<open>Changing the link or the status of a stored contract, never from terminal back to live.\<close>

lemma update_stored_inv:
  assumes inv: "iso_inv dir" and c: "bt_get dir (iso_file (iso_id c)) = Some (Some c)"
    and same: "iso_id c' = iso_id c" "branch_name c' = branch_name c" "worktree_path c' = worktree_path c"
    and live: "iso_is_live c' \<Longrightarrow> iso_is_live c"
  shows "iso_inv (save_isolation dir c')"
proof (rule save_isolation_inv [OF inv])
  show "\<not> clash d c'" if "bt_get dir f = Some (Some d)" "f \<noteq> iso_file (iso_id c')" "iso_is_live c'" "iso_is_live d" for f d
    using iso_invD(3) [OF inv that(1) c] that same live by (simp add: clash_def)
qed

lemma run_transition_inv:
  assumes inv: "iso_inv dir" and run: "run_transition dir i t = (dir', ans)"
  shows "iso_inv dir'"
proof (cases "find (\<lambda>c. iso_id c = i) (fst (load_isolations dir))")
  case None
  then show ?thesis using run inv load_isolations_inv(1) [OF inv] by (auto simp: run_transition_def split: prod.splits)
next
  case (Some c)
  then have "c \<in> set (fst (load_isolations dir))" by (auto simp: find_Some_iff)
  then have c: "bt_get dir (iso_file (iso_id c)) = Some (Some c)" by (simp add: load_isolations_inv(2) [OF inv])
  show ?thesis
  proof (cases "transition_status (iso_status c) t")
    case (Inr u)
    then have "iso_is_live c" using transition_status_Inr by (auto simp: iso_is_live_def)
    then have "iso_inv (save_isolation dir (c\<lparr> iso_status := u \<rparr>))"
      by (intro update_stored_inv [OF inv c]) simp_all
    then show ?thesis
      using run Some Inr load_isolations_inv(1) [OF inv] by (auto simp: run_transition_def Let_def split: prod.splits)
  qed (use run inv Some load_isolations_inv(1) [OF inv] in \<open>auto simp: run_transition_def split: prod.splits\<close>)
qed

lemma run_link_claim_cases:
  assumes run: "run_link_claim env residue b dir i cl now = (b', dir', ans)"
  shows "dir' = dir \<or> (\<exists>c. (iso_file i, Some c) \<in> set dir \<and> iso_id c = i \<and>
    dir' = save_isolation dir (c\<lparr> iso_claim_id := Some cl \<rparr>)) \<or> (\<exists>d\<in>set (bt_values dir). d = None)"
proof (cases "filter (\<lambda>(f, d). map_option iso_id d = Some i) dir")
  case Nil
  then show ?thesis using run by (auto simp: run_link_claim_def split: if_splits)
next
  case (Cons fd others)
  obtain f d where fd: "fd = (f, d)" by (cases fd)
  from Cons have "(f, d) \<in> set (filter (\<lambda>(f, d). map_option iso_id d = Some i) dir)" by (simp add: fd)
  then obtain c where c: "(f, Some c) \<in> set dir" "d = Some c" "iso_id c = i" by auto
  show ?thesis
    using run Cons fd c
    by (auto simp: run_link_claim_def Let_def split: if_splits prod.splits sum.splits option.splits)
qed

lemma run_link_claim_inv:
  assumes inv: "iso_inv dir" and run: "run_link_claim env residue b dir i cl now = (b', dir', ans)"
  shows "iso_inv dir'"
proof -
  note sorted = iso_invD(1) [OF inv]
  have "\<not> (\<exists>d\<in>set (bt_values dir). d = None)"
    using iso_invD(2) [OF inv] in_bt_values [OF sorted] by blast
  with run_link_claim_cases [OF run] consider "dir' = dir" | c where "(iso_file i, Some c) \<in> set dir" "iso_id c = i"
    "dir' = save_isolation dir (c\<lparr> iso_claim_id := Some cl \<rparr>)" by blast
  then show ?thesis
  proof cases
    case 2
    have "bt_get dir (iso_file (iso_id c)) = Some (Some c)"
      using 2 bt_sorted_distinct [OF sorted] by (simp add: bt_get_def)
    then show ?thesis unfolding 2(3) by (intro update_stored_inv [OF inv]) (simp_all add: iso_is_live_def)
  qed (use inv in simp)
qed

inductive iso_reach :: "wal_env \<Rightarrow> iso_dir \<Rightarrow> bool" for env where
  iso_init: "iso_reach env []"
| iso_proposed: "iso_reach env dir \<Longrightarrow> run_propose env residue claims dir a br p base pol cl i now = (claims', dir', ans) \<Longrightarrow>
    iso_reach env dir'"
| iso_linked: "iso_reach env dir \<Longrightarrow> run_link_claim env residue b dir i cl now = (b', dir', ans) \<Longrightarrow> iso_reach env dir'"
| iso_transitioned: "iso_reach env dir \<Longrightarrow> run_transition dir i t = (dir', ans) \<Longrightarrow> iso_reach env dir'"

lemma iso_reach_inv: "iso_reach env dir \<Longrightarrow> iso_inv dir"
  by (induction rule: iso_reach.induct)
    (auto simp: iso_inv_empty dest: run_propose_inv run_link_claim_inv run_transition_inv)

section \<open>How a shell reads the commands\<close>

text \<open>
  The words a POSIX shell makes of a line of plain words, single-quoted parts and backslash
  escapes; \<open>None\<close> is a line with an operator, an expansion or an open quote in it.
\<close>

fun cur_word :: "string option \<Rightarrow> string" where
  "cur_word None = []"
| "cur_word (Some w) = w"

fun sh_argv :: "bool \<Rightarrow> string option \<Rightarrow> string \<Rightarrow> string list option" where
  "sh_argv True w [] = None"
| "sh_argv False w [] = Some (case w of None \<Rightarrow> [] | Some x \<Rightarrow> [x])"
| "sh_argv True w (c # cs) =
     (if c = CHR 0x27 then sh_argv False (Some (cur_word w)) cs else sh_argv True (Some (cur_word w @ [c])) cs)"
| "sh_argv False w (c # cs) =
     (if c = CHR '' '' then
        (case sh_argv False None cs of None \<Rightarrow> None
         | Some ws \<Rightarrow> Some (case w of None \<Rightarrow> ws | Some x \<Rightarrow> x # ws))
      else if c = CHR 0x27 then sh_argv True (Some (cur_word w)) cs
      else if c = CHR 0x5C then
        (case cs of [] \<Rightarrow> None | d # ds \<Rightarrow> sh_argv False (Some (cur_word w @ [d])) ds)
      else if contains_shell_metachar [c] \<or> c \<in> {CHR 0x09, CHR 0x22, CHR ''*'', CHR ''?'', CHR ''['', CHR ''#'', CHR ''~''}
      then None
      else sh_argv False (Some (cur_word w @ [c])) cs)"

lemma sh_argv_quoted:
  "sh_argv True (Some w) (concat (map (\<lambda>c. if c = CHR 0x27 then [CHR 0x27, CHR 0x5C, CHR 0x27, CHR 0x27] else [c]) s) @ CHR 0x27 # cs) =
     sh_argv False (Some (w @ s)) cs"
  by (induction s arbitrary: w) auto

lemma sh_argv_quote: "sh_argv False None (shell_quote s @ cs) = sh_argv False (Some s) cs"
  using sh_argv_quoted [of "[]" s cs] by (simp add: shell_quote_def)

lemma sh_argv_args: "sh_argv False None (join_spaces (map shell_quote args)) = Some args"
proof (induction args rule: join_spaces.induct)
  case (2 w)
  show ?case using sh_argv_quote [of w "[]"] by simp
next
  case (3 w v ws)
  then show ?case using sh_argv_quote [of w "CHR '' '' # join_spaces (map shell_quote (v # ws))"] by simp
qed simp

section \<open>Two proposals\<close>

abbreviation alice_isolation :: IsolationContract where
  "alice_isolation \<equiv> proposed_contract ''alice'' ''alice/s5'' ''../wt/alice/s5'' ''main'' MpRebase None ''iso-1'' 0"

abbreviation bob_isolation :: "string \<Rightarrow> IsolationContract" where
  "bob_isolation i \<equiv> proposed_contract ''bob'' ''bob/s6'' ''../wt/bob/s6'' ''main'' MpRebase None i 0"

definition proposal_payload :: "IsolationContract \<Rightarrow> IsolationProposePayload" where
  "proposal_payload c = \<lparr> ipp_isolation = c, contract_path = iso_file (iso_id c),
     suggested_git_commands = suggested_worktree_commands c \<rparr>"

definition sample_dir1 :: iso_dir where
  "sample_dir1 = save_isolation [] alice_isolation"

lemma run_propose_unlinked:
  assumes "validate_isolation_contract (proposed_contract a br p base pol None i now) = None"
    "load_isolations dir = (cs, 0)" "detect_isolation_conflict (proposed_contract a br p base pol None i now) cs = None"
  shows "run_propose env residue claims dir a br p base pol None i now =
    (claims, save_isolation dir (proposed_contract a br p base pol None i now),
     IsoOk (proposal_payload (proposed_contract a br p base pol None i now)))"
proof -
  let ?c = "proposed_contract a br p base pol None i now"
  have "check_linked_claim env residue claims ?c = (claims, None)"
    by (simp add: check_linked_claim_def proposed_contract_def)
  then show ?thesis using assms by (simp add: run_propose_def Let_def proposal_payload_def)
qed

lemma sample_valid:
  "validate_isolation_contract alice_isolation = None" "validate_isolation_contract (bob_isolation i) = None"
proof -
  have t: "rfc3339_to_unix (unix_to_rfc3339 0) = Some 0"
    by (rule rfc3339_round_trip_range) (simp add: representable_def)
  have "\<not> is_blank ''alice''" "validate_branch_name ''alice/s5'' = None"
    "validate_isolation_worktree_path ''../wt/alice/s5'' = None"
    "\<not> is_blank ''bob''" "validate_branch_name ''bob/s6'' = None"
    "validate_isolation_worktree_path ''../wt/bob/s6'' = None"
    "\<not> is_blank ''main''" "\<not> contains_shell_metachar ''main''" by code_simp+
  then show "validate_isolation_contract alice_isolation = None" "validate_isolation_contract (bob_isolation i) = None"
    using t by (simp_all add: validate_isolation_contract_def proposed_contract_def)
qed

lemma sample_apart: "\<not> clash alice_isolation (bob_isolation i)"
proof -
  have "\<not> eq_ignore_ascii_case ''alice/s5'' ''bob/s6''" "normalize_path ''../wt/alice/s5'' \<noteq> normalize_path ''../wt/bob/s6''"
    by code_simp+
  then show ?thesis by (simp add: clash_def proposed_contract_def)
qed

lemma sample_load1: "load_isolations sample_dir1 = ([alice_isolation], 0)"
  by (simp add: sample_dir1_def save_isolation_def load_isolations_def bt_values_def List.map_filter_def)

lemma sample_propose_alice:
  "run_propose sample_env False None [] ''alice'' ''alice/s5'' ''../wt/alice/s5'' ''main'' MpRebase None ''iso-1'' 0 =
     (None, sample_dir1, IsoOk (proposal_payload alice_isolation))"
  unfolding sample_dir1_def
  by (rule run_propose_unlinked [OF sample_valid(1), of _ "[]"]) (simp_all add: load_isolations_def bt_values_def List.map_filter_def)

lemma sample_reach1: "iso_reach sample_env sample_dir1"
  by (rule iso_proposed [OF iso_init sample_propose_alice])

lemma sample_propose_bob:
  "run_propose sample_env False None sample_dir1 ''bob'' ''bob/s6'' ''../wt/bob/s6'' ''main'' MpRebase None i 0 =
     (None, save_isolation sample_dir1 (bob_isolation i), IsoOk (proposal_payload (bob_isolation i)))"
  by (rule run_propose_unlinked [OF sample_valid(2) sample_load1])
    (use sample_apart in \<open>simp add: clash_def\<close>)

section \<open>Properties\<close>

text \<open>
  C7. Mutual exclusion of worktrees: after any sequence of proposals, claim links and
  transitions, every file of the registry parses, and two different contracts that are not yet
  merged or abandoned never share a branch (up to ASCII case) or a normalised worktree path.
\<close>

theorem isolation_mutual_exclusion:
  assumes "iso_reach env dir"
  shows "snd (load_isolations dir) = 0 \<and>
    (\<forall>c\<in>set (fst (load_isolations dir)). \<forall>d\<in>set (fst (load_isolations dir)). c \<noteq> d \<longrightarrow> iso_is_live c \<longrightarrow> iso_is_live d \<longrightarrow>
       \<not> eq_ignore_ascii_case (branch_name c) (branch_name d) \<and>
       normalize_path (worktree_path c) \<noteq> normalize_path (worktree_path d))"
proof -
  have inv: "iso_inv dir" using assms by (rule iso_reach_inv)
  have "\<not> clash c d"
    if "c \<in> set (fst (load_isolations dir))" "d \<in> set (fst (load_isolations dir))" "c \<noteq> d" "iso_is_live c" "iso_is_live d" for c d
  proof -
    have g: "bt_get dir (iso_file (iso_id c)) = Some (Some c)" "bt_get dir (iso_file (iso_id d)) = Some (Some d)"
      using that(1,2) load_isolations_inv(2) [OF inv] by simp_all
    with that(3) have "iso_file (iso_id c) \<noteq> iso_file (iso_id d)" by auto
    with iso_invD(3) [OF inv g] that(4,5) show ?thesis by blast
  qed
  with load_isolations_inv(1) [OF inv] show ?thesis unfolding clash_def by blast
qed

theorem isolation_mutual_exclusion_witness:
  "\<exists>dir. iso_reach sample_env dir \<and> alice_isolation \<in> set (fst (load_isolations dir)) \<and>
     bob_isolation ''iso-2'' \<in> set (fst (load_isolations dir)) \<and>
     normalize_path (worktree_path alice_isolation) \<noteq> normalize_path (worktree_path (bob_isolation ''iso-2''))"
proof -
  let ?dir = "save_isolation sample_dir1 (bob_isolation ''iso-2'')"
  have r: "iso_reach sample_env ?dir" by (rule iso_proposed [OF sample_reach1 sample_propose_bob])
  have f: "iso_file ''iso-1'' \<noteq> iso_file ''iso-2''" by code_simp
  have "bt_get ?dir (iso_file (iso_id c)) = Some (Some c)" if "c \<in> {alice_isolation, bob_isolation ''iso-2''}" for c
    using that f by (auto simp: sample_dir1_def bt_get_save proposed_contract_def)
  then have m: "alice_isolation \<in> set (fst (load_isolations ?dir))" "bob_isolation ''iso-2'' \<in> set (fst (load_isolations ?dir))"
    using load_isolations_inv(2) [OF iso_reach_inv [OF r]] by blast+
  have "alice_isolation \<noteq> bob_isolation ''iso-2''" "iso_is_live alice_isolation" "iso_is_live (bob_isolation ''iso-2'')"
    by (simp_all add: proposed_contract_def iso_is_live_def)
  with isolation_mutual_exclusion [OF r] m r show ?thesis by blast
qed

text \<open>
  C27. The suggested commands mean what they say: a POSIX shell splits the worktree commands and
  the merge-back commands of any contract into exactly the intended arguments, whatever
  characters its branch, path and base ref contain.
\<close>

theorem suggested_commands_argv:
  "map (sh_argv False None) (suggested_worktree_commands c) =
     [Some [''git'', ''worktree'', ''add'', ''-b'', branch_name c, worktree_path c, base_ref c],
      Some [''cd'', worktree_path c]] \<and>
   map (sh_argv False None) (merge_back_commands c) =
     map (\<lambda>s. Some (''git'' # (if ms_action s = GaSquash then [''merge'', ''--squash''] else [action_subcommand (ms_action s)]) @
       ms_args s)) (mp_steps (propose_merge c))"
proof -
  have one: "sh_argv False None (shell_quote x) = Some [x]" for x using sh_argv_quote [of x "[]"] by simp
  have "sh_argv False None (''git '' @ action_subcommand (ms_action s) @ '' '' @ join_spaces (map shell_quote (ms_args s))) =
    Some (''git'' # (if ms_action s = GaSquash then [''merge'', ''--squash''] else [action_subcommand (ms_action s)]) @ ms_args s)" for s :: MergeStep
    by (cases "ms_action s") (simp_all add: action_subcommand_def sh_argv_args contains_shell_metachar_def)
  then have "map (sh_argv False None) (merge_back_commands c) =
     map (\<lambda>s. Some (''git'' # (if ms_action s = GaSquash then [''merge'', ''--squash''] else [action_subcommand (ms_action s)]) @
       ms_args s)) (mp_steps (propose_merge c))"
    unfolding merge_back_commands_def map_map comp_def by (intro map_cong refl)
  moreover have "map (sh_argv False None) (suggested_worktree_commands c) =
     [Some [''git'', ''worktree'', ''add'', ''-b'', branch_name c, worktree_path c, base_ref c],
      Some [''cd'', worktree_path c]]"
    by (simp add: suggested_worktree_commands_def sh_argv_quote one contains_shell_metachar_def)
  ultimately show ?thesis by blast
qed



end
