(* ===== verification/Phase_Gate.thy ===== *)
theory Phase_Gate
  imports Forge_Prelude
begin

text \<open>
  Phases of a project and the hard gates between them: \<open>Phase\<close> of
  \<open>src/crates/forge-core-contracts/src/phase.rs\<close> with its parser and printer, and the transition
  engine of \<open>src/crates/forge-core-decisions/src/phase_transition.rs\<close>.

  The lemmas characterise the verdict, show that printing and parsing a phase round trip, and
  that no sequence of allowed transitions, with waivers or through regressions, gets past a
  mandatory gate that was never cleared.
\<close>

section \<open>Phases\<close>

datatype Phase = Route | Discovery | Specification | Plan | BuildVerify | ReadyOperate | Evolve

definition all_phases :: "Phase list" where
  "all_phases = [Route, Discovery, Specification, Plan, BuildVerify, ReadyOperate, Evolve]"

definition is_product_lifecycle_stage :: "Phase \<Rightarrow> bool" where
  "is_product_lifecycle_stage p \<longleftrightarrow> p \<noteq> Route \<and> p \<noteq> Evolve"

definition rank :: "Phase \<Rightarrow> nat" where
  "rank p =
     (case p of
        Route \<Rightarrow> 0
      | Discovery \<Rightarrow> 1
      | Specification \<Rightarrow> 2
      | Plan \<Rightarrow> 3
      | BuildVerify \<Rightarrow> 4
      | ReadyOperate \<Rightarrow> 5
      | Evolve \<Rightarrow> 6)"

definition ANYTIME :: string where
  "ANYTIME = ''anytime''"

text \<open>\<open>str::split_once\<close> at a byte.\<close>

definition split_once :: "char \<Rightarrow> string \<Rightarrow> (string \<times> string) option" where
  "split_once d s =
     (if d \<in> set s then Some (takeWhile (\<lambda>c. c \<noteq> d) s, tl (dropWhile (\<lambda>c. c \<noteq> d) s)) else None)"

definition phase_of_ordinal :: "nat \<Rightarrow> Phase option" where
  "phase_of_ordinal n =
     (if n = 0 then Some Route
      else if n = 1 then Some Discovery
      else if n = 2 then Some Specification
      else if n = 3 then Some Plan
      else if n = 4 then Some BuildVerify
      else if n = 5 then Some ReadyOperate
      else if n = 6 then Some Evolve
      else None)"

definition phase_of_name :: "string \<Rightarrow> Phase option" where
  "phase_of_name name =
     (if name = ''route'' then Some Route
      else if name = ''discovery'' then Some Discovery
      else if name = ''specification'' \<or> name = ''spec'' then Some Specification
      else if name = ''plan'' then Some Plan
      else if name = ''build-verify'' \<or> name = ''buildverify'' \<or> name = ''build'' then Some BuildVerify
      else if name = ''ready-operate'' \<or> name = ''readyoperate'' \<or> name = ''ready'' then Some ReadyOperate
      else if name = ''evolve'' then Some Evolve
      else None)"

definition parse_phase :: "string \<Rightarrow> Phase option" where
  "parse_phase raw =
     (let trimmed = to_ascii_lowercase (trim raw) in
      if trimmed = [] \<or> trimmed = ANYTIME then None
      else
        (case parse_unsigned 256 trimmed of
           Some n \<Rightarrow> phase_of_ordinal n
         | None \<Rightarrow>
             phase_of_name
               (case split_once (CHR ''-'') trimmed of
                  Some (num, rest) \<Rightarrow> if list_all is_digit num then rest else trimmed
                | None \<Rightarrow> trimmed)))"

definition tag_eligible :: "string \<Rightarrow> Phase \<Rightarrow> bool" where
  "tag_eligible tag current \<longleftrightarrow>
     eq_ignore_ascii_case (trim tag) ANYTIME \<or> parse_phase tag = Some current"

definition show_phase :: "Phase \<Rightarrow> string" where
  "show_phase p =
     (case p of
        Route \<Rightarrow> ''0-route''
      | Discovery \<Rightarrow> ''1-discovery''
      | Specification \<Rightarrow> ''2-specification''
      | Plan \<Rightarrow> ''3-plan''
      | BuildVerify \<Rightarrow> ''4-build-verify''
      | ReadyOperate \<Rightarrow> ''5-ready-operate''
      | Evolve \<Rightarrow> ''6-evolve'')"

section \<open>The transition engine\<close>

datatype GateStatus = Pass | Fail | Concerns | Missing | NotApplicable

datatype GateKind = Grill | SystemDesign | StoryReady | Readiness | Release

record ProvidedGateResult =
  gate_kind :: GateKind
  gate_status :: GateStatus

record Waiver =
  waiver_owner :: string
  waiver_rationale :: string

definition waiver_is_valid :: "Waiver \<Rightarrow> bool" where
  "waiver_is_valid w \<longleftrightarrow> \<not> is_blank (waiver_owner w) \<and> \<not> is_blank (waiver_rationale w)"

record TransitionRequest =
  tr_from :: Phase
  tr_to :: Phase
  tr_gates :: "ProvidedGateResult list"
  tr_waiver :: "Waiver option"

datatype TransitionBlockReason =
  ForwardSkipWithoutWaiver Phase Phase
| InvalidWaiver
| RequiredGateMissing GateKind
| RequiredGateNotPassing GateKind GateStatus

datatype TransitionDecision = Allowed | Blocked TransitionBlockReason

definition required_gate_for :: "Phase \<Rightarrow> Phase \<Rightarrow> GateKind option" where
  "required_gate_for p q =
     (if p = Specification \<and> q = Plan then Some SystemDesign
      else if p = Discovery \<and> q = Specification then Some Grill
      else if p = Plan \<and> q = BuildVerify then Some StoryReady
      else if p = BuildVerify \<and> q = ReadyOperate then Some Readiness
      else if p = ReadyOperate \<and> q = Evolve then Some Release
      else None)"

definition required_gates_for_forward_path :: "Phase \<Rightarrow> Phase \<Rightarrow> GateKind list" where
  "required_gates_for_forward_path p q =
     List.map_filter
       (\<lambda>(edge_from, edge_to).
          if rank edge_from \<ge> rank p \<and> rank edge_to \<le> rank q then required_gate_for edge_from edge_to else None)
       (zip all_phases (drop 1 all_phases))"

definition gate_clears :: "GateStatus \<Rightarrow> bool" where
  "gate_clears s \<longleftrightarrow> s = Pass \<or> s = NotApplicable"

fun check_gates :: "ProvidedGateResult list \<Rightarrow> GateKind list \<Rightarrow> TransitionDecision" where
  "check_gates gates [] = Allowed"
| "check_gates gates (required # more_required) =
     (case find (\<lambda>g. gate_kind g = required) gates of
        None \<Rightarrow> Blocked (RequiredGateMissing required)
      | Some g \<Rightarrow>
          if \<not> gate_clears (gate_status g) then Blocked (RequiredGateNotPassing required (gate_status g))
          else check_gates gates more_required)"

definition evaluate_transition :: "TransitionRequest \<Rightarrow> TransitionDecision" where
  "evaluate_transition req =
     (let rank_delta = rank (tr_to req) - rank (tr_from req);
          rest = (if rank_delta \<ge> 1
                  then check_gates (tr_gates req) (required_gates_for_forward_path (tr_from req) (tr_to req))
                  else Allowed)
      in if rank_delta > 1 then
           (case tr_waiver req of
              None \<Rightarrow> Blocked (ForwardSkipWithoutWaiver (tr_from req) (tr_to req))
            | Some w \<Rightarrow> if \<not> waiver_is_valid w then Blocked InvalidWaiver else rest)
         else rest)"

section \<open>The verdict\<close>

text \<open>The first result provided for a gate decides it.\<close>

definition cleared :: "ProvidedGateResult list \<Rightarrow> GateKind \<Rightarrow> bool" where
  "cleared gates k =
     (case find (\<lambda>g. gate_kind g = k) gates of None \<Rightarrow> False | Some g \<Rightarrow> gate_clears (gate_status g))"

lemma check_gates_Allowed: "check_gates gates ks = Allowed \<longleftrightarrow> (\<forall>k\<in>set ks. cleared gates k)"
  by (induction ks) (auto simp: cleared_def split: option.splits)

lemma rank_inj: "rank p = rank q \<Longrightarrow> p = q"
  by (cases p; cases q) (simp_all add: rank_def)

text \<open>The gates of a forward path are those of its single steps.\<close>

lemma required_gates_for_forward_path_iff:
  "k \<in> set (required_gates_for_forward_path p q) \<longleftrightarrow>
     (\<exists>u v. rank v = Suc (rank u) \<and> rank p \<le> rank u \<and> rank v \<le> rank q \<and> required_gate_for u v = Some k)"
proof -
  have edges: "(u, v) \<in> set (zip all_phases (drop 1 all_phases)) \<longleftrightarrow> rank v = Suc (rank u)" for u v
    by (cases u; cases v) (simp_all add: all_phases_def rank_def)
  have "k \<in> set (required_gates_for_forward_path p q) \<longleftrightarrow>
      (\<exists>u v. (u, v) \<in> set (zip all_phases (drop 1 all_phases)) \<and> rank p \<le> rank u \<and> rank v \<le> rank q \<and>
         required_gate_for u v = Some k)"
    unfolding required_gates_for_forward_path_def List.map_filter_def by (force split: if_splits)
  then show ?thesis unfolding edges .
qed

lemma evaluate_transition_Allowed:
  "evaluate_transition req = Allowed \<longleftrightarrow>
     (rank (tr_to req) > Suc (rank (tr_from req)) \<longrightarrow> (\<exists>w. tr_waiver req = Some w \<and> waiver_is_valid w)) \<and>
     (\<forall>k\<in>set (required_gates_for_forward_path (tr_from req) (tr_to req)). cleared (tr_gates req) k)"
proof -
  have none: "rank (tr_to req) \<le> rank (tr_from req) \<Longrightarrow>
      k \<notin> set (required_gates_for_forward_path (tr_from req) (tr_to req))" for k
    by (auto simp: required_gates_for_forward_path_iff)
  show ?thesis
    by (cases "rank (tr_to req) \<le> rank (tr_from req)")
      (use none in \<open>auto simp: evaluate_transition_def Let_def check_gates_Allowed split: option.splits\<close>)
qed

text \<open>A run of the project: requests that were allowed, each from the phase the last one left.\<close>

inductive phase_run :: "Phase \<Rightarrow> TransitionRequest list \<Rightarrow> Phase \<Rightarrow> bool" where
  run_start: "phase_run p [] p"
| run_step: "phase_run p reqs (tr_from req) \<Longrightarrow> evaluate_transition req = Allowed \<Longrightarrow>
    phase_run p (reqs @ [req]) (tr_to req)"

lemma phase_run_eqI:
  "phase_run p reqs q \<Longrightarrow> q = tr_from req \<Longrightarrow> evaluate_transition req = Allowed \<Longrightarrow> r = tr_to req \<Longrightarrow>
    phase_run p (reqs @ [req]) r"
  using run_step by simp

lemma phase_run_crosses:
  assumes "phase_run p reqs q" "rank p \<le> rank u" "rank v = Suc (rank u)" "rank v \<le> rank q" "required_gate_for u v = Some k"
  shows "\<exists>req\<in>set reqs. cleared (tr_gates req) k"
  using assms
proof (induction rule: phase_run.induct)
  case (run_step p reqs req)
  show ?case
  proof (cases "rank v \<le> rank (tr_from req)")
    case True
    with run_step.IH run_step.prems show ?thesis by auto
  next
    case False
    then have "k \<in> set (required_gates_for_forward_path (tr_from req) (tr_to req))"
      unfolding required_gates_for_forward_path_iff using run_step.prems
      by (intro exI [of _ u] exI [of _ v]) simp
    with run_step.hyps(2) show ?thesis by (auto simp: evaluate_transition_Allowed)
  qed
qed simp

text \<open>A journey with a regression and a waived jump.\<close>

definition sample_journey :: "TransitionRequest list" where
  "sample_journey =
     [\<lparr> tr_from = Discovery, tr_to = Specification,
        tr_gates = [\<lparr> gate_kind = Grill, gate_status = Pass \<rparr>], tr_waiver = None \<rparr>,
      \<lparr> tr_from = Specification, tr_to = Discovery, tr_gates = [], tr_waiver = None \<rparr>,
      \<lparr> tr_from = Discovery, tr_to = Plan,
        tr_gates = [\<lparr> gate_kind = Grill, gate_status = Pass \<rparr>, \<lparr> gate_kind = SystemDesign, gate_status = NotApplicable \<rparr>],
        tr_waiver = Some \<lparr> waiver_owner = ''lead'', waiver_rationale = ''prototype'' \<rparr> \<rparr>]"

lemma sample_journey_run: "phase_run Discovery sample_journey Plan"
proof -
  have w: "waiver_is_valid \<lparr> waiver_owner = ''lead'', waiver_rationale = ''prototype'' \<rparr>" by code_simp
  note ev = evaluate_transition_def rank_def required_gates_for_forward_path_def all_phases_def
    required_gate_for_def gate_clears_def List.map_filter_def
  have "phase_run Discovery (take 1 sample_journey) Specification"
    using phase_run_eqI [OF run_start [of Discovery], of "sample_journey ! 0" Specification]
    by (simp add: sample_journey_def ev)
  from phase_run_eqI [OF this, of "sample_journey ! 1" Discovery]
  have "phase_run Discovery (take 2 sample_journey) Discovery" by (simp add: sample_journey_def ev)
  from phase_run_eqI [OF this, of "sample_journey ! 2" Plan]
  show ?thesis by (simp add: sample_journey_def ev w)
qed

section \<open>Properties\<close>

text \<open>
  C26. The verdict on a transition: it is allowed exactly when a forward jump over a phase carries
  a waiver with an owner and a rationale, and the first result provided for the gate of every
  single step on the way is a pass or not applicable; backward and same-phase moves always are.
\<close>

theorem transition_allowed_iff:
  "evaluate_transition req = Allowed \<longleftrightarrow>
     (rank (tr_to req) > Suc (rank (tr_from req)) \<longrightarrow> (\<exists>w. tr_waiver req = Some w \<and> waiver_is_valid w)) \<and>
     (\<forall>u v k. rank v = Suc (rank u) \<longrightarrow> rank (tr_from req) \<le> rank u \<longrightarrow> rank v \<le> rank (tr_to req) \<longrightarrow>
        required_gate_for u v = Some k \<longrightarrow>
        (\<exists>g. find (\<lambda>g. gate_kind g = k) (tr_gates req) = Some g \<and> gate_clears (gate_status g)))"
proof -
  have "cleared gates k \<longleftrightarrow> (\<exists>g. find (\<lambda>g. gate_kind g = k) gates = Some g \<and> gate_clears (gate_status g))" for gates k
    by (simp add: cleared_def split: option.splits)
  then show ?thesis
    unfolding evaluate_transition_Allowed Ball_def required_gates_for_forward_path_iff by blast
qed

theorem transition_allowed_iff_witness:
  "evaluate_transition \<lparr> tr_from = Discovery, tr_to = Plan,
     tr_gates = [\<lparr> gate_kind = Grill, gate_status = Pass \<rparr>, \<lparr> gate_kind = SystemDesign, gate_status = NotApplicable \<rparr>],
     tr_waiver = Some \<lparr> waiver_owner = ''lead'', waiver_rationale = ''prototype'' \<rparr> \<rparr> = Allowed"
proof -
  have w: "waiver_is_valid \<lparr> waiver_owner = ''lead'', waiver_rationale = ''prototype'' \<rparr>" by code_simp
  have "u = Discovery \<and> v = Specification \<or> u = Specification \<and> v = Plan"
    if "rank v = Suc (rank u)" "rank Discovery \<le> rank u" "rank v \<le> rank Plan" for u v
    using that by (cases u; cases v) (simp_all add: rank_def)
  then show ?thesis unfolding transition_allowed_iff using w
    by (auto simp: required_gate_for_def gate_clears_def)
qed

text \<open>
  C11. No way around a gate: whatever allowed transitions a project makes, forward, backward or
  over several phases with waivers, from a phase at or before the start of a gated step to one
  at or after its end, one of them provided a clearing result for that gate.
\<close>

theorem no_way_around_gate:
  assumes "phase_run p reqs q" "required_gate_for u v = Some k" "rank p \<le> rank u" "rank v \<le> rank q"
  shows "\<exists>req\<in>set reqs. \<exists>g\<in>set (tr_gates req). gate_kind g = k \<and> gate_clears (gate_status g)"
proof -
  have "rank v = Suc (rank u)" using assms(2) by (auto simp: required_gate_for_def rank_def split: if_splits)
  from phase_run_crosses [OF assms(1,3) this assms(4,2)] show ?thesis
    by (auto simp: cleared_def find_Some_iff split: option.splits) (metis nth_mem)
qed

theorem no_way_around_gate_witness:
  "phase_run Discovery sample_journey Plan \<and>
   (\<exists>req\<in>set sample_journey. \<exists>g\<in>set (tr_gates req). gate_kind g = SystemDesign \<and> gate_clears (gate_status g))"
  using no_way_around_gate [of Discovery sample_journey Plan Specification Plan SystemDesign] sample_journey_run
  by (simp add: required_gate_for_def rank_def)

text \<open>
  Printing and parsing phases: the printed form of a phase, and its bare ordinal, parse back
  to it, so a workflow tagged with a phase is eligible in exactly that phase.
\<close>

lemma phase_round_trip:
  "parse_phase (show_phase p) = Some p \<and> parse_phase [digit_char (rank p)] = Some p \<and>
   (tag_eligible (show_phase p) q \<longleftrightarrow> p = q)"
proof -
  have "list_all (\<lambda>p. parse_phase (show_phase p) = Some p \<and> parse_phase [digit_char (rank p)] = Some p \<and>
      \<not> eq_ignore_ascii_case (trim (show_phase p)) ANYTIME) all_phases"
    by code_simp
  moreover have "p \<in> set all_phases" by (cases p) (simp_all add: all_phases_def)
  ultimately show ?thesis by (auto simp: tag_eligible_def list_all_iff)
qed

end
