(* ===== verification/Event_Stream.thy ===== *)
theory Event_Stream
  imports Forge_Prelude
begin

text \<open>
  The append-only event streams of \<open>src/crates/forge-core-eventlog/src/tcb.rs\<close>: lossy UTF-8
  decoding and line splitting of the log, replay with its torn-tail rule, the append of one
  line, and the strict check a quiesced snapshot makes.  The trait \<open>EventSourced\<close> is a record of
  functions, \<open>serde_json\<close> a record of the conversions the code calls; what a transaction finds on
  disk (a lock that is held, a failing read, a write that stops early) is an argument.

  The locale \<open>event_sourced\<close> is the contract of the trait; inside it are the facts the three
  ledgers share: an appended event reads back, replay keeps sequence numbers growing, a torn tail
  is skipped or refused, and a stream that passes the strict check replays completely.
\<close>

section \<open>UTF-8 decoding\<close>

text \<open>
  One step of the standard library's decoder at a leading byte: whether a character is decoded,
  and how many bytes the character or the maximal invalid run takes.
\<close>

definition cont_at :: "string \<Rightarrow> nat \<Rightarrow> bool" where
  "cont_at bs i \<longleftrightarrow> i < length bs \<and> is_cont (bs ! i)"

definition second_in :: "string \<Rightarrow> nat \<Rightarrow> nat \<Rightarrow> bool" where
  "second_in bs lo hi \<longleftrightarrow> bs \<noteq> [] \<and> lo \<le> (of_char (hd bs) :: nat) \<and> (of_char (hd bs) :: nat) \<le> hi"

definition second_ok :: "nat \<Rightarrow> string \<Rightarrow> bool" where
  "second_ok b bs =
     (if b = 0xE0 then second_in bs 0xA0 0xBF
      else if b = 0xED then second_in bs 0x80 0x9F
      else if b = 0xF0 then second_in bs 0x90 0xBF
      else if b = 0xF4 then second_in bs 0x80 0x8F
      else second_in bs 0x80 0xBF)"

definition utf8_step :: "char \<Rightarrow> string \<Rightarrow> bool \<times> nat" where
  "utf8_step c bs =
     (let b = (of_char c :: nat) in
      if b < 0x80 then (True, 1)
      else if 0xC2 \<le> b \<and> b \<le> 0xDF then (if cont_at bs 0 then (True, 2) else (False, 1))
      else if 0xE0 \<le> b \<and> b \<le> 0xEF then
        (if \<not> second_ok b bs then (False, 1) else if cont_at bs 1 then (True, 3) else (False, 2))
      else if 0xF0 \<le> b \<and> b \<le> 0xF4 then
        (if \<not> second_ok b bs then (False, 1)
         else if \<not> cont_at bs 1 then (False, 2)
         else if cont_at bs 2 then (True, 4) else (False, 3))
      else (False, 1))"

text \<open>\<open>String::from_utf8_lossy\<close>, with the replacement character for every invalid run.\<close>

definition replacement_char :: string where
  "replacement_char = [CHR 0xEF, CHR 0xBF, CHR 0xBD]"

function from_utf8_lossy :: "string \<Rightarrow> string" where
  "from_utf8_lossy [] = []"
| "from_utf8_lossy (c # cs) =
     (if fst (utf8_step c cs) then c # take (snd (utf8_step c cs) - 1) cs else replacement_char) @
     from_utf8_lossy (drop (snd (utf8_step c cs) - 1) cs)"
  by pat_completeness auto
termination
  by (relation "measure length") auto

text \<open>\<open>str::from_utf8\<close>: \<open>None\<close> when the bytes are valid, otherwise \<open>valid_up_to\<close> of the error.\<close>

function utf8_error :: "string \<Rightarrow> nat option" where
  "utf8_error [] = None"
| "utf8_error (c # cs) =
     (if fst (utf8_step c cs)
      then map_option (\<lambda>n. n + snd (utf8_step c cs)) (utf8_error (drop (snd (utf8_step c cs) - 1) cs))
      else Some 0)"
  by pat_completeness auto
termination
  by (relation "measure length") auto

section \<open>Lines\<close>

abbreviation nl :: char where "nl \<equiv> CHR 0x0A"

definition strip_cr :: "string \<Rightarrow> string" where
  "strip_cr s = (if s \<noteq> [] \<and> last s = CHR 0x0D then butlast s else s)"

text \<open>\<open>str::lines\<close> and \<open>str::split_terminator('\n')\<close>.\<close>

definition str_lines :: "string \<Rightarrow> string list" where
  "str_lines s =
     (let parts = split_on (\<lambda>c. c = nl) s
      in map strip_cr (butlast parts) @ (if last parts = [] then [] else [last parts]))"

definition split_terminator :: "string \<Rightarrow> string list" where
  "split_terminator s =
     (let parts = split_on (\<lambda>c. c = nl) s in if last parts = [] then butlast parts else parts)"

section \<open>The trait and the errors\<close>

record ('e, 'p, 'd) EventSourced =
  es_default :: 'p
  es_sequence :: "'e \<Rightarrow> u64"
  es_apply :: "'p \<Rightarrow> 'e \<Rightarrow> 'p"
  es_record_diagnostic :: "'p \<Rightarrow> 'd \<Rightarrow> 'p"
  es_sequence_of :: "'p \<Rightarrow> u64"
  es_advance_sequence :: "'p \<Rightarrow> u64 \<Rightarrow> 'p"
  es_out_of_order :: "u64 \<Rightarrow> u64 \<Rightarrow> 'd"
  es_torn_final_line :: "nat \<Rightarrow> string \<Rightarrow> 'd"

text \<open>
  The errors, without the path of the log, which is fixed by the stream, and without
  \<open>ProjectionDiagnostic\<close>, which nothing constructs.
\<close>

datatype EventLogError =
  LockError string
| AppendError string
| SequenceExhausted
| SerializeError string
| ReadError string
| ParseError nat string

text \<open>The diagnostics of the three ledgers have the same shape and the same two codes.\<close>

datatype LedgerSeverity = LsWarning | LsError

record LedgerDiagnostic =
  ld_severity :: LedgerSeverity
  ld_code :: string
  ld_message :: string

definition CODE_OUT_OF_ORDER_EVENT_IGNORED :: string where
  "CODE_OUT_OF_ORDER_EVENT_IGNORED = ''out_of_order_event_ignored''"

definition CODE_TORN_FINAL_LINE_SKIPPED :: string where
  "CODE_TORN_FINAL_LINE_SKIPPED = ''torn_final_line_skipped''"

definition diagnostic_out_of_order_event_ignored :: "u64 \<Rightarrow> u64 \<Rightarrow> LedgerDiagnostic" where
  "diagnostic_out_of_order_event_ignored event_seq projection_seq =
     \<lparr> ld_severity = LsWarning, ld_code = CODE_OUT_OF_ORDER_EVENT_IGNORED,
       ld_message = ''event sequence '' @ show_nat (unat event_seq) @ '' <= projection sequence '' @
         show_nat (unat projection_seq) @ ''; ignored'' \<rparr>"

definition diagnostic_torn_final_line_skipped :: "nat \<Rightarrow> string \<Rightarrow> LedgerDiagnostic" where
  "diagnostic_torn_final_line_skipped line_number source =
     \<lparr> ld_severity = LsWarning, ld_code = CODE_TORN_FINAL_LINE_SKIPPED,
       ld_message = ''skipped incomplete final line '' @ show_nat line_number @ '': '' @ source \<rparr>"

text \<open>The conversions of \<open>serde_json\<close>: \<open>from_str\<close>, \<open>to_vec\<close>, and \<open>from_slice\<close> into a \<open>Value\<close>.\<close>

record 'e json =
  from_str :: "string \<Rightarrow> string + 'e"
  to_vec :: "'e \<Rightarrow> string + string"
  value_error :: "string \<Rightarrow> string option"

text \<open>
  What one append meets on disk: a detected replacement of the lock or the root, and a write that
  stops after some of the bytes; what a transaction meets: a failing begin, a failing read, and
  its appends.
\<close>

record append_io =
  ai_replaced :: "string option"
  ai_write :: "(nat \<times> string) option"

record txn_io =
  tx_begin :: "EventLogError option"
  tx_read :: "string option"
  tx_append :: "nat \<Rightarrow> append_io"

section \<open>Replay and append\<close>

definition next_sequence :: "('e, 'p, 'd) EventSourced \<Rightarrow> 'p \<Rightarrow> EventLogError + u64" where
  "next_sequence E p =
     (case u64_checked_add (es_sequence_of E p) 1 of
        Some n \<Rightarrow> Inr n
      | None \<Rightarrow> Inl SequenceExhausted)"

definition apply_event :: "('e, 'p, 'd) EventSourced \<Rightarrow> 'p \<Rightarrow> 'e \<Rightarrow> 'p" where
  "apply_event E p ev =
     (let event_seq = es_sequence E ev; current = es_sequence_of E p in
      if current > 0 \<and> event_seq \<le> current
      then es_record_diagnostic E p (es_out_of_order E event_seq current)
      else es_advance_sequence E (es_apply E p ev) event_seq)"

definition replay :: "('e, 'p, 'd) EventSourced \<Rightarrow> 'e list \<Rightarrow> 'p" where
  "replay E evs = foldl (apply_event E) (es_default E) evs"

definition looks_torn :: "string \<Rightarrow> bool" where
  "looks_torn line \<longleftrightarrow> \<not> starts_with line ''{'' \<or> \<not> ends_with line ''}''"

fun replay_lines :: "('e, 'p, 'd) EventSourced \<Rightarrow> 'e json \<Rightarrow> nat \<Rightarrow> nat \<Rightarrow> string list \<Rightarrow> 'p \<Rightarrow> EventLogError + 'p" where
  "replay_lines E J total_lines index [] p = Inr p"
| "replay_lines E J total_lines index (raw_line # rest) p =
     (let line = trim raw_line in
      if line = [] then replay_lines E J total_lines (Suc index) rest p
      else
        (case from_str J line of
           Inl source \<Rightarrow>
             if index + 1 \<ge> total_lines \<and> looks_torn line
             then Inr (es_record_diagnostic E p (es_torn_final_line E (index + 1) source))
             else Inl (ParseError (index + 1) source)
         | Inr ev \<Rightarrow> replay_lines E J total_lines (Suc index) rest (apply_event E p ev)))"

definition replay_bytes :: "('e, 'p, 'd) EventSourced \<Rightarrow> 'e json \<Rightarrow> string \<Rightarrow> EventLogError + 'p" where
  "replay_bytes E J bytes =
     (let text_lines = str_lines (from_utf8_lossy bytes)
      in replay_lines E J (length text_lines) 0 text_lines (es_default E))"

text \<open>\<open>StreamTxn::project\<close> and \<open>StreamTxn::append\<close>; the second also returns the log it leaves.\<close>

definition project_stream :: "('e, 'p, 'd) EventSourced \<Rightarrow> 'e json \<Rightarrow> txn_io \<Rightarrow> string \<Rightarrow> EventLogError + 'p" where
  "project_stream E J io log =
     (case tx_begin io of
        Some err \<Rightarrow> Inl err
      | None \<Rightarrow> (case tx_read io of Some source \<Rightarrow> Inl (ReadError source) | None \<Rightarrow> replay_bytes E J log))"

definition append_stream :: "'e json \<Rightarrow> append_io \<Rightarrow> string \<Rightarrow> 'e \<Rightarrow> string \<times> EventLogError option" where
  "append_stream J io log ev =
     (case ai_replaced io of
        Some source \<Rightarrow> (log, Some (AppendError source))
      | None \<Rightarrow>
          (case to_vec J ev of
             Inl source \<Rightarrow> (log, Some (SerializeError source))
           | Inr line \<Rightarrow>
               (case value_error J line of
                  Some source \<Rightarrow> (log, Some (SerializeError source))
                | None \<Rightarrow>
                    (case ai_write io of
                       None \<Rightarrow> (log @ line @ [nl], None)
                     | Some (n, source) \<Rightarrow> (log @ take n (line @ [nl]), Some (AppendError source))))))"

section \<open>The strict check of a snapshot\<close>

fun strict_records :: "('e, 'p, 'd) EventSourced \<Rightarrow> 'e json \<Rightarrow> nat \<Rightarrow> u64 option \<Rightarrow> string list \<Rightarrow> EventLogError option" where
  "strict_records E J index previous [] = None"
| "strict_records E J index previous (raw_line # rest) =
     (if is_blank raw_line then Some (ParseError (index + 1) ''event-log snapshot contains an empty record'')
      else
        (case from_str J raw_line of
           Inl source \<Rightarrow> Some (ParseError (index + 1) source)
         | Inr ev \<Rightarrow>
             (case (case previous of None \<Rightarrow> Some 1 | Some n \<Rightarrow> u64_checked_add n 1) of
                None \<Rightarrow> Some SequenceExhausted
              | Some expected \<Rightarrow>
                  if es_sequence E ev \<noteq> expected
                  then Some (ParseError (index + 1) ''event-log snapshot sequence is not the expected one'')
                  else strict_records E J (Suc index) (Some (es_sequence E ev)) rest)))"

definition line_number_at :: "string \<Rightarrow> nat \<Rightarrow> nat" where
  "line_number_at bytes offset = length (filter (\<lambda>c. c = nl) (take offset bytes)) + 1"

definition validate_strict_snapshot_stream ::
  "('e, 'p, 'd) EventSourced \<Rightarrow> 'e json \<Rightarrow> string \<Rightarrow> EventLogError option" where
  "validate_strict_snapshot_stream E J bytes =
     (if bytes = [] then None
      else if \<not> ends_with bytes [nl]
      then Some (ParseError (line_number_at bytes (length bytes))
                  ''event-log snapshot ends without a complete newline-delimited record'')
      else
        (case utf8_error bytes of
           Some valid_up_to \<Rightarrow> Some (ParseError (line_number_at bytes valid_up_to) ''event-log snapshot is not UTF-8'')
         | None \<Rightarrow> strict_records E J 0 None (split_terminator bytes)))"

section \<open>Decoding up to a newline\<close>

text \<open>A log is framed when its last record is complete.\<close>

definition framed :: "string \<Rightarrow> bool" where
  "framed s \<longleftrightarrow> s = [] \<or> last s = nl"

lemma not_cont_nl [simp]: "\<not> is_cont nl"
  by (simp add: is_cont_def)

lemma utf8_step_ascii: "(of_char a :: nat) < 128 \<Longrightarrow> utf8_step a bs = (True, 1)"
  by (simp add: utf8_step_def)

lemma utf8_step_before_ascii:
  assumes a: "(of_char a :: nat) < 128"
  shows "utf8_step c (bs @ a # rest) = utf8_step c bs \<and> snd (utf8_step c bs) - 1 \<le> length bs"
proof -
  have [simp]: "\<not> is_cont a" using a by (simp add: is_cont_def)
  have second: "second_in (bs @ a # rest) lo hi \<longleftrightarrow> second_in bs lo hi" if "128 \<le> lo" for lo hi
    using that a by (cases bs) (auto simp: second_in_def)
  have "second_ok b (bs @ a # rest) \<longleftrightarrow> second_ok b bs" for b
    by (simp add: second_ok_def second)
  moreover have "cont_at (bs @ a # rest) 0 \<longleftrightarrow> cont_at bs 0"
    by (cases bs) (auto simp: cont_at_def)
  moreover have "bs \<noteq> [] \<Longrightarrow> cont_at (bs @ a # rest) 1 \<longleftrightarrow> cont_at bs 1"
    by (cases bs rule: remdups_adj.cases) (auto simp: cont_at_def)
  moreover have "cont_at bs 1 \<Longrightarrow> cont_at (bs @ a # rest) 2 \<longleftrightarrow> cont_at bs 2"
    by (cases bs; cases "tl bs"; cases "tl (tl bs)") (auto simp: cont_at_def numeral_2_eq_2)
  moreover have "second_ok b bs \<Longrightarrow> bs \<noteq> []" for b
    by (simp add: second_ok_def second_in_def split: if_splits)
  ultimately show ?thesis
    unfolding utf8_step_def Let_def by (auto simp: cont_at_def Suc_le_eq)
qed

lemma from_utf8_lossy_append_ascii:
  assumes a: "(of_char a :: nat) < 128"
  shows "from_utf8_lossy (s @ a # rest) = from_utf8_lossy s @ a # from_utf8_lossy rest"
proof (induction s rule: from_utf8_lossy.induct)
  case (2 c cs)
  let ?n = "snd (utf8_step c cs) - 1"
  have "utf8_step c (cs @ a # rest) = utf8_step c cs" "?n \<le> length cs"
    using utf8_step_before_ascii [OF a, of c cs rest] by simp_all
  with 2 show ?case by simp
qed (simp add: utf8_step_ascii a)

lemma from_utf8_lossy_append_nl:
  "from_utf8_lossy (s @ nl # rest) = from_utf8_lossy s @ nl # from_utf8_lossy rest"
  by (rule from_utf8_lossy_append_ascii) simp

lemma from_utf8_lossy_framed:
  assumes "framed s" shows "from_utf8_lossy (s @ t) = from_utf8_lossy s @ from_utf8_lossy t"
proof (cases "s = []")
  case False
  with assms obtain s' where s: "s = s' @ [nl]" unfolding framed_def by (metis append_butlast_last_id)
  show ?thesis using from_utf8_lossy_append_nl [of s' t] from_utf8_lossy_append_nl [of s' "[]"]
    by (simp add: s)
qed simp

lemma from_utf8_lossy_no_nl: "nl \<notin> set s \<Longrightarrow> nl \<notin> set (from_utf8_lossy s)"
  by (induction s rule: from_utf8_lossy.induct)
    (auto simp: replacement_char_def dest: in_set_takeD in_set_dropD split: if_splits)

lemma from_utf8_lossy_valid: "utf8_error s = None \<Longrightarrow> from_utf8_lossy s = s"
  by (induction s rule: from_utf8_lossy.induct) (auto split: if_splits)

section \<open>Lines of a framed log\<close>

lemma split_on_append: "P c \<Longrightarrow> split_on P (a @ c # b) = split_on P a @ split_on P b"
  by (induction a) (auto split: list.splits)

lemma framed_cases [consumes 1, case_names empty ended]:
  assumes "framed s" obtains "s = []" | s' where "s = s' @ [nl]"
  using assms unfolding framed_def by (metis append_butlast_last_id)

lemma framed_from_utf8_lossy:
  assumes "framed s" shows "framed (from_utf8_lossy s)"
  using assms
proof (cases rule: framed_cases)
  case (ended s')
  then show ?thesis using from_utf8_lossy_append_nl [of s' "[]"] by (simp add: framed_def)
qed (simp add: framed_def)

lemma split_on_nl_none: "nl \<notin> set t \<Longrightarrow> split_on (\<lambda>c. c = nl) t = [t]"
  by (rule split_on_none) auto

lemma str_lines_tail:
  assumes "framed s" "nl \<notin> set t" "t \<noteq> []"
  shows "str_lines (s @ t) = str_lines s @ [t]"
  using assms(1)
proof (cases rule: framed_cases)
  case (ended s')
  with assms show ?thesis
    by (simp add: str_lines_def Let_def split_on_append split_on_nl_none butlast_append)
qed (use assms in \<open>simp add: str_lines_def split_on_nl_none\<close>)

lemma str_lines_record:
  assumes "framed s" "nl \<notin> set t"
  shows "str_lines (s @ t @ [nl]) = str_lines s @ [strip_cr t]"
  using assms(1)
proof (cases rule: framed_cases)
  case (ended s')
  with assms show ?thesis
    by (simp add: str_lines_def Let_def split_on_append split_on_nl_none butlast_append)
qed (use assms in \<open>simp add: str_lines_def split_on_append split_on_nl_none\<close>)

lemma split_terminator_record:
  assumes "framed s" "nl \<notin> set t"
  shows "split_terminator (s @ t @ [nl]) = split_terminator s @ [t]"
  using assms(1)
proof (cases rule: framed_cases)
  case (ended s')
  with assms show ?thesis
    by (simp add: split_terminator_def Let_def split_on_append split_on_nl_none butlast_append)
qed (use assms in \<open>simp add: split_terminator_def split_on_append split_on_nl_none\<close>)

lemma framed_record [simp]: "framed (s @ t @ [nl])"
  by (simp add: framed_def)

text \<open>A framed log is a sequence of records.\<close>

lemma framed_induct [consumes 1, case_names empty snoc]:
  assumes "framed s" "P []" "\<And>s t. framed s \<Longrightarrow> nl \<notin> set t \<Longrightarrow> P s \<Longrightarrow> P (s @ t @ [nl])"
  shows "P s"
  using assms(1)
proof (induction "length s" arbitrary: s rule: less_induct)
  case less
  from less.prems show ?case
  proof (cases rule: framed_cases)
    case (ended s')
    let ?t = "rev (takeWhile (\<lambda>c. c \<noteq> nl) (rev s'))" and ?r = "rev (dropWhile (\<lambda>c. c \<noteq> nl) (rev s'))"
    have split: "s' = ?r @ ?t" by (metis rev_append rev_rev_ident takeWhile_dropWhile_id)
    have "framed ?r"
      using hd_dropWhile [of "\<lambda>c. c \<noteq> nl" "rev s'"] by (auto simp: framed_def last_rev)
    moreover have "length ?r < length s" using ended length_dropWhile_le [of "\<lambda>c. c \<noteq> nl" "rev s'"] by simp
    moreover have "nl \<notin> set ?t" by (auto dest: set_takeWhileD)
    ultimately have "P (?r @ ?t @ [nl])" using less.hyps assms(3) by blast
    then show ?thesis using ended split by (metis append.assoc)
  qed (simp add: assms(2))
qed

section \<open>Trimming a record\<close>

lemma utf8_chars_snoc: "\<not> is_cont c \<Longrightarrow> utf8_chars (s @ [c]) = utf8_chars s @ [[c]]"
proof (induction s rule: utf8_chars.induct)
  case (2 d s)
  show ?case
  proof (cases "\<forall>x\<in>set s. is_cont x")
    case True
    then have "takeWhile is_cont s = s" "dropWhile is_cont s = []"
      by simp_all
    with True show ?thesis using 2(2) by (simp del: takeWhile_eq_all_conv dropWhile_eq_Nil_conv)
  next
    case False
    then show ?thesis using 2 by auto
  qed
qed simp

lemma trim_object:
  assumes "starts_with s ''{''" "ends_with s ''}''" shows "trim s = s"
proof -
  let ?W = char_is_whitespace
  have "s \<noteq> []" using assms by (auto simp: starts_with_def)
  from assms(2) have l: "last s = CHR ''}''"
    by (cases s rule: rev_cases) (auto simp: ends_with_def)
  with \<open>s \<noteq> []\<close> obtain s' where s: "s = s' @ [CHR ''}'']" by (metis append_butlast_last_id)
  have cs: "utf8_chars s = utf8_chars s' @ [[CHR ''}'']]"
    unfolding s by (rule utf8_chars_snoc) (simp add: is_cont_def)
  from assms(1) obtain r where "s = CHR ''{'' # r" by (cases s) (auto simp: starts_with_def)
  then obtain x xs where "utf8_chars s = (CHR ''{'' # x) # xs" by simp
  then have "dropWhile ?W (utf8_chars s) = utf8_chars s"
    by (simp add: char_is_whitespace_def whitespace_table_def)
  moreover have "dropWhile ?W (rev (utf8_chars s)) = rev (utf8_chars s)"
    by (simp add: cs char_is_whitespace_def whitespace_table_def)
  ultimately show ?thesis by (simp add: trim_def concat_utf8_chars)
qed

lemma trim_strip_cr: "trim (strip_cr s) = trim s"
proof (cases "s \<noteq> [] \<and> last s = CHR 0x0D")
  case True
  then obtain s' where s: "s = s' @ [CHR 0x0D]" by (metis append_butlast_last_id)
  have "utf8_chars s = utf8_chars s' @ [[CHR 0x0D]]"
    unfolding s by (rule utf8_chars_snoc) (simp add: is_cont_def)
  moreover have "char_is_whitespace [CHR 0x0D]" by (simp add: char_is_whitespace_def whitespace_table_def)
  moreover have "\<forall>x\<in>set (utf8_chars s'). char_is_whitespace x \<Longrightarrow> dropWhile char_is_whitespace (utf8_chars s') = []"
    by simp
  ultimately have "trim s = trim s'"
    by (cases "\<forall>x\<in>set (utf8_chars s'). char_is_whitespace x")
      (auto simp: trim_def simp del: dropWhile_eq_Nil_conv)
  then show ?thesis by (simp add: strip_cr_def s)
qed (auto simp: strip_cr_def)

lemma starts_object:
  assumes "starts_with s ''{''" shows "trim s \<noteq> []" "starts_with (from_utf8_lossy s) ''{''"
proof -
  from assms obtain r where s: "s = CHR ''{'' # r" by (cases s) (auto simp: starts_with_def)
  have "\<not> char_is_whitespace (CHR ''{'' # x)" for x by (simp add: char_is_whitespace_def whitespace_table_def)
  then have "\<not> is_blank s" by (simp add: is_blank_iff s)
  then show "trim s \<noteq> []" by (simp add: is_blank_def)
  show "starts_with (from_utf8_lossy s) ''{''" by (simp add: s utf8_step_ascii starts_with_def)
qed

lemma starts_object_trim:
  assumes "starts_with s ''{''" shows "starts_with (trim s) ''{''"
proof -
  let ?W = char_is_whitespace
  from assms obtain r where s: "s = CHR ''{'' # r" by (cases s) (auto simp: starts_with_def)
  then obtain x xs where cs: "utf8_chars s = (CHR ''{'' # x) # xs" by simp
  have w: "\<not> ?W (CHR ''{'' # x)" by (simp add: char_is_whitespace_def whitespace_table_def)
  have "dropWhile ?W (ys @ [CHR ''{'' # x]) = dropWhile ?W ys @ [CHR ''{'' # x]" for ys
    using w by (induction ys) auto
  then have "trim s = (CHR ''{'' # x) @ concat (rev (dropWhile ?W (rev xs)))"
    using w by (simp add: trim_def cs)
  then show ?thesis by (simp add: starts_with_def)
qed

lemma ends_object:
  assumes "ends_with s ''}''" shows "ends_with (from_utf8_lossy s) ''}''"
proof -
  from assms obtain r where "s = r @ [CHR ''}'']" by (cases s rule: rev_cases) (auto simp: ends_with_def)
  then show ?thesis using from_utf8_lossy_append_ascii [of "CHR ''}''" r "[]"] by (simp add: ends_with_def)
qed

lemma ends_with_append: "ends_with b p \<Longrightarrow> ends_with (a @ b) p"
  by (auto simp: ends_with_def)

lemma starts_with_take: "starts_with s [c] \<Longrightarrow> 0 < n \<Longrightarrow> starts_with (take n s) [c]"
  by (cases s; cases n) (auto simp: starts_with_def)

lemma starts_with_append: "starts_with a p \<Longrightarrow> starts_with (a @ b) p"
  by (auto simp: starts_with_def) (metis nat_le_linear take_all_iff)

section \<open>Logs and the events they hold\<close>

text \<open>
  What the code relies on in \<open>serde_json\<close>: a serialised event parses back, its compact form is one
  line of UTF-8 and an object, and blanks around a JSON text do not matter.
\<close>

definition codec_ok :: "'e json \<Rightarrow> bool" where
  "codec_ok J \<longleftrightarrow>
     (\<forall>ev line. to_vec J ev = Inr line \<longrightarrow>
        from_str J line = Inr ev \<and> nl \<notin> set line \<and> utf8_error line = None \<and>
        starts_with line ''{'' \<and> ends_with line ''}'') \<and>
     (\<forall>s ev. from_str J s = Inr ev \<longrightarrow> from_str J (trim s) = Inr ev)"

lemma codec_okD:
  assumes "codec_ok J" "to_vec J ev = Inr line"
  shows "from_str J line = Inr ev" "nl \<notin> set line" "utf8_error line = None" "trim line = line"
    "line \<noteq> []" "starts_with line ''{''" "ends_with line ''}''" "strip_cr line = line"
proof -
  from assms have o: "starts_with line ''{''" "ends_with line ''}''" by (simp_all add: codec_ok_def)
  from o(2) have "last line = CHR ''}''" by (cases line rule: rev_cases) (auto simp: ends_with_def)
  moreover have "line \<noteq> []" using o(1) by (auto simp: starts_with_def)
  ultimately show "from_str J line = Inr ev" "nl \<notin> set line" "utf8_error line = None" "trim line = line"
    "line \<noteq> []" "starts_with line ''{''" "ends_with line ''}''" "strip_cr line = line"
    using assms o by (auto simp: codec_ok_def trim_object strip_cr_def)
qed

text \<open>\<open>holds\<close>: every line parses, and these are the events.\<close>

definition log_lines :: "string \<Rightarrow> string list" where
  "log_lines log = str_lines (from_utf8_lossy log)"

definition parses :: "'e json \<Rightarrow> string list \<Rightarrow> 'e list \<Rightarrow> bool" where
  "parses J ls evs \<longleftrightarrow> map (\<lambda>l. from_str J (trim l)) (filter (\<lambda>l. trim l \<noteq> []) ls) = map Inr evs"

definition holds :: "'e json \<Rightarrow> string \<Rightarrow> 'e list \<Rightarrow> bool" where
  "holds J log evs \<longleftrightarrow> framed log \<and> parses J (log_lines log) evs"

lemma parses_Nil [simp]: "parses J [] evs \<longleftrightarrow> evs = []"
  by (auto simp: parses_def)

lemma parses_Cons:
  "parses J (l # ls) evs \<longleftrightarrow>
     (if trim l = [] then parses J ls evs
      else (\<exists>ev evs'. evs = ev # evs' \<and> from_str J (trim l) = Inr ev \<and> parses J ls evs'))"
  by (cases evs) (auto simp: parses_def)

lemma parses_append: "parses J ls evs \<Longrightarrow> parses J ls' evs' \<Longrightarrow> parses J (ls @ ls') (evs @ evs')"
  by (simp add: parses_def)

lemma replay_lines_parses:
  "parses J ls evs \<Longrightarrow>
     replay_lines E J n i (ls @ ls') p = replay_lines E J n (i + length ls) ls' (foldl (apply_event E) p evs)"
  by (induction ls arbitrary: i p evs) (auto simp: parses_Cons Let_def split: if_splits)

lemma log_lines_tail:
  assumes "framed log" "nl \<notin> set t" "from_utf8_lossy t \<noteq> []"
  shows "log_lines (log @ t) = log_lines log @ [from_utf8_lossy t]"
  unfolding log_lines_def
  by (simp add: assms from_utf8_lossy_framed str_lines_tail framed_from_utf8_lossy from_utf8_lossy_no_nl)

lemma log_lines_record:
  assumes "framed log" "nl \<notin> set t"
  shows "log_lines (log @ t @ [nl]) = log_lines log @ [strip_cr (from_utf8_lossy t)]"
  unfolding log_lines_def
  using from_utf8_lossy_append_nl [of t "[]"]
  by (simp add: assms from_utf8_lossy_framed str_lines_record framed_from_utf8_lossy from_utf8_lossy_no_nl)

text \<open>Replay of a log that holds its events, and of what an append or a torn write leaves behind it.\<close>

lemma replay_holds: "holds J log evs \<Longrightarrow> replay_bytes E J log = Inr (replay E evs)"
  using replay_lines_parses [of J "log_lines log" evs E "length (log_lines log)" 0 "[]" "es_default E"]
  by (simp add: holds_def replay_bytes_def replay_def log_lines_def)

lemma replay_tail:
  assumes "holds J log evs" "nl \<notin> set t" "trim (from_utf8_lossy t) = l" "l \<noteq> []"
  shows "replay_bytes E J (log @ t) =
    (case from_str J l of
       Inr ev \<Rightarrow> Inr (replay E (evs @ [ev]))
     | Inl source \<Rightarrow>
         if looks_torn l
         then Inr (es_record_diagnostic E (replay E evs) (es_torn_final_line E (Suc (length (log_lines log))) source))
         else Inl (ParseError (Suc (length (log_lines log))) source))"
proof -
  have "from_utf8_lossy t \<noteq> []" using assms(3,4) by (auto simp: trim_def)
  with assms log_lines_tail [of log t]
  have "log_lines (log @ t) = log_lines log @ [from_utf8_lossy t]" by (simp add: holds_def)
  then show ?thesis
    using assms replay_lines_parses [of J "log_lines log" evs E "Suc (length (log_lines log))" 0 "[from_utf8_lossy t]" "es_default E"]
    by (simp add: holds_def replay_bytes_def log_lines_def [symmetric] replay_def split: sum.splits)
qed

lemma replay_bad_record:
  assumes "holds J log evs" "nl \<notin> set t" "trim (from_utf8_lossy t) = l" "l \<noteq> []" "from_str J l = Inl source"
    "\<not> looks_torn l"
  shows "replay_bytes E J (log @ t @ [nl]) = Inl (ParseError (Suc (length (log_lines log))) source)"
proof -
  have "log_lines (log @ t @ [nl]) = log_lines log @ [strip_cr (from_utf8_lossy t)]"
    using assms log_lines_record [of log t] by (simp add: holds_def)
  then show ?thesis
    using assms replay_lines_parses [of J "log_lines log" evs E "Suc (length (log_lines log))" 0 "[strip_cr (from_utf8_lossy t)]" "es_default E"]
    by (simp add: holds_def replay_bytes_def log_lines_def [symmetric] trim_strip_cr)
qed

lemma holds_append:
  assumes "codec_ok J" "holds J log evs" "to_vec J ev = Inr line"
  shows "holds J (log @ line @ [nl]) (evs @ [ev])"
proof -
  note c = codec_okD [OF assms(1,3)]
  have "log_lines (log @ line @ [nl]) = log_lines log @ [line]"
    using assms(2) c log_lines_record [of log line] by (simp add: holds_def from_utf8_lossy_valid)
  moreover have "parses J [line] [ev]" using c by (simp add: parses_Cons)
  ultimately show ?thesis using assms(2) by (simp add: holds_def parses_append)
qed

lemma holds_Nil: "holds J [] []"
  by (simp add: holds_def framed_def log_lines_def str_lines_def)

text \<open>A codec given by a table, at which the properties with hypotheses are instantiated.\<close>

definition table_json :: "('e \<times> string) list \<Rightarrow> 'e json" where
  "table_json tbl =
     \<lparr> from_str = (\<lambda>s. case find (\<lambda>(ev, l). l = trim s) tbl of Some (ev, _) \<Rightarrow> Inr ev | None \<Rightarrow> Inl ''invalid''),
       to_vec = (\<lambda>ev. case map_of tbl ev of Some l \<Rightarrow> Inr l | None \<Rightarrow> Inl ''unsupported''),
       value_error = (\<lambda>_. None) \<rparr>"

lemma value_error_table [simp]: "value_error (table_json tbl) l = None"
  by (simp add: table_json_def)

lemma utf8_error_ascii: "list_all (\<lambda>c. (of_char c :: nat) < 128) s \<Longrightarrow> utf8_error s = None"
  by (induction s rule: utf8_error.induct) (auto simp: utf8_step_ascii)

definition table_line_ok :: "string \<Rightarrow> bool" where
  "table_line_ok l \<longleftrightarrow> nl \<notin> set l \<and> utf8_error l = None \<and> starts_with l ''{'' \<and> ends_with l ''}''"

lemma find_table:
  assumes "distinct (map snd tbl)" "(ev, l) \<in> set tbl"
  shows "find (\<lambda>(ev, l'). l' = l) tbl = Some (ev, l)"
  using assms by (induction tbl) (auto simp: rev_image_eqI)

lemma table_json_ok:
  assumes "distinct (map snd tbl)" "list_all (\<lambda>(ev, l). table_line_ok l) tbl"
  shows "codec_ok (table_json tbl)"
proof -
  have line: "(ev, l) \<in> set tbl \<Longrightarrow> table_line_ok l \<and> trim l = l" for ev l
    using assms(2) by (auto simp: list_all_iff table_line_ok_def trim_object)
  have "to_vec (table_json tbl) ev = Inr l \<Longrightarrow>
      from_str (table_json tbl) l = Inr ev \<and> table_line_ok l" for ev l
    using line find_table [OF assms(1), of ev l]
    by (auto simp: table_json_def dest!: map_of_SomeD split: option.splits)
  moreover have "from_str (table_json tbl) s = Inr ev \<Longrightarrow> from_str (table_json tbl) (trim s) = Inr ev" for s ev
  proof -
    assume found: "from_str (table_json tbl) s = Inr ev"
    then obtain x where "find (\<lambda>(ev, l). l = trim s) tbl = Some x" by (auto simp: table_json_def split: option.splits)
    then obtain i where "i < length tbl" "x = tbl ! i" "snd x = trim s" by (auto simp: find_Some_iff)
    then have "x \<in> set tbl" "snd x = trim s" by simp_all
    with line [of "fst x" "trim s"] have "trim (trim s) = trim s" by (metis prod.collapse)
    with found show ?thesis by (simp add: table_json_def)
  qed
  ultimately show ?thesis by (auto simp: codec_ok_def table_line_ok_def)
qed

section \<open>Streams written by appends\<close>

text \<open>
  \<open>written\<close>: the log is the serialised events, a line each; \<open>numbered\<close>: they carry the sequence
  numbers from 1.  An append whose write happens whole or not at all is \<open>intact\<close>.
\<close>

fun written :: "'e json \<Rightarrow> string \<Rightarrow> 'e list \<Rightarrow> bool" where
  "written J log [] \<longleftrightarrow> log = []"
| "written J log (ev # evs) \<longleftrightarrow>
     (\<exists>line rest. to_vec J ev = Inr line \<and> log = line @ nl # rest \<and> written J rest evs)"

definition numbered :: "('e, 'p, 'd) EventSourced \<Rightarrow> 'e list \<Rightarrow> bool" where
  "numbered E evs \<longleftrightarrow> length evs < 2 ^ 64 \<and> (\<forall>i < length evs. es_sequence E (evs ! i) = of_nat (Suc i))"

definition stream_inv :: "('e, 'p, 'd) EventSourced \<Rightarrow> 'e json \<Rightarrow> string \<Rightarrow> 'e list \<Rightarrow> bool" where
  "stream_inv E J log evs \<longleftrightarrow> written J log evs \<and> numbered E evs"

definition intact :: "'e json \<Rightarrow> append_io \<Rightarrow> 'e \<Rightarrow> bool" where
  "intact J io ev \<longleftrightarrow>
     (case (ai_write io, to_vec J ev) of
        (Some (n, _), Inr line) \<Rightarrow> n = 0 \<or> length line < n
      | _ \<Rightarrow> True)"

lemma written_snoc:
  "written J log evs \<Longrightarrow> to_vec J ev = Inr line \<Longrightarrow> written J (log @ line @ [nl]) (evs @ [ev])"
  by (induction evs arbitrary: log) auto

lemma written_snocD:
  "written J log (evs @ [ev]) \<Longrightarrow> \<exists>log' line. to_vec J ev = Inr line \<and> log = log' @ line @ [nl] \<and> written J log' evs"
proof (induction evs arbitrary: log)
  case (Cons e evs)
  then obtain line rest where l: "to_vec J e = Inr line" "log = line @ nl # rest" "written J rest (evs @ [ev])" by auto
  from Cons.IH [OF l(3)] obtain log' line' where
    "to_vec J ev = Inr line'" "rest = log' @ line' @ [nl]" "written J log' evs" by blast
  with l show ?case by (intro exI [of _ "line @ nl # log'"] exI [of _ line']) auto
qed auto

lemma written_holds:
  assumes "codec_ok J" shows "written J log evs \<Longrightarrow> holds J log evs"
proof (induction evs arbitrary: log rule: rev_induct)
  case (snoc ev evs)
  then show ?case using holds_append [OF assms] by (blast dest: written_snocD)
qed (simp add: holds_Nil)

lemma stream_inv_Nil [simp]: "stream_inv E J [] evs \<longleftrightarrow> evs = []"
  by (cases evs) (auto simp: stream_inv_def numbered_def)

lemma numbered_Suc:
  assumes "numbered E evs" "u64_checked_add (of_nat (length evs)) 1 = Some n" "es_sequence E ev = n"
  shows "numbered E (evs @ [ev])"
proof -
  have l: "length evs < 2 ^ 64" using assms(1) by (simp add: numbered_def)
  then have "unat (of_nat (length evs) :: u64) = length evs" by (simp add: unat_of_nat)
  with assms(2) have "Suc (length evs) < 2 ^ 64" "n = of_nat (Suc (length evs))"
    by (auto simp: u64_checked_add_Some)
  with assms show ?thesis by (auto simp: numbered_def nth_append less_Suc_eq)
qed

text \<open>An intact append leaves the log as it was or with the event at its end.\<close>

lemma append_stream_inv:
  assumes inv: "stream_inv E J log evs" and num: "numbered E (evs @ [ev])" and whole: "intact J io ev"
    and res: "append_stream J io log ev = (log', r)"
  shows "stream_inv E J log' (evs @ [ev]) \<or> log' = log \<and> r \<noteq> None"
    and "r = None \<Longrightarrow> stream_inv E J log' (evs @ [ev])"
proof -
  have full: "to_vec J ev = Inr line \<Longrightarrow> stream_inv E J (log @ line @ [nl]) (evs @ [ev])" for line
    using inv num written_snoc by (fastforce simp: stream_inv_def)
  then show "stream_inv E J log' (evs @ [ev]) \<or> log' = log \<and> r \<noteq> None"
    and "r = None \<Longrightarrow> stream_inv E J log' (evs @ [ev])"
    using res whole unfolding append_stream_def intact_def
    by (auto split: option.splits sum.splits prod.splits simp: take_Cons' split: if_splits)
qed

section \<open>Transactions\<close>

text \<open>A transaction whose writes do not tear a line.\<close>

definition clean_io :: "'e json \<Rightarrow> txn_io \<Rightarrow> bool" where
  "clean_io J io \<longleftrightarrow> (\<forall>k ev. intact J (tx_append io k) ev)"

definition quiet_io :: txn_io where
  "quiet_io = \<lparr> tx_begin = None, tx_read = None, tx_append = (\<lambda>_. \<lparr> ai_replaced = None, ai_write = None \<rparr>) \<rparr>"

lemma quiet_project: "project_stream E J quiet_io log = replay_bytes E J log"
  by (simp add: project_stream_def quiet_io_def)

lemma quiet_append:
  "to_vec (table_json tbl) ev = Inr line \<Longrightarrow> append_stream (table_json tbl) (tx_append quiet_io k) log ev = (log @ line @ [nl], None)"
  by (simp add: append_stream_def quiet_io_def)

lemma clean_quiet_io: "clean_io J quiet_io"
  by (simp add: clean_io_def intact_def quiet_io_def split: sum.splits)

text \<open>A transaction that meets no fault when it appends the event.\<close>

definition no_fault :: "'e json \<Rightarrow> txn_io \<Rightarrow> 'e \<Rightarrow> bool" where
  "no_fault J io ev \<longleftrightarrow>
     tx_begin io = None \<and> tx_read io = None \<and> ai_replaced (tx_append io 0) = None \<and> ai_write (tx_append io 0) = None \<and>
     (case to_vec J ev of Inl _ \<Rightarrow> False | Inr line \<Rightarrow> value_error J line = None)"

lemma no_fault_append:
  assumes "no_fault J io ev"
  obtains line where "to_vec J ev = Inr line" "append_stream J (tx_append io 0) log ev = (log @ line @ [nl], None)"
  using assms by (auto simp: no_fault_def append_stream_def split: sum.splits)

lemma no_fault_project: "no_fault J io ev \<Longrightarrow> project_stream E J io log = replay_bytes E J log"
  by (simp add: no_fault_def project_stream_def)

lemma unat_succ:
  assumes "Suc n \<noteq> 2 ^ 64" "n = unat (s :: u64)" shows "unat (of_nat (Suc n) :: u64) = Suc n"
proof -
  have "n < 2 ^ LENGTH(64)" unfolding assms(2) by (rule unsigned_less)
  with assms(1) show ?thesis by (simp add: unat_of_nat del: of_nat_Suc)
qed

section \<open>Torn writes\<close>

text \<open>A proper prefix of a serialised event at the end of the log.\<close>

definition torn_prefix :: "'e json \<Rightarrow> string \<Rightarrow> bool" where
  "torn_prefix J t \<longleftrightarrow> (\<exists>ev line k. to_vec J ev = Inr line \<and> t = take k line \<and> 0 < k \<and> k < length line)"

lemma torn_prefixD:
  assumes "codec_ok J" "torn_prefix J t"
  shows "nl \<notin> set t" "starts_with t ''{''" "trim (from_utf8_lossy t) \<noteq> []"
proof -
  from assms(2) obtain ev line k where l: "to_vec J ev = Inr line" "t = take k line" "0 < k"
    unfolding torn_prefix_def by blast
  note c = codec_okD [OF assms(1) l(1)]
  from c l show "nl \<notin> set t" by (auto dest: in_set_takeD)
  from c l show "starts_with t ''{''" by (simp add: starts_with_take)
  then show "trim (from_utf8_lossy t) \<noteq> []" by (intro starts_object)
qed

lemma replay_torn:
  assumes "codec_ok J" "holds J log evs" "torn_prefix J t" "from_str J (trim (from_utf8_lossy t)) = Inl e"
  shows "replay_bytes E J (log @ t) =
    (if looks_torn (trim (from_utf8_lossy t))
     then Inr (es_record_diagnostic E (replay E evs) (es_torn_final_line E (Suc (length (log_lines log))) e))
     else Inl (ParseError (Suc (length (log_lines log))) e))"
  using replay_tail [OF assms(2) torn_prefixD(1) [OF assms(1,3)] refl torn_prefixD(3) [OF assms(1,3)], of E] assms(4) by simp

lemma replay_torn_append:
  assumes "codec_ok J" "holds J log evs" "torn_prefix J t" "to_vec J ev = Inr line"
    "from_str J (trim (from_utf8_lossy (t @ line))) = Inl e"
  shows "replay_bytes E J ((log @ t) @ line @ [nl]) = Inl (ParseError (Suc (length (log_lines log))) e)"
proof -
  note c = codec_okD [OF assms(1,4)] and t = torn_prefixD [OF assms(1,3)]
  let ?l = "from_utf8_lossy (t @ line)"
  have o: "starts_with ?l ''{''" "ends_with ?l ''}''"
    using t c by (auto intro!: starts_object ends_object starts_with_append ends_with_append)
  then have "trim ?l = ?l" "\<not> looks_torn ?l" "?l \<noteq> []"
    by (auto simp: trim_object looks_torn_def starts_with_def)
  then show ?thesis using replay_bad_record [OF assms(2), of "t @ line" ?l e E] assms(5) t c by simp
qed

section \<open>The strict check accepts the numbered streams\<close>

definition numbered_from :: "nat \<Rightarrow> ('e, 'p, 'd) EventSourced \<Rightarrow> 'e list \<Rightarrow> bool" where
  "numbered_from k E evs \<longleftrightarrow>
     k + length evs < 2 ^ 64 \<and> (\<forall>i < length evs. es_sequence E (evs ! i) = of_nat (Suc (k + i)))"

definition prev_seq :: "nat \<Rightarrow> u64 option" where
  "prev_seq k = (if k = 0 then None else Some (of_nat k))"

lemma prev_seq_succ:
  assumes "k < 2 ^ 64"
  shows "(case prev_seq k of None \<Rightarrow> Some 1 | Some n \<Rightarrow> u64_checked_add n 1) =
    (if Suc k < 2 ^ 64 then Some (of_nat (Suc k)) else None)"
proof -
  have "unat (of_nat k :: u64) = k" using assms by (simp add: unat_of_nat)
  then show ?thesis by (simp add: prev_seq_def u64_checked_add_def)
qed

lemma numbered_from_Cons:
  assumes "k < 2 ^ 64"
  shows "numbered_from k E (ev # evs) \<longleftrightarrow>
    Suc k < 2 ^ 64 \<and> es_sequence E ev = of_nat (Suc k) \<and> numbered_from (Suc k) E evs"
  using assms by (auto simp: numbered_from_def nth_Cons less_Suc_eq_0_disj simp del: of_nat_Suc split: nat.splits)

lemma strict_records_None:
  "k < 2 ^ 64 \<Longrightarrow>
   strict_records E J i (prev_seq k) ls = None \<longleftrightarrow>
     (\<exists>evs. map (from_str J) ls = map Inr evs \<and> (\<forall>l\<in>set ls. \<not> is_blank l) \<and> numbered_from k E evs)"
proof (induction ls arbitrary: i k)
  case Nil
  then show ?case by (simp add: numbered_from_def)
next
  case (Cons l ls)
  show ?case
  proof (cases "from_str J l")
    case (Inl a)
    then show ?thesis by (auto simp: Cons_eq_map_conv)
  next
    case (Inr ev)
    have more: "(\<exists>evs. map (from_str J) (l # ls) = map Inr evs \<and> P evs) \<longleftrightarrow>
        (\<exists>evs. map (from_str J) ls = map Inr evs \<and> P (ev # evs))" for P
      using Inr by (auto simp: Cons_eq_map_conv)
    have "strict_records E J i (prev_seq k) (l # ls) = None \<longleftrightarrow>
        \<not> is_blank l \<and> Suc k < 2 ^ 64 \<and> es_sequence E ev = of_nat (Suc k) \<and>
        strict_records E J (Suc i) (prev_seq (Suc k)) ls = None"
      using Inr by (auto simp: prev_seq_succ [OF Cons.prems] prev_seq_def [of "Suc k"] simp del: of_nat_Suc)
    then show ?thesis
      unfolding more numbered_from_Cons [OF Cons.prems] using Cons.IH [of "Suc k" "Suc i"] by auto
  qed
qed

lemma numbered_from_0: "numbered_from 0 E evs \<longleftrightarrow> numbered E evs"
  by (simp add: numbered_from_def numbered_def)

lemma str_lines_split_terminator: "framed s \<Longrightarrow> str_lines s = map strip_cr (split_terminator s)"
  by (induction s rule: framed_induct)
    (simp_all add: str_lines_record split_terminator_record, simp add: str_lines_def split_terminator_def)

lemma ends_with_nl: "s \<noteq> [] \<Longrightarrow> ends_with s [nl] \<longleftrightarrow> framed s"
  by (cases s rule: rev_cases) (auto simp: ends_with_def framed_def)

lemma strict_parses:
  assumes "codec_ok J"
  shows "map (from_str J) ls = map Inr evs \<Longrightarrow> \<forall>l\<in>set ls. \<not> is_blank l \<Longrightarrow> parses J (map strip_cr ls) evs"
proof (induction ls arbitrary: evs)
  case (Cons l ls)
  then obtain ev evs' where "evs = ev # evs'" "from_str J l = Inr ev" "map (from_str J) ls = map Inr evs'"
    by (auto simp: Cons_eq_map_conv)
  moreover from this(2) have "from_str J (trim l) = Inr ev" using assms unfolding codec_ok_def by blast
  ultimately show ?case using Cons by (simp add: parses_Cons trim_strip_cr is_blank_def)
qed simp

lemma strict_holds:
  assumes "codec_ok J" "validate_strict_snapshot_stream E J log = None"
  shows "\<exists>evs. holds J log evs \<and> numbered E evs \<and> length evs = length (split_terminator log)"
proof (cases "log = []")
  case True
  then show ?thesis using holds_Nil [of J] by (auto simp: numbered_def split_terminator_def)
next
  case False
  with assms(2) have f: "framed log" and u: "utf8_error log = None"
    and "strict_records E J 0 (prev_seq 0) (split_terminator log) = None"
    by (auto simp: validate_strict_snapshot_stream_def ends_with_nl prev_seq_def split: if_splits option.splits)
  from strict_records_None [THEN iffD1, OF _ this(3)] obtain evs where
    e: "map (from_str J) (split_terminator log) = map Inr evs" "\<forall>l\<in>set (split_terminator log). \<not> is_blank l"
    "numbered E evs" unfolding numbered_from_0 by auto
  have "holds J log evs"
    using strict_parses [OF assms(1) e(1,2)] f
    by (simp add: holds_def log_lines_def from_utf8_lossy_valid [OF u] str_lines_split_terminator)
  with e show ?thesis by (metis length_map)
qed

lemma utf8_error_record: "utf8_error (a @ nl # b) = None \<longleftrightarrow> utf8_error a = None \<and> utf8_error b = None"
proof (induction a rule: utf8_error.induct)
  case (2 c cs)
  let ?n = "snd (utf8_step c cs) - 1"
  have "utf8_step c (cs @ nl # b) = utf8_step c cs" "?n \<le> length cs"
    using utf8_step_before_ascii [of nl c cs b] by simp_all
  with 2 show ?case by (auto split: if_splits)
qed (simp add: utf8_step_ascii)

lemma written_strict:
  assumes "codec_ok J"
  shows "written J log evs \<Longrightarrow> framed log \<and> utf8_error log = None \<and>
    map (from_str J) (split_terminator log) = map Inr evs \<and> (\<forall>l\<in>set (split_terminator log). \<not> is_blank l)"
proof (induction evs arbitrary: log rule: rev_induct)
  case (snoc ev evs)
  then obtain log' line where l: "to_vec J ev = Inr line" "log = log' @ line @ [nl]" "written J log' evs"
    by (blast dest: written_snocD)
  note c = codec_okD [OF assms l(1)]
  from snoc.IH [OF l(3)] have IH: "framed log'" "utf8_error log' = None" by auto
  have "utf8_error log = None"
    using IH(1)
  proof (cases rule: framed_cases)
    case (ended s)
    then have "log = s @ nl # line @ [nl]" using l(2) by simp
    moreover have "utf8_error s = None" using IH(2) ended utf8_error_record [of s "[]"] by simp
    moreover have "utf8_error (line @ [nl]) = None" using c(3) by (simp add: utf8_error_record)
    ultimately show ?thesis by (simp add: utf8_error_record)
  qed (use c(3) l(2) utf8_error_record [of line "[]"] in simp)
  then show ?case
    using snoc.IH [OF l(3)] c by (simp add: l(2) split_terminator_record is_blank_def)
qed (simp add: framed_def split_terminator_def)

section \<open>The contract of the trait\<close>

locale event_sourced =
  fixes E :: "('e, 'p, 'd) EventSourced" and st :: "'p \<Rightarrow> 's" and step :: "'s \<Rightarrow> 'e \<Rightarrow> 's"
  assumes sequence_default: "es_sequence_of E (es_default E) = 0"
    and sequence_diagnostic: "es_sequence_of E (es_record_diagnostic E p d) = es_sequence_of E p"
    and sequence_advance: "es_sequence_of E (es_advance_sequence E p n) = n"
    and state_diagnostic: "st (es_record_diagnostic E p d) = st p"
    and state_advance: "st (es_advance_sequence E p n) = st p"
    and state_apply: "st (es_apply E p ev) = step (st p) ev"
begin

lemma sequence_grows: "es_sequence_of E p \<le> es_sequence_of E (apply_event E p ev)"
  by (auto simp: apply_event_def Let_def sequence_diagnostic sequence_advance word_gt_0)

lemma apply_event_fresh:
  "es_sequence_of E p < es_sequence E ev \<Longrightarrow>
     apply_event E p ev = es_advance_sequence E (es_apply E p ev) (es_sequence E ev)"
  by (auto simp: apply_event_def Let_def)

lemma replay_numbered:
  "numbered E evs \<Longrightarrow>
     es_sequence_of E (replay E evs) = of_nat (length evs) \<and>
     st (replay E evs) = foldl step (st (es_default E)) evs"
proof (induction evs rule: rev_induct)
  case (snoc ev evs)
  then have l: "Suc (length evs) < 2 ^ 64" and s: "es_sequence E ev = of_nat (Suc (length evs))"
    and n: "numbered E evs"
    unfolding numbered_def by (auto simp: nth_append less_Suc_eq)
  have "(of_nat (length evs) :: u64) < of_nat (Suc (length evs))"
    using l by (simp add: word_less_nat_alt unat_of_nat del: of_nat_Suc)
  with snoc.IH [OF n] s have "es_sequence_of E (replay E evs) < es_sequence E ev" by simp
  from apply_event_fresh [OF this] snoc.IH [OF n] s show ?case
    by (simp add: replay_def sequence_advance state_advance state_apply)
qed (simp add: replay_def sequence_default)

lemma next_sequence_numbered:
  "numbered E evs \<Longrightarrow> next_sequence E (replay E evs) = Inr n \<Longrightarrow> es_sequence E ev = n \<Longrightarrow> numbered E (evs @ [ev])"
  by (rule numbered_Suc) (auto simp: next_sequence_def replay_numbered split: option.splits)

text \<open>A stream written by appends passes the strict check, and one that passes it replays completely.\<close>

lemma strict_replay:
  assumes "codec_ok J" "validate_strict_snapshot_stream E J log = None"
  shows "\<exists>evs. length evs = length (split_terminator log) \<and> replay_bytes E J log = Inr (replay E evs) \<and>
    es_sequence_of E (replay E evs) = of_nat (length evs) \<and>
    st (replay E evs) = foldl step (st (es_default E)) evs"
  using strict_holds [OF assms] replay_holds [of J log _ E] replay_numbered by blast

lemma stream_strict:
  assumes "codec_ok J" "stream_inv E J log evs"
  shows "validate_strict_snapshot_stream E J log = None"
proof -
  from assms have w: "written J log evs" and n: "numbered_from 0 E evs"
    by (auto simp: stream_inv_def numbered_from_0)
  note s = written_strict [OF assms(1) w]
  from s n have "strict_records E J 0 (prev_seq 0) (split_terminator log) = None"
    by (auto simp: strict_records_None)
  with s show ?thesis by (auto simp: validate_strict_snapshot_stream_def prev_seq_def ends_with_nl)
qed

lemma project_stream_inv:
  assumes "codec_ok J" "stream_inv E J log evs" "project_stream E J io log = Inr p"
  shows "p = replay E evs" "st p = foldl step (st (es_default E)) evs"
  using assms replay_holds [OF written_holds [OF assms(1)], of log evs E] replay_numbered [of evs]
  by (auto simp: stream_inv_def project_stream_def split: option.splits)

text \<open>The last part of every operation: the event with the next number is appended.\<close>

lemma publish_inv:
  assumes "codec_ok J" "stream_inv E J log evs" "project_stream E J io log = Inr p" "next_sequence E p = Inr n"
    "es_sequence E ev = n" "intact J aio ev" "append_stream J aio log ev = (log', r)"
  shows "\<exists>evs'. stream_inv E J log' evs' \<and> (evs' = evs \<and> r \<noteq> None \<or> evs' = evs @ [ev])"
proof -
  have "p = replay E evs" using project_stream_inv(1) [OF assms(1-3)] .
  with assms next_sequence_numbered have "numbered E (evs @ [ev])" by (simp add: stream_inv_def)
  from append_stream_inv [OF assms(2) this assms(6,7)] assms(2) show ?thesis by blast
qed

lemma next_sequence_eq:
  "next_sequence E p =
     (if Suc (unat (es_sequence_of E p)) = 2 ^ 64 then Inl SequenceExhausted
      else Inr (of_nat (Suc (unat (es_sequence_of E p)))))"
proof -
  have "unat (es_sequence_of E p) < 2 ^ LENGTH(64)" by (rule unsigned_less)
  then show ?thesis by (auto simp: next_sequence_def u64_checked_add_def)
qed

lemma replay_stream:
  assumes "codec_ok J" "stream_inv E J log evs"
  shows "\<exists>p. replay_bytes E J log = Inr p \<and> st p = foldl step (st (es_default E)) evs \<and>
    es_sequence_of E p = of_nat (length evs)"
  using assms replay_holds [OF written_holds [OF assms(1)], of log evs E] replay_numbered [of evs]
  by (auto simp: stream_inv_def)

lemma publish_effect:
  assumes "codec_ok J" "stream_inv E J log evs" "replay_bytes E J log = Inr p"
    "next_sequence E p = Inr n" "es_sequence E ev = n" "no_fault J io ev"
  shows "\<exists>log' p'. append_stream J (tx_append io 0) log ev = (log', None) \<and> stream_inv E J log' (evs @ [ev]) \<and>
    replay_bytes E J log' = Inr p' \<and> st p' = step (st p) ev \<and> es_sequence_of E p' = n"
proof -
  from assms(6) obtain line where a: "append_stream J (tx_append io 0) log ev = (log @ line @ [nl], None)"
    by (rule no_fault_append)
  from assms(6) have w: "intact J (tx_append io 0) ev" by (simp add: no_fault_def intact_def split: sum.splits)
  from assms(3,6) have pr: "project_stream E J io log = Inr p" by (simp add: no_fault_project)
  have s: "stream_inv E J (log @ line @ [nl]) (evs @ [ev])"
    using publish_inv [OF assms(1,2) pr assms(4) _ w a] assms(5) by auto
  from replay_stream [OF assms(1) s] replay_stream [OF assms(1,2)] s assms(3,5) a show ?thesis
    by (auto simp: stream_inv_def numbered_def nth_append)
qed

end

end
