(* ===== verification/Governance_Ledger.thy ===== *)
theory Governance_Ledger
  imports Event_Stream Claim_Contracts Ordered_Map
begin

text \<open>
  The arbitration ledger of \<open>src/crates/forge-core-eventlog/src/governance\<close>: its events, the
  projection \<open>GovernanceDomain\<close> folds them into (\<open>lib.rs\<close>), and the operations \<open>record\<close>,
  \<open>arbitrate\<close>, \<open>escalate\<close> and \<open>list\<close>.  An operation takes the bytes of the log and returns the
  bytes it leaves with its status.

  The lemmas interpret the trait's contract on this domain, show that the operations refine a
  ledger kept as a map, that a decision is final and made by an authorised arbiter, that every
  ledger passes the strict snapshot check, and what a torn write does to the next append.
\<close>

section \<open>Events and projection\<close>

datatype GovernanceEvent =
  GDetected u64 u64 ConflictContract
| GResolved u64 u64 StableId PrincipalId ResolutionDecision
| GEscalated u64 u64 StableId

fun gov_sequence :: "GovernanceEvent \<Rightarrow> u64" where
  "gov_sequence (GDetected sequence _ _) = sequence"
| "gov_sequence (GResolved sequence _ _ _ _) = sequence"
| "gov_sequence (GEscalated sequence _ _) = sequence"

record ArbitrationProjection =
  ap_sequence :: u64
  ap_conflicts :: "ConflictContract btree_map"
  ap_diagnostics :: "LedgerDiagnostic list"

definition target_missing :: "string \<Rightarrow> StableId \<Rightarrow> LedgerDiagnostic" where
  "target_missing event cid =
     \<lparr> ld_severity = LsWarning, ld_code = ''resolution_target_missing'',
       ld_message = event @ '' event targeted unknown conflict '' @ cid \<rparr>"

fun gov_apply :: "ArbitrationProjection \<Rightarrow> GovernanceEvent \<Rightarrow> ArbitrationProjection" where
  "gov_apply p (GDetected _ _ conflict) =
     p\<lparr> ap_conflicts := bt_insert (conflict_id conflict) conflict (ap_conflicts p) \<rparr>"
| "gov_apply p (GResolved _ at_unix cid arb dec) =
     (case bt_get (ap_conflicts p) cid of
        Some c \<Rightarrow> p\<lparr> ap_conflicts := bt_insert cid (c\<lparr> resolution := Resolved arb at_unix dec \<rparr>) (ap_conflicts p) \<rparr>
      | None \<Rightarrow> p\<lparr> ap_diagnostics := ap_diagnostics p @ [target_missing ''Resolved'' cid] \<rparr>)"
| "gov_apply p (GEscalated _ _ cid) =
     (case bt_get (ap_conflicts p) cid of
        Some c \<Rightarrow> p\<lparr> ap_conflicts := bt_insert cid (c\<lparr> resolution := Escalated \<rparr>) (ap_conflicts p) \<rparr>
      | None \<Rightarrow> p\<lparr> ap_diagnostics := ap_diagnostics p @ [target_missing ''Escalated'' cid] \<rparr>)"

definition governance_domain :: "(GovernanceEvent, ArbitrationProjection, LedgerDiagnostic) EventSourced" where
  "governance_domain =
     \<lparr> es_default = \<lparr> ap_sequence = 0, ap_conflicts = [], ap_diagnostics = [] \<rparr>,
       es_sequence = gov_sequence,
       es_apply = gov_apply,
       es_record_diagnostic = (\<lambda>p d. p\<lparr> ap_diagnostics := ap_diagnostics p @ [d] \<rparr>),
       es_sequence_of = ap_sequence,
       es_advance_sequence = (\<lambda>p n. p\<lparr> ap_sequence := n \<rparr>),
       es_out_of_order = diagnostic_out_of_order_event_ignored,
       es_torn_final_line = diagnostic_torn_final_line_skipped \<rparr>"

section \<open>Operations\<close>

datatype RecordStatus = Recorded u64 | AlreadyRecorded | RecordStoreError EventLogError

datatype ArbitrateStatus =
  ArbResolved u64 | ArbDeniedByGate | ArbConflictNotFound | ArbNotPending | ArbStoreError EventLogError

datatype EscalateStatus =
  EscEscalated u64 | EscDeniedByGate | EscConflictNotFound | EscNotPending | EscStoreError EventLogError

definition record_conflict ::
  "GovernanceEvent json \<Rightarrow> txn_io \<Rightarrow> u64 \<Rightarrow> string \<Rightarrow> ConflictContract \<Rightarrow> string \<times> RecordStatus" where
  "record_conflict J io now log conflict =
     (case project_stream governance_domain J io log of
        Inl source \<Rightarrow> (log, RecordStoreError source)
      | Inr projection \<Rightarrow>
          if bt_get (ap_conflicts projection) (conflict_id conflict) \<noteq> None then (log, AlreadyRecorded)
          else
            (case next_sequence governance_domain projection of
               Inl source \<Rightarrow> (log, RecordStoreError source)
             | Inr sequence \<Rightarrow>
                 (case append_stream J (tx_append io 0) log (GDetected sequence now conflict) of
                    (log', None) \<Rightarrow> (log', Recorded sequence)
                  | (log', Some err) \<Rightarrow> (log', RecordStoreError err))))"

definition arbitrate ::
  "GovernanceEvent json \<Rightarrow> txn_io \<Rightarrow> u64 \<Rightarrow> string \<Rightarrow> StableId \<Rightarrow> PrincipalId \<Rightarrow> ResolutionDecision \<Rightarrow>
   GovernancePolicy \<Rightarrow> string \<times> ArbitrateStatus" where
  "arbitrate J io now log cid arb dec policy =
     (if \<not> can_arbitrate policy arb then (log, ArbDeniedByGate)
      else
        (case project_stream governance_domain J io log of
           Inl source \<Rightarrow> (log, ArbStoreError source)
         | Inr projection \<Rightarrow>
             (case bt_get (ap_conflicts projection) cid of
                None \<Rightarrow> (log, ArbConflictNotFound)
              | Some conflict \<Rightarrow>
                  if resolution conflict \<noteq> Pending then (log, ArbNotPending)
                  else
                    (case next_sequence governance_domain projection of
                       Inl source \<Rightarrow> (log, ArbStoreError source)
                     | Inr sequence \<Rightarrow>
                         (case append_stream J (tx_append io 0) log (GResolved sequence now cid arb dec) of
                            (log', None) \<Rightarrow> (log', ArbResolved sequence)
                          | (log', Some err) \<Rightarrow> (log', ArbStoreError err))))))"

definition escalate ::
  "GovernanceEvent json \<Rightarrow> txn_io \<Rightarrow> u64 \<Rightarrow> string \<Rightarrow> StableId \<Rightarrow> PrincipalId \<Rightarrow> GovernancePolicy \<Rightarrow>
   string \<times> EscalateStatus" where
  "escalate J io now log cid who policy =
     (if \<not> can_arbitrate policy who then (log, EscDeniedByGate)
      else
        (case project_stream governance_domain J io log of
           Inl source \<Rightarrow> (log, EscStoreError source)
         | Inr projection \<Rightarrow>
             (case bt_get (ap_conflicts projection) cid of
                None \<Rightarrow> (log, EscConflictNotFound)
              | Some conflict \<Rightarrow>
                  if resolution conflict \<noteq> Pending then (log, EscNotPending)
                  else
                    (case next_sequence governance_domain projection of
                       Inl source \<Rightarrow> (log, EscStoreError source)
                     | Inr sequence \<Rightarrow>
                         (case append_stream J (tx_append io 0) log (GEscalated sequence now cid) of
                            (log', None) \<Rightarrow> (log', EscEscalated sequence)
                          | (log', Some err) \<Rightarrow> (log', EscStoreError err))))))"

definition list_conflicts ::
  "GovernanceEvent json \<Rightarrow> txn_io \<Rightarrow> string \<Rightarrow> ConflictResolutionState option \<Rightarrow> EventLogError + ArbitrationProjection" where
  "list_conflicts J io log want =
     (case project_stream governance_domain J io log of
        Inl source \<Rightarrow> Inl source
      | Inr projection \<Rightarrow>
          let conflicts =
            (case want of
               Some w \<Rightarrow> filter (\<lambda>c. resolution c = w) (bt_values (ap_conflicts projection))
             | None \<Rightarrow> bt_values (ap_conflicts projection))
          in Inr \<lparr> ap_sequence = ap_sequence projection,
                   ap_conflicts = fold (\<lambda>c. bt_insert (conflict_id c) c) conflicts [],
                   ap_diagnostics = ap_diagnostics projection \<rparr>)"

section \<open>The contract of the trait on this domain\<close>

fun gov_step :: "ConflictContract btree_map \<Rightarrow> GovernanceEvent \<Rightarrow> ConflictContract btree_map" where
  "gov_step m (GDetected _ _ conflict) = bt_insert (conflict_id conflict) conflict m"
| "gov_step m (GResolved _ at_unix cid arb dec) =
     (case bt_get m cid of None \<Rightarrow> m | Some c \<Rightarrow> bt_insert cid (c\<lparr> resolution := Resolved arb at_unix dec \<rparr>) m)"
| "gov_step m (GEscalated _ _ cid) =
     (case bt_get m cid of None \<Rightarrow> m | Some c \<Rightarrow> bt_insert cid (c\<lparr> resolution := Escalated \<rparr>) m)"

lemma gov_apply_conflicts: "ap_conflicts (gov_apply p ev) = gov_step (ap_conflicts p) ev"
  by (cases ev) (auto split: option.splits)

interpretation gov: event_sourced governance_domain ap_conflicts gov_step
  by unfold_locales (simp_all add: governance_domain_def gov_apply_conflicts)

section \<open>Runs of the ledger\<close>

text \<open>
  What the operations do to a ledger held as a map, when the log takes the event: a new conflict
  is stored pending, a pending one is decided.
\<close>

fun gov_allowed :: "GovernancePolicy \<Rightarrow> ConflictContract btree_map \<Rightarrow> GovernanceEvent \<Rightarrow> bool" where
  "gov_allowed P m (GDetected _ _ c) \<longleftrightarrow> bt_get m (conflict_id c) = None \<and> resolution c = Pending"
| "gov_allowed P m (GResolved _ _ cid arb _) \<longleftrightarrow>
     can_arbitrate P arb \<and> (case bt_get m cid of None \<Rightarrow> False | Some c \<Rightarrow> resolution c = Pending)"
| "gov_allowed P m (GEscalated _ _ cid) \<longleftrightarrow> (case bt_get m cid of None \<Rightarrow> False | Some c \<Rightarrow> resolution c = Pending)"

text \<open>The operations of one policy, with reads and writes that may fail but do not tear a line.\<close>

inductive ledger_step :: "GovernanceEvent json \<Rightarrow> GovernancePolicy \<Rightarrow> string \<Rightarrow> string \<Rightarrow> bool" for J P where
  step_record: "resolution c = Pending \<Longrightarrow> clean_io J io \<Longrightarrow> record_conflict J io now log c = (log', s) \<Longrightarrow>
    ledger_step J P log log'"
| step_arbitrate: "clean_io J io \<Longrightarrow> arbitrate J io now log cid arb dec P = (log', s') \<Longrightarrow> ledger_step J P log log'"
| step_escalate: "clean_io J io \<Longrightarrow> escalate J io now log cid who P = (log', s'') \<Longrightarrow> ledger_step J P log log'"

abbreviation ledger_run :: "GovernanceEvent json \<Rightarrow> GovernancePolicy \<Rightarrow> string \<Rightarrow> string \<Rightarrow> bool" where
  "ledger_run J P \<equiv> (ledger_step J P)\<^sup>*\<^sup>*"

definition ledger_of :: "GovernanceEvent list \<Rightarrow> ConflictContract btree_map" where
  "ledger_of evs = foldl gov_step [] evs"

lemma ledger_of_snoc [simp]: "ledger_of (evs @ [ev]) = gov_step (ledger_of evs) ev"
  by (simp add: ledger_of_def)

text \<open>An operation leaves the log alone or appends the event of the next number, under these conditions.\<close>

lemma record_conflict_log:
  assumes "record_conflict J io now log c = (log', s)"
  obtains "log' = log" | p n r where "project_stream governance_domain J io log = Inr p"
    "bt_get (ap_conflicts p) (conflict_id c) = None" "next_sequence governance_domain p = Inr n"
    "append_stream J (tx_append io 0) log (GDetected n now c) = (log', r)"
  using assms unfolding record_conflict_def by (auto split: sum.splits option.splits prod.splits if_splits)

lemma arbitrate_log:
  assumes "arbitrate J io now log cid arb dec P = (log', s)"
  obtains "log' = log" | p n r c where "can_arbitrate P arb" "project_stream governance_domain J io log = Inr p"
    "bt_get (ap_conflicts p) cid = Some c" "resolution c = Pending" "next_sequence governance_domain p = Inr n"
    "append_stream J (tx_append io 0) log (GResolved n now cid arb dec) = (log', r)"
  using assms unfolding arbitrate_def by (auto split: sum.splits option.splits prod.splits if_splits)

lemma escalate_log:
  assumes "escalate J io now log cid who P = (log', s)"
  obtains "log' = log" | p n r c where "project_stream governance_domain J io log = Inr p"
    "bt_get (ap_conflicts p) cid = Some c" "resolution c = Pending" "next_sequence governance_domain p = Inr n"
    "append_stream J (tx_append io 0) log (GEscalated n now cid) = (log', r)"
  using assms unfolding escalate_def by (auto split: sum.splits option.splits prod.splits if_splits)

lemma projected_ledger:
  assumes "codec_ok J" "stream_inv governance_domain J log evs" "project_stream governance_domain J io log = Inr p"
  shows "ap_conflicts p = ledger_of evs"
  using gov.project_stream_inv(2) [OF assms] by (simp add: ledger_of_def governance_domain_def)

lemma replayed_ledger:
  assumes "codec_ok J" "stream_inv governance_domain J log evs"
  shows "\<exists>p. replay_bytes governance_domain J log = Inr p \<and> ap_conflicts p = ledger_of evs \<and> ap_sequence p = of_nat (length evs)"
  using assms written_holds [OF assms(1)] replay_holds gov.replay_numbered [of evs]
  by (fastforce simp: stream_inv_def ledger_of_def governance_domain_def)

lemma gov_publish:
  assumes "codec_ok J" "stream_inv governance_domain J log evs" "project_stream governance_domain J io log = Inr p"
    "next_sequence governance_domain p = Inr n" "gov_sequence ev = n" "clean_io J io"
    "append_stream J (tx_append io 0) log ev = (log', r)" "gov_allowed P (ap_conflicts p) ev"
  shows "\<exists>evs'. stream_inv governance_domain J log' evs' \<and>
    (evs' = evs \<or> (\<exists>ev. evs' = evs @ [ev] \<and> gov_allowed P (ledger_of evs) ev))"
  using gov.publish_inv [OF assms(1-4) _ _ assms(7)] assms projected_ledger [OF assms(1-3)]
  by (fastforce simp: governance_domain_def clean_io_def)

lemma ledger_step_inv:
  assumes "codec_ok J" "stream_inv governance_domain J log evs" "ledger_step J P log log'"
  shows "\<exists>evs'. stream_inv governance_domain J log' evs' \<and>
    (evs' = evs \<or> (\<exists>ev. evs' = evs @ [ev] \<and> gov_allowed P (ledger_of evs) ev))"
  using assms(3)
proof cases
  case (step_record c io now s)
  from step_record(3) show ?thesis
  proof (cases rule: record_conflict_log)
    case (2 p n r)
    show ?thesis
      by (rule gov_publish [OF assms(1,2) 2(1,3) _ step_record(2) 2(4)]) (use 2 step_record in simp_all)
  qed (use assms in blast)
next
  case (step_arbitrate io now cid arb dec s)
  from step_arbitrate(2) show ?thesis
  proof (cases rule: arbitrate_log)
    case (2 p n r c)
    show ?thesis
      by (rule gov_publish [OF assms(1,2) 2(2,5) _ step_arbitrate(1) 2(6)]) (use 2 in simp_all)
  qed (use assms in blast)
next
  case (step_escalate io now cid who s)
  from step_escalate(2) show ?thesis
  proof (cases rule: escalate_log)
    case (2 p n r c)
    show ?thesis
      by (rule gov_publish [OF assms(1,2) 2(1,4) _ step_escalate(1) 2(5)]) (use 2 in simp_all)
  qed (use assms in blast)
qed

text \<open>Along a run the ledger only gains pending conflicts and decides pending ones.\<close>

lemma gov_step_keeps:
  assumes "gov_allowed P m ev" "bt_get m k = Some c"
  shows "\<exists>c'. bt_get (gov_step m ev) k = Some c' \<and> c' = c\<lparr> resolution := resolution c' \<rparr> \<and>
    (resolution c \<noteq> Pending \<longrightarrow> c' = c)"
  using assms by (cases ev) (auto simp: bt_get_insert split: option.splits)

lemma gov_step_authorised:
  assumes "gov_allowed P m ev" "\<And>k c arb t d. bt_get m k = Some c \<Longrightarrow> resolution c = Resolved arb t d \<Longrightarrow> can_arbitrate P arb"
    "bt_get (gov_step m ev) k = Some c" "resolution c = Resolved arb t d"
  shows "can_arbitrate P arb"
  using assms by (cases ev) (auto simp: bt_get_insert split: option.splits if_splits)

lemma ledger_run_inv:
  assumes "codec_ok J" "stream_inv governance_domain J log evs" "ledger_run J P log log'"
  shows "\<exists>evs'. stream_inv governance_domain J log' evs' \<and>
    (\<forall>k c. bt_get (ledger_of evs) k = Some c \<longrightarrow>
       (\<exists>c'. bt_get (ledger_of evs') k = Some c' \<and> c' = c\<lparr> resolution := resolution c' \<rparr> \<and> (resolution c \<noteq> Pending \<longrightarrow> c' = c)))"
  using assms(3)
proof (induction rule: rtranclp_induct)
  case base
  then show ?case using assms(2) by auto
next
  case (step y z)
  then obtain ey where ey: "stream_inv governance_domain J y ey"
    "\<And>k c. bt_get (ledger_of evs) k = Some c \<Longrightarrow>
       \<exists>c'. bt_get (ledger_of ey) k = Some c' \<and> c' = c\<lparr> resolution := resolution c' \<rparr> \<and> (resolution c \<noteq> Pending \<longrightarrow> c' = c)"
    by blast
  from ledger_step_inv [OF assms(1) ey(1) step.hyps(2)] obtain ez where
    ez: "stream_inv governance_domain J z ez" "ez = ey \<or> (\<exists>ev. ez = ey @ [ev] \<and> gov_allowed P (ledger_of ey) ev)" by blast
  have "\<exists>c'. bt_get (ledger_of ez) k = Some c' \<and> c' = c\<lparr> resolution := resolution c' \<rparr> \<and> (resolution c \<noteq> Pending \<longrightarrow> c' = c)"
    if k: "bt_get (ledger_of evs) k = Some c" for k c
  proof -
    from ey(2) [OF k] obtain c1 where c1: "bt_get (ledger_of ey) k = Some c1" "c1 = c\<lparr> resolution := resolution c1 \<rparr>"
      "resolution c \<noteq> Pending \<longrightarrow> c1 = c" by blast
    from ez(2) obtain c2 where c2: "bt_get (ledger_of ez) k = Some c2" "c2 = c1\<lparr> resolution := resolution c2 \<rparr>"
      "resolution c1 \<noteq> Pending \<longrightarrow> c2 = c1"
      using c1(1) gov_step_keeps [of P "ledger_of ey"] by (cases "ez = ey") fastforce+
    have "c2 = c\<lparr> resolution := resolution c2 \<rparr>"
      by (subst c2(2), subst c1(2)) simp
    then show ?thesis using c1 c2 by auto
  qed
  with ez(1) show ?case by blast
qed

lemma ledger_reach:
  assumes "codec_ok J" "ledger_run J P [] log"
  shows "\<exists>evs. stream_inv governance_domain J log evs \<and>
    (\<forall>k c arb t d. bt_get (ledger_of evs) k = Some c \<longrightarrow> resolution c = Resolved arb t d \<longrightarrow> can_arbitrate P arb)"
  using assms(2)
proof (induction rule: rtranclp_induct)
  case base
  show ?case by (rule exI [of _ "[]"]) (simp add: ledger_of_def)
next
  case (step y z)
  then obtain ey where ey: "stream_inv governance_domain J y ey"
    "\<And>k c arb t d. bt_get (ledger_of ey) k = Some c \<Longrightarrow> resolution c = Resolved arb t d \<Longrightarrow> can_arbitrate P arb" by blast
  from ledger_step_inv [OF assms(1) ey(1) step.hyps(2)] obtain ez where
    ez: "stream_inv governance_domain J z ez" "ez = ey \<or> (\<exists>ev. ez = ey @ [ev] \<and> gov_allowed P (ledger_of ey) ev)" by blast
  with ey show ?case using gov_step_authorised [of P "ledger_of ey"] by (metis ledger_of_snoc)
qed

section \<open>The ledger as a map\<close>

type_synonym ledger_spec = "(string \<rightharpoonup> ConflictContract) \<times> nat"

definition ledger_abs :: "ArbitrationProjection \<Rightarrow> ledger_spec" where
  "ledger_abs p = (bt_get (ap_conflicts p), unat (ap_sequence p))"

definition spec_record :: "ConflictContract \<Rightarrow> ledger_spec \<Rightarrow> ledger_spec \<times> RecordStatus" where
  "spec_record c = (\<lambda>(m, n).
     if m (conflict_id c) \<noteq> None then ((m, n), AlreadyRecorded)
     else if Suc n = 2 ^ 64 then ((m, n), RecordStoreError SequenceExhausted)
     else ((m(conflict_id c \<mapsto> c), Suc n), Recorded (of_nat (Suc n))))"

definition spec_decide ::
  "bool \<Rightarrow> StableId \<Rightarrow> ConflictResolutionState \<Rightarrow> (u64 \<Rightarrow> 's) \<Rightarrow> 's \<Rightarrow> 's \<Rightarrow> 's \<Rightarrow> 's \<Rightarrow> ledger_spec \<Rightarrow> ledger_spec \<times> 's" where
  "spec_decide authorised cid r decided denied absent not_pending exhausted = (\<lambda>(m, n).
     if \<not> authorised then ((m, n), denied)
     else
       (case m cid of
          None \<Rightarrow> ((m, n), absent)
        | Some c \<Rightarrow>
            if resolution c \<noteq> Pending then ((m, n), not_pending)
            else if Suc n = 2 ^ 64 then ((m, n), exhausted)
            else ((m(cid \<mapsto> c\<lparr> resolution := r \<rparr>), Suc n), decided (of_nat (Suc n)))))"

abbreviation spec_arbitrate ::
  "u64 \<Rightarrow> StableId \<Rightarrow> PrincipalId \<Rightarrow> ResolutionDecision \<Rightarrow> GovernancePolicy \<Rightarrow> ledger_spec \<Rightarrow> ledger_spec \<times> ArbitrateStatus" where
  "spec_arbitrate now cid arb dec P \<equiv>
     spec_decide (can_arbitrate P arb) cid (Resolved arb now dec) ArbResolved ArbDeniedByGate ArbConflictNotFound
       ArbNotPending (ArbStoreError SequenceExhausted)"

abbreviation spec_escalate ::
  "StableId \<Rightarrow> PrincipalId \<Rightarrow> GovernancePolicy \<Rightarrow> ledger_spec \<Rightarrow> ledger_spec \<times> EscalateStatus" where
  "spec_escalate cid who P \<equiv>
     spec_decide (can_arbitrate P who) cid Escalated EscEscalated EscDeniedByGate EscConflictNotFound
       EscNotPending (EscStoreError SequenceExhausted)"

lemma next_sequence_ledger:
  "next_sequence governance_domain p =
     (if Suc (unat (ap_sequence p)) = 2 ^ 64 then Inl SequenceExhausted else Inr (of_nat (Suc (unat (ap_sequence p)))))"
  using gov.next_sequence_eq [of p] by (simp add: governance_domain_def)

lemma gov_publish_effect:
  assumes "codec_ok J" "stream_inv governance_domain J log evs" "replay_bytes governance_domain J log = Inr p"
    "next_sequence governance_domain p = Inr n" "gov_sequence ev = n" "no_fault J io ev"
  shows "\<exists>log' p'. append_stream J (tx_append io 0) log ev = (log', None) \<and>
    replay_bytes governance_domain J log' = Inr p' \<and> ap_conflicts p' = gov_step (ap_conflicts p) ev \<and> ap_sequence p' = n"
  using gov.publish_effect [OF assms(1-4) _ assms(6)] assms(5) by (auto simp: governance_domain_def)

lemma record_refines:
  assumes "codec_ok J" "stream_inv governance_domain J log evs" "replay_bytes governance_domain J log = Inr p"
    "no_fault J io (GDetected (of_nat (Suc (unat (ap_sequence p)))) now c)"
  shows "\<exists>log' p' s. record_conflict J io now log c = (log', s) \<and> replay_bytes governance_domain J log' = Inr p' \<and>
    spec_record c (ledger_abs p) = (ledger_abs p', s)"
proof -
  note pr = no_fault_project [OF assms(4), of governance_domain log] assms(3)
  show ?thesis
  proof (cases "bt_get (ap_conflicts p) (conflict_id c) = None \<and> Suc (unat (ap_sequence p)) \<noteq> 2 ^ 64")
    case True
    let ?n = "of_nat (Suc (unat (ap_sequence p))) :: u64"
    have n: "next_sequence governance_domain p = Inr ?n" using True by (simp add: next_sequence_ledger del: of_nat_Suc)
    obtain log' p' where e: "append_stream J (tx_append io 0) log (GDetected ?n now c) = (log', None)"
      "replay_bytes governance_domain J log' = Inr p'" "ap_conflicts p' = bt_insert (conflict_id c) c (ap_conflicts p)"
      "ap_sequence p' = ?n"
      using gov_publish_effect [OF assms(1-3) n _ assms(4)] by auto
    have "record_conflict J io now log c = (log', Recorded ?n)"
      using True pr n e(1) by (simp add: record_conflict_def del: of_nat_Suc)
    then show ?thesis using True e(2-4) unat_succ [of _ "ap_sequence p"]
      by (auto simp: spec_record_def ledger_abs_def bt_get_insert simp del: of_nat_Suc)
  next
    case False
    then show ?thesis using pr
      by (auto simp: record_conflict_def spec_record_def ledger_abs_def next_sequence_ledger simp del: of_nat_Suc)
  qed
qed

lemma arbitrate_refines:
  assumes "codec_ok J" "stream_inv governance_domain J log evs" "replay_bytes governance_domain J log = Inr p"
    "no_fault J io (GResolved (of_nat (Suc (unat (ap_sequence p)))) now cid arb dec)"
  shows "\<exists>log' p' s. arbitrate J io now log cid arb dec P = (log', s) \<and> replay_bytes governance_domain J log' = Inr p' \<and>
    spec_arbitrate now cid arb dec P (ledger_abs p) = (ledger_abs p', s)"
proof -
  note pr = no_fault_project [OF assms(4), of governance_domain log] assms(3)
  show ?thesis
  proof (cases "can_arbitrate P arb \<and> Suc (unat (ap_sequence p)) \<noteq> 2 ^ 64 \<and>
      (\<exists>c. bt_get (ap_conflicts p) cid = Some c \<and> resolution c = Pending)")
    case True
    then obtain c where c: "bt_get (ap_conflicts p) cid = Some c" "resolution c = Pending" by blast
    let ?n = "of_nat (Suc (unat (ap_sequence p))) :: u64"
    have n: "next_sequence governance_domain p = Inr ?n" using True by (simp add: next_sequence_ledger del: of_nat_Suc)
    obtain log' p' where e: "append_stream J (tx_append io 0) log (GResolved ?n now cid arb dec) = (log', None)"
      "replay_bytes governance_domain J log' = Inr p'"
      "ap_conflicts p' = bt_insert cid (c\<lparr> resolution := Resolved arb now dec \<rparr>) (ap_conflicts p)" "ap_sequence p' = ?n"
      using gov_publish_effect [OF assms(1-3) n _ assms(4)] c by auto
    have "arbitrate J io now log cid arb dec P = (log', ArbResolved ?n)"
      using True c pr n e(1) by (simp add: arbitrate_def del: of_nat_Suc)
    then show ?thesis using True c e(2-4) unat_succ [of _ "ap_sequence p"]
      by (auto simp: spec_decide_def ledger_abs_def bt_get_insert simp del: of_nat_Suc)
  next
    case False
    then show ?thesis using pr
      by (auto simp: arbitrate_def spec_decide_def ledger_abs_def next_sequence_ledger split: option.splits simp del: of_nat_Suc)
  qed
qed

lemma escalate_refines:
  assumes "codec_ok J" "stream_inv governance_domain J log evs" "replay_bytes governance_domain J log = Inr p"
    "no_fault J io (GEscalated (of_nat (Suc (unat (ap_sequence p)))) now cid)"
  shows "\<exists>log' p' s. escalate J io now log cid who P = (log', s) \<and> replay_bytes governance_domain J log' = Inr p' \<and>
    spec_escalate cid who P (ledger_abs p) = (ledger_abs p', s)"
proof -
  note pr = no_fault_project [OF assms(4), of governance_domain log] assms(3)
  show ?thesis
  proof (cases "can_arbitrate P who \<and> Suc (unat (ap_sequence p)) \<noteq> 2 ^ 64 \<and>
      (\<exists>c. bt_get (ap_conflicts p) cid = Some c \<and> resolution c = Pending)")
    case True
    then obtain c where c: "bt_get (ap_conflicts p) cid = Some c" "resolution c = Pending" by blast
    let ?n = "of_nat (Suc (unat (ap_sequence p))) :: u64"
    have n: "next_sequence governance_domain p = Inr ?n" using True by (simp add: next_sequence_ledger del: of_nat_Suc)
    obtain log' p' where e: "append_stream J (tx_append io 0) log (GEscalated ?n now cid) = (log', None)"
      "replay_bytes governance_domain J log' = Inr p'"
      "ap_conflicts p' = bt_insert cid (c\<lparr> resolution := Escalated \<rparr>) (ap_conflicts p)" "ap_sequence p' = ?n"
      using gov_publish_effect [OF assms(1-3) n _ assms(4)] c by auto
    have "escalate J io now log cid who P = (log', EscEscalated ?n)"
      using True c pr n e(1) by (simp add: escalate_def del: of_nat_Suc)
    then show ?thesis using True c e(2-4) unat_succ [of _ "ap_sequence p"]
      by (auto simp: spec_decide_def ledger_abs_def bt_get_insert simp del: of_nat_Suc)
  next
    case False
    then show ?thesis using pr
      by (auto simp: escalate_def spec_decide_def ledger_abs_def next_sequence_ledger split: option.splits simp del: of_nat_Suc)
  qed
qed

section \<open>A sample ledger\<close>

text \<open>Two conflicts, an arbiter, and the events of a short history.\<close>

definition sample_conflict :: "string \<Rightarrow> ConflictContract" where
  "sample_conflict cid =
     \<lparr> conflict_id = cid, intent_a = ''intent.alice'', intent_b = ''intent.bob'', principal_a = ''alice'', principal_b = ''bob'',
       contested_scope = \<lparr> is_kind = IskPathPrefix, is_target = ''src'' \<rparr>, detection_reason = PathOverlap, detected_at = 0,
       resolution = Pending \<rparr>"

definition sample_policy :: GovernancePolicy where
  "sample_policy =
     \<lparr> policy_id = ''policy'', permitted_principals = [''alice''], authorized_reviewers = [''lead''],
       conflict_policy = EmitContract \<rparr>"

definition sample_table :: "(GovernanceEvent \<times> string) list" where
  "sample_table =
     [(GDetected 1 0 (sample_conflict ''c1''), ''{detected:{c1}}''),
      (GDetected 2 0 (sample_conflict ''c2''), ''{detected:{c2}}''),
      (GResolved 2 0 ''c1'' ''lead'' BothReleased, ''{resolved:{c1}}''),
      (GEscalated 2 0 ''c1'', ''{escalated:{c1}}'')]"

abbreviation sample_json :: "GovernanceEvent json" where
  "sample_json \<equiv> table_json sample_table"

definition sample_log :: string where
  "sample_log = ''{detected:{c1}}'' @ [nl]"

lemma conflict_id_sample [simp]: "conflict_id (sample_conflict cid) = cid"
  by (simp add: sample_conflict_def)

lemma sample_codec: "codec_ok sample_json"
  by (rule table_json_ok)
    (simp_all add: sample_table_def table_line_ok_def utf8_error_ascii starts_with_def ends_with_def
      del: utf8_error.simps)

lemma sample_to_vec:
  "to_vec sample_json (GDetected 1 0 (sample_conflict ''c1'')) = Inr ''{detected:{c1}}''"
  "to_vec sample_json (GDetected 2 0 (sample_conflict ''c2'')) = Inr ''{detected:{c2}}''"
  "to_vec sample_json (GResolved 2 0 ''c1'' ''lead'' BothReleased) = Inr ''{resolved:{c1}}''"
  "to_vec sample_json (GEscalated 2 0 ''c1'') = Inr ''{escalated:{c1}}''"
  by (simp_all add: table_json_def sample_table_def)

lemma sample_stream: "stream_inv governance_domain sample_json sample_log [GDetected 1 0 (sample_conflict ''c1'')]"
  by (simp add: stream_inv_def numbered_def sample_log_def sample_to_vec governance_domain_def)

lemma sample_record: "record_conflict sample_json quiet_io 0 [] (sample_conflict ''c1'') = (sample_log, Recorded 1)"
  using replay_holds [OF holds_Nil, of governance_domain sample_json]
  by (simp add: record_conflict_def project_stream_def quiet_io_def append_stream_def sample_to_vec replay_def
      next_sequence_def u64_checked_add_def governance_domain_def sample_log_def)

lemma sample_run: "ledger_run sample_json sample_policy [] sample_log"
  by (rule r_into_rtranclp, rule step_record [OF _ clean_quiet_io sample_record]) (simp add: sample_conflict_def)

lemma sample_arbitrate_run:
  "ledger_run sample_json sample_policy sample_log (fst (arbitrate sample_json quiet_io 0 sample_log ''c1'' ''lead'' BothReleased sample_policy))"
  by (rule r_into_rtranclp, rule step_arbitrate [OF clean_quiet_io prod.collapse [symmetric]])

lemma sample_replay:
  obtains p where "replay_bytes governance_domain sample_json sample_log = Inr p"
    "ap_conflicts p = [(''c1'', sample_conflict ''c1'')]" "ap_sequence p = 1"
  using replayed_ledger [OF sample_codec sample_stream] by (auto simp: ledger_of_def sample_conflict_def)

lemma sample_torn: "torn_prefix sample_json ''{detec''" "torn_prefix sample_json ''{detected:{c2}''"
  unfolding torn_prefix_def
  by (rule exI [of _ "GDetected 2 0 (sample_conflict ''c2'')"], rule exI [of _ "''{detected:{c2}}''"], rule exI [of _ 6],
      simp add: sample_to_vec)
    (rule exI [of _ "GDetected 2 0 (sample_conflict ''c2'')"], rule exI [of _ "''{detected:{c2}}''"], rule exI [of _ 14],
      simp add: sample_to_vec)

lemma sample_trim:
  "trim (from_utf8_lossy ''{detec'') = ''{detec''" "trim (from_utf8_lossy ''{detected:{c2}'') = ''{detected:{c2}''"
  "trim (from_utf8_lossy (''{detec'' @ ''{detected:{c2}}'')) = ''{detec{detected:{c2}}''"
  by code_simp+

lemma sample_rejected:
  "from_str sample_json (trim (from_utf8_lossy ''{detec'')) = Inl ''invalid''"
  "from_str sample_json (trim (from_utf8_lossy ''{detected:{c2}'')) = Inl ''invalid''"
  "from_str sample_json (trim (from_utf8_lossy (''{detec'' @ ''{detected:{c2}}''))) = Inl ''invalid''"
proof -
  have "trim ''{detec'' = ''{detec''" by code_simp
  then show "from_str sample_json (trim (from_utf8_lossy ''{detec'')) = Inl ''invalid''"
    unfolding sample_trim by (simp add: table_json_def sample_table_def)
qed (unfold sample_trim, simp_all add: table_json_def sample_table_def trim_object starts_with_def ends_with_def)

section \<open>Properties\<close>



text \<open>
  C31. The ledger refines a map: when a transaction meets no fault, record, arbitrate and escalate on
  the log of a reachable ledger leave a log whose replay is what the operation does to the map of
  conflicts and the event count, and they return the status it returns: stored or already there,
  denied, unknown, not pending, decided, or out of sequence numbers.
\<close>

theorem ledger_operations_refine:
  assumes "codec_ok J" "ledger_run J P [] log" "replay_bytes governance_domain J log = Inr p"
    "n = of_nat (Suc (unat (ap_sequence p)))" "no_fault J io (GDetected n now c)"
    "no_fault J io (GResolved n now cid arb dec)" "no_fault J io (GEscalated n now cid)"
  shows "(\<exists>log' p' s. record_conflict J io now log c = (log', s) \<and> replay_bytes governance_domain J log' = Inr p' \<and>
      spec_record c (ledger_abs p) = (ledger_abs p', s)) \<and>
    (\<exists>log' p' s. arbitrate J io now log cid arb dec P = (log', s) \<and> replay_bytes governance_domain J log' = Inr p' \<and>
      spec_arbitrate now cid arb dec P (ledger_abs p) = (ledger_abs p', s)) \<and>
    (\<exists>log' p' s. escalate J io now log cid arb P = (log', s) \<and> replay_bytes governance_domain J log' = Inr p' \<and>
      spec_escalate cid arb P (ledger_abs p) = (ledger_abs p', s))"
proof -
  from ledger_reach [OF assms(1,2)] obtain evs where e: "stream_inv governance_domain J log evs" by blast
  show ?thesis
    using record_refines [OF assms(1) e assms(3) assms(5) [unfolded assms(4)]]
      arbitrate_refines [OF assms(1) e assms(3) assms(6) [unfolded assms(4)], of P]
      escalate_refines [OF assms(1) e assms(3) assms(7) [unfolded assms(4)], of arb P]
    by blast
qed

theorem ledger_operations_refine_witness:
  "\<exists>log' p' s. arbitrate sample_json quiet_io 0 sample_log ''c1'' ''lead'' BothReleased sample_policy = (log', s) \<and>
     replay_bytes governance_domain sample_json log' = Inr p' \<and> s = ArbResolved 2"
proof -
  obtain p where p: "replay_bytes governance_domain sample_json sample_log = Inr p"
    "ap_conflicts p = [(''c1'', sample_conflict ''c1'')]" "ap_sequence p = 1" by (rule sample_replay)
  have "no_fault sample_json quiet_io (GDetected 2 0 (sample_conflict ''c2''))"
    "no_fault sample_json quiet_io (GResolved 2 0 ''c1'' ''lead'' BothReleased)"
    "no_fault sample_json quiet_io (GEscalated 2 0 ''c1'')"
    by (simp_all add: no_fault_def quiet_io_def sample_to_vec)
  from ledger_operations_refine [OF sample_codec sample_run p(1) _ this] p(3)
  obtain log' p' s where r: "arbitrate sample_json quiet_io 0 sample_log ''c1'' ''lead'' BothReleased sample_policy = (log', s)"
    "replay_bytes governance_domain sample_json log' = Inr p'"
    "spec_arbitrate 0 ''c1'' ''lead'' BothReleased sample_policy (ledger_abs p) = (ledger_abs p', s)" by auto
  from r(3) p(2,3) have "s = ArbResolved 2"
    by (simp add: spec_decide_def ledger_abs_def bt_get_def can_arbitrate_def sample_policy_def sample_conflict_def)
  with r show ?thesis by blast
qed

text \<open>
  C32. Ledgers and snapshots: the log of a reachable ledger passes the strict check of a quiesced
  snapshot, and a stream that passes it replays completely, to a projection whose sequence number is
  the number of its lines.
\<close>

theorem ledger_snapshot_complete:
  assumes "codec_ok J"
  shows "(ledger_run J P [] log \<longrightarrow> validate_strict_snapshot_stream governance_domain J log = None) \<and>
    (validate_strict_snapshot_stream governance_domain J log = None \<longrightarrow>
      (\<exists>p. replay_bytes governance_domain J log = Inr p \<and> ap_sequence p = of_nat (length (split_terminator log))))"
proof -
  have "ledger_run J P [] log \<Longrightarrow> validate_strict_snapshot_stream governance_domain J log = None"
    using ledger_reach [OF assms] gov.stream_strict [OF assms] by blast
  moreover have "\<exists>p. replay_bytes governance_domain J log = Inr p \<and> ap_sequence p = of_nat (length (split_terminator log))"
    if "validate_strict_snapshot_stream governance_domain J log = None"
    using gov.strict_replay [OF assms that] by (auto simp: governance_domain_def)
  ultimately show ?thesis by blast
qed

theorem ledger_snapshot_complete_witness:
  "validate_strict_snapshot_stream governance_domain sample_json sample_log = None"
  using ledger_snapshot_complete [OF sample_codec, of sample_policy sample_log] sample_run by blast

text \<open>
  C33. A torn tail: when the log of a reachable ledger is followed by a proper prefix of an event that
  the parser rejects, replay skips it with one diagnostic and keeps every conflict and the sequence
  number, unless the prefix happens to end at a closing brace: then the whole ledger is refused with
  a parse error on that line.
\<close>

theorem torn_tail_outcome:
  assumes "codec_ok J" "ledger_run J P [] log" "replay_bytes governance_domain J log = Inr p" "torn_prefix J t"
    "from_str J (trim (from_utf8_lossy t)) = Inl e"
  shows "if ends_with (trim (from_utf8_lossy t)) ''}''
    then \<exists>k. replay_bytes governance_domain J (log @ t) = Inl (ParseError k e)
    else \<exists>d. replay_bytes governance_domain J (log @ t) = Inr (p\<lparr> ap_diagnostics := ap_diagnostics p @ [d] \<rparr>)"
proof -
  from ledger_reach [OF assms(1,2)] obtain evs where "written J log evs" by (auto simp: stream_inv_def)
  then have h: "holds J log evs" by (rule written_holds [OF assms(1)])
  have p: "p = replay governance_domain evs" using replay_holds [OF h, of governance_domain] assms(3) by simp
  have "starts_with (trim (from_utf8_lossy t)) ''{''"
    using torn_prefixD(2) [OF assms(1,4)] by (intro starts_object_trim starts_object)
  then have "looks_torn (trim (from_utf8_lossy t)) \<longleftrightarrow> \<not> ends_with (trim (from_utf8_lossy t)) ''}''"
    by (simp add: looks_torn_def)
  then show ?thesis using replay_torn [OF assms(1) h assms(4,5), of governance_domain] p
    by (auto simp: governance_domain_def)
qed

theorem torn_tail_outcome_witness:
  "(\<exists>p d. replay_bytes governance_domain sample_json (sample_log @ ''{detec'') = Inr (p\<lparr> ap_diagnostics := ap_diagnostics p @ [d] \<rparr>)) \<and>
   (\<exists>k e. replay_bytes governance_domain sample_json (sample_log @ ''{detected:{c2}'') = Inl (ParseError k e))"
proof -
  obtain p where p: "replay_bytes governance_domain sample_json sample_log = Inr p" by (rule sample_replay)
  note torn_tail_outcome [OF sample_codec sample_run p sample_torn(1) sample_rejected(1)]
    torn_tail_outcome [OF sample_codec sample_run p sample_torn(2) sample_rejected(2)]
  then show ?thesis unfolding sample_trim by (auto simp: ends_with_def)
qed

text \<open>
  C34. After a torn write the next record blocks the ledger: the record finds the conflicts and the
  sequence number unchanged and reports success, but its line is joined to the torn one, and when the
  parser rejects the joined line the log no longer replays and every later record fails.
\<close>

theorem torn_append_blocks_ledger:
  assumes "codec_ok J" "ledger_run J P [] log" "replay_bytes governance_domain J log = Inr p" "torn_prefix J t"
    "from_str J (trim (from_utf8_lossy t)) = Inl e" "\<not> ends_with (trim (from_utf8_lossy t)) ''}''"
    "bt_get (ap_conflicts p) (conflict_id c) = None" "next_sequence governance_domain p = Inr n"
    "no_fault J io (GDetected n now c)" "to_vec J (GDetected n now c) = Inr line"
    "from_str J (trim (from_utf8_lossy (t @ line))) = Inl e'"
  shows "\<exists>log' k. record_conflict J io now (log @ t) c = (log', Recorded n) \<and>
    replay_bytes governance_domain J log' = Inl (ParseError k e') \<and>
    (\<forall>io' now' c'. \<exists>err. record_conflict J io' now' log' c' = (log', RecordStoreError err))"
proof -
  from ledger_reach [OF assms(1,2)] obtain evs where "written J log evs" by (auto simp: stream_inv_def)
  then have h: "holds J log evs" by (rule written_holds [OF assms(1)])
  have p: "p = replay governance_domain evs" using replay_holds [OF h, of governance_domain] assms(3) by simp
  have "replay_bytes governance_domain J (log @ t) =
      Inr (es_record_diagnostic governance_domain p (es_torn_final_line governance_domain (Suc (length (log_lines log))) e))"
    using replay_torn [OF assms(1) h assms(4,5), of governance_domain] assms(6) p by (simp add: looks_torn_def)
  then have rec: "record_conflict J io now (log @ t) c = ((log @ t) @ line @ [nl], Recorded n)"
    using assms(7-10) no_fault_project [OF assms(9), of governance_domain "log @ t"]
    by (auto simp: record_conflict_def no_fault_def append_stream_def next_sequence_def governance_domain_def split: option.splits)
  have bad: "replay_bytes governance_domain J ((log @ t) @ line @ [nl]) = Inl (ParseError (Suc (length (log_lines log))) e')"
    by (rule replay_torn_append [OF assms(1) h assms(4,10,11)])
  then have "\<exists>err. record_conflict J io' now' ((log @ t) @ line @ [nl]) c' = ((log @ t) @ line @ [nl], RecordStoreError err)" for io' now' c'
    by (auto simp: record_conflict_def project_stream_def split: option.splits)
  with rec bad show ?thesis by blast
qed

theorem torn_append_blocks_ledger_witness:
  "\<exists>log' k. record_conflict sample_json quiet_io 0 (sample_log @ ''{detec'') (sample_conflict ''c2'') = (log', Recorded 2) \<and>
     replay_bytes governance_domain sample_json log' = Inl (ParseError k ''invalid'')"
proof -
  obtain p where p: "replay_bytes governance_domain sample_json sample_log = Inr p"
    "ap_conflicts p = [(''c1'', sample_conflict ''c1'')]" "ap_sequence p = 1" by (rule sample_replay)
  have "next_sequence governance_domain p = Inr 2" "bt_get (ap_conflicts p) (conflict_id (sample_conflict ''c2'')) = None"
    "no_fault sample_json quiet_io (GDetected 2 0 (sample_conflict ''c2''))"
    using p by (simp_all add: next_sequence_ledger bt_get_def no_fault_def quiet_io_def sample_to_vec)
  with torn_append_blocks_ledger [OF sample_codec sample_run p(1) sample_torn(1) sample_rejected(1), of "sample_conflict ''c2''" 2
      quiet_io 0 "''{detected:{c2}}''" "''invalid''"] sample_rejected(3)
  show ?thesis unfolding sample_trim by (auto simp: ends_with_def sample_to_vec)
qed

end
