(* ===== verification/Memory_Store.thy ===== *)
theory Memory_Store
  imports Event_Stream Claim_Contracts Ordered_Map
begin

text \<open>
  The memory store: the contract of \<open>src/crates/forge-core-contracts/src/memory.rs\<close> with its
  admission and promotion gates and its freshness sweep, and the event-sourced operations \<open>admit\<close>,
  \<open>promote\<close>, \<open>forget\<close> and \<open>list_now\<close> of \<open>src/crates/forge-core-eventlog/src/memory\<close>.

  The lemmas interpret the trait's contract on this domain, and show that authority is only reached
  with evidence, that a sweep settles the store, and what a forgotten identifier does to later
  operations.
\<close>

section \<open>Contracts\<close>

datatype MemoryKind = MkPreference | MkDecision | MkLessonLearned | MkPlaybookRule | MkFailurePattern | MkGlossaryTerm

datatype AuthorityLevel = Raw | Provisional | Authority

datatype ReviewState = Unreviewed | Reviewed

datatype ApprovalState = Proposed | InReview | Approved | Rejected | AutoPromoted

record MemoryProvenance =
  source_run_id :: "StableId option"
  source_agent :: "StableId option"
  evidence_ref :: "string option"
  captured_at :: string

record Freshness =
  ttl_seconds :: "u64 option"
  last_confirmed_at :: string
  stale :: bool

record MemoryEntry =
  entry_id :: StableId
  me_kind :: MemoryKind
  me_content :: string
  provenance :: MemoryProvenance
  freshness :: Freshness
  confidence :: u8
  approval :: ApprovalState
  supersedes :: "StableId option"
  invalidation_reason :: "string option"
  authority_level :: "AuthorityLevel option"
  review_state :: "ReviewState option"
  reviewed_by :: "PrincipalId option"
  reviewed_at :: "string option"

definition authority_level_effective :: "MemoryEntry \<Rightarrow> AuthorityLevel" where
  "authority_level_effective e =
     (case authority_level e of
        Some explicit \<Rightarrow> explicit
      | None \<Rightarrow> (case approval e of Approved \<Rightarrow> Provisional | _ \<Rightarrow> Raw))"

definition review_state_effective :: "MemoryEntry \<Rightarrow> ReviewState" where
  "review_state_effective e = (case review_state e of Some r \<Rightarrow> r | None \<Rightarrow> Unreviewed)"

datatype EvidenceField = ProvenanceEvidenceRef | SourceRunId | SourceAgent

definition evidence_is_present :: "EvidenceField \<Rightarrow> MemoryProvenance \<Rightarrow> bool" where
  "evidence_is_present f p =
     (case f of
        ProvenanceEvidenceRef \<Rightarrow> (case evidence_ref p of None \<Rightarrow> False | Some s \<Rightarrow> s \<noteq> [])
      | SourceRunId \<Rightarrow> source_run_id p \<noteq> None
      | SourceAgent \<Rightarrow> source_agent p \<noteq> None)"

record MemoryPolicy =
  permitted_kinds :: "MemoryKind list"
  required_evidence_fields :: "EvidenceField list"
  min_evidence_refs_for_authority :: nat

datatype AdmissionDenialReason =
  KindNotPermitted | MissingRequiredEvidence | InsufficientEvidenceForAuthority | PromoteTargetsReviewAxis

datatype AdmissionDecision = AdmAllowed | AdmBlocked "AdmissionDenialReason list"

definition from_denials :: "AdmissionDenialReason list \<Rightarrow> AdmissionDecision" where
  "from_denials denials = (if denials = [] then AdmAllowed else AdmBlocked denials)"

definition kind_is_permitted :: "MemoryKind \<Rightarrow> MemoryKind list \<Rightarrow> bool" where
  "kind_is_permitted k permitted \<longleftrightarrow> permitted \<noteq> [] \<and> k \<in> set permitted"

fun count_seen :: "string list \<Rightarrow> string list \<Rightarrow> string list" where
  "count_seen seen [] = seen"
| "count_seen seen (r # rs) =
     (let trimmed = trim r in
      if trimmed = [] \<or> trimmed \<in> set seen then count_seen seen rs else count_seen (seen @ [trimmed]) rs)"

definition count_distinct_non_empty :: "string list \<Rightarrow> nat" where
  "count_distinct_non_empty refs = length (count_seen [] refs)"

definition can_admit :: "MemoryEntry \<Rightarrow> MemoryPolicy \<Rightarrow> AdmissionDecision" where
  "can_admit e policy =
     from_denials
       ((if \<not> kind_is_permitted (me_kind e) (permitted_kinds policy) then [KindNotPermitted] else []) @
        concat (map (\<lambda>f. if \<not> evidence_is_present f (provenance e) then [MissingRequiredEvidence] else [])
                  (required_evidence_fields policy)))"

definition can_promote :: "MemoryEntry \<Rightarrow> MemoryPolicy \<Rightarrow> string list \<Rightarrow> AdmissionDecision" where
  "can_promote e policy refs =
     (let distinct_refs = count_distinct_non_empty refs in
      if distinct_refs = 0 \<or> distinct_refs < min_evidence_refs_for_authority policy
      then AdmBlocked [InsufficientEvidenceForAuthority] else AdmAllowed)"

definition mark_entry_stale :: "u64 \<Rightarrow> MemoryEntry \<Rightarrow> MemoryEntry" where
  "mark_entry_stale now e =
     (let fr = freshness e;
          flag = (case ttl_seconds fr of
                    None \<Rightarrow> stale fr
                  | Some ttl \<Rightarrow>
                      (case Option.bind (parse_unsigned (2 ^ 64) (last_confirmed_at fr)) (\<lambda>last. u64_checked_add (of_nat last) ttl) of
                         None \<Rightarrow> True
                       | Some deadline \<Rightarrow> stale fr \<or> deadline \<le> now))
      in e\<lparr> freshness := fr\<lparr> stale := flag \<rparr> \<rparr>)"

definition mark_stale :: "u64 \<Rightarrow> MemoryEntry list \<Rightarrow> MemoryEntry list" where
  "mark_stale now entries = map (mark_entry_stale now) entries"

section \<open>Events and projection\<close>

datatype MemoryEvent =
  MAdmitted u64 u64 MemoryEntry
| MPromoted u64 u64 StableId AuthorityLevel AuthorityLevel "string list"
| MForgotten u64 u64 MemoryEntry string

fun mem_sequence :: "MemoryEvent \<Rightarrow> u64" where
  "mem_sequence (MAdmitted sequence _ _) = sequence"
| "mem_sequence (MPromoted sequence _ _ _ _ _) = sequence"
| "mem_sequence (MForgotten sequence _ _ _) = sequence"

text \<open>
  The hash of an entry: SHA-256 of its JSON form, or of its debug form when that cannot be made; the
  digest and the two forms are parameters.
\<close>

record entry_hash =
  sha256_hex :: "string \<Rightarrow> string"
  entry_json :: "MemoryEntry \<Rightarrow> string option"
  entry_debug :: "MemoryEntry \<Rightarrow> string"

definition content_hash_of :: "entry_hash \<Rightarrow> MemoryEntry \<Rightarrow> string" where
  "content_hash_of H e =
     ''sha256:'' @ sha256_hex H (case entry_json H e of Some payload \<Rightarrow> payload | None \<Rightarrow> entry_debug H e)"

record MemoryProjection =
  mp_sequence :: u64
  mp_entries :: "MemoryEntry btree_map"
  mp_superseded :: "string set"
  mp_diagnostics :: "LedgerDiagnostic list"

fun mem_apply :: "MemoryProjection \<Rightarrow> MemoryEvent \<Rightarrow> MemoryProjection" where
  "mem_apply p (MAdmitted _ _ e) = p\<lparr> mp_entries := bt_insert (entry_id e) e (mp_entries p) \<rparr>"
| "mem_apply p (MPromoted _ _ eid _ after _) =
     (case bt_get (mp_entries p) eid of
        Some existing \<Rightarrow> p\<lparr> mp_entries := bt_insert eid (existing\<lparr> authority_level := Some after \<rparr>) (mp_entries p) \<rparr>
      | None \<Rightarrow> p\<lparr> mp_diagnostics := mp_diagnostics p @
          [\<lparr> ld_severity = LsWarning, ld_code = ''promote_target_missing'',
             ld_message = ''promote targeted unknown entry '' @ eid \<rparr>] \<rparr>)"
| "mem_apply p (MForgotten _ _ before _) =
     p\<lparr> mp_entries := bt_remove (entry_id before) (mp_entries p),
        mp_superseded := insert (entry_id before) (mp_superseded p) \<rparr>"

definition memory_domain :: "(MemoryEvent, MemoryProjection, LedgerDiagnostic) EventSourced" where
  "memory_domain =
     \<lparr> es_default = \<lparr> mp_sequence = 0, mp_entries = [], mp_superseded = {}, mp_diagnostics = [] \<rparr>,
       es_sequence = mem_sequence,
       es_apply = mem_apply,
       es_record_diagnostic = (\<lambda>p d. p\<lparr> mp_diagnostics := mp_diagnostics p @ [d] \<rparr>),
       es_sequence_of = mp_sequence,
       es_advance_sequence = (\<lambda>p n. p\<lparr> mp_sequence := n \<rparr>),
       es_out_of_order = diagnostic_out_of_order_event_ignored,
       es_torn_final_line = diagnostic_torn_final_line_skipped \<rparr>"

section \<open>Operations\<close>

datatype AdmissionStatus =
  Admitted u64 | AdmDeniedByGate "AdmissionDenialReason list" | AdmStoreError EventLogError

datatype PromoteStatus =
  Promoted u64 AuthorityLevel AuthorityLevel | PromoteNotFound
| PromoteDeniedByGate "AdmissionDenialReason list" | PromoteStoreError EventLogError

datatype ForgetStatus = Forgotten u64 | AlreadyForgotten | ForgetNotFound | ForgetStoreError EventLogError

datatype ListStatus = ListOk nat "MemoryEntry list" | ListStoreError EventLogError

definition admit ::
  "MemoryEvent json \<Rightarrow> txn_io \<Rightarrow> u64 \<Rightarrow> string \<Rightarrow> MemoryEntry \<Rightarrow> MemoryPolicy \<Rightarrow> string \<times> AdmissionStatus" where
  "admit J io now log e policy =
     (case can_admit e policy of
        AdmBlocked reasons \<Rightarrow> (log, AdmDeniedByGate reasons)
      | AdmAllowed \<Rightarrow>
          (case project_stream memory_domain J io log of
             Inl source \<Rightarrow> (log, AdmStoreError source)
           | Inr projection \<Rightarrow>
               (case next_sequence memory_domain projection of
                  Inl source \<Rightarrow> (log, AdmStoreError source)
                | Inr sequence \<Rightarrow>
                    (case append_stream J (tx_append io 0) log (MAdmitted sequence now e) of
                       (log', None) \<Rightarrow> (log', Admitted sequence)
                     | (log', Some err) \<Rightarrow> (log', AdmStoreError err)))))"

fun distinct_non_empty_from :: "string list \<Rightarrow> string list \<Rightarrow> string list" where
  "distinct_non_empty_from seen [] = seen"
| "distinct_non_empty_from seen (r # rs) =
     (let trimmed = trim r in
      if trimmed = [] then distinct_non_empty_from seen rs
      else if trimmed \<notin> set seen then distinct_non_empty_from (seen @ [trimmed]) rs
      else distinct_non_empty_from seen rs)"

definition distinct_non_empty :: "string list \<Rightarrow> string list" where
  "distinct_non_empty refs = distinct_non_empty_from [] refs"

definition promote ::
  "MemoryEvent json \<Rightarrow> txn_io \<Rightarrow> u64 \<Rightarrow> string \<Rightarrow> StableId \<Rightarrow> MemoryPolicy \<Rightarrow> string list \<Rightarrow> string \<times> PromoteStatus" where
  "promote J io now log eid policy refs =
     (case project_stream memory_domain J io log of
        Inl source \<Rightarrow> (log, PromoteStoreError source)
      | Inr projection \<Rightarrow>
          (case bt_get (mp_entries projection) eid of
             None \<Rightarrow> (log, PromoteNotFound)
           | Some e \<Rightarrow>
               (case can_promote e policy refs of
                  AdmBlocked reasons \<Rightarrow> (log, PromoteDeniedByGate reasons)
                | AdmAllowed \<Rightarrow>
                    let before = authority_level_effective e; after = Authority in
                    (case next_sequence memory_domain projection of
                       Inl source \<Rightarrow> (log, PromoteStoreError source)
                     | Inr sequence \<Rightarrow>
                         (case append_stream J (tx_append io 0) log
                                 (MPromoted sequence now eid before after (distinct_non_empty refs)) of
                            (log', None) \<Rightarrow> (log', Promoted sequence before after)
                          | (log', Some err) \<Rightarrow> (log', PromoteStoreError err))))))"

definition forget ::
  "MemoryEvent json \<Rightarrow> entry_hash \<Rightarrow> txn_io \<Rightarrow> u64 \<Rightarrow> string \<Rightarrow> StableId \<Rightarrow> string \<times> ForgetStatus" where
  "forget J H io now log eid =
     (case project_stream memory_domain J io log of
        Inl source \<Rightarrow> (log, ForgetStoreError source)
      | Inr projection \<Rightarrow>
          if eid \<in> mp_superseded projection then (log, AlreadyForgotten)
          else
            (case bt_get (mp_entries projection) eid of
               None \<Rightarrow> (log, ForgetNotFound)
             | Some before \<Rightarrow>
                 (case next_sequence memory_domain projection of
                    Inl source \<Rightarrow> (log, ForgetStoreError source)
                  | Inr sequence \<Rightarrow>
                      (case append_stream J (tx_append io 0) log (MForgotten sequence now before (content_hash_of H before)) of
                         (log', None) \<Rightarrow> (log', Forgotten sequence)
                       | (log', Some err) \<Rightarrow> (log', ForgetStoreError err)))))"

text \<open>The loop of \<open>list_now\<close> that persists the flips, one append each.\<close>

fun persist_flips ::
  "MemoryEvent json \<Rightarrow> txn_io \<Rightarrow> nat \<Rightarrow> u64 \<Rightarrow> string \<Rightarrow> u64 \<Rightarrow> MemoryEntry list \<Rightarrow> string \<times> EventLogError option" where
  "persist_flips J io k now log sequence [] = (log, None)"
| "persist_flips J io k now log sequence (e # rest) =
     (case u64_checked_add sequence 1 of
        None \<Rightarrow> (log, Some SequenceExhausted)
      | Some sequence' \<Rightarrow>
          (case append_stream J (tx_append io k) log (MAdmitted sequence' now e) of
             (log', Some err) \<Rightarrow> (log', Some err)
           | (log', None) \<Rightarrow> persist_flips J io (Suc k) now log' sequence' rest))"

definition newly_stale :: "MemoryProjection \<Rightarrow> MemoryEntry list \<Rightarrow> MemoryEntry list" where
  "newly_stale projection swept =
     filter (\<lambda>e. stale (freshness e) \<and>
                (case bt_get (mp_entries projection) (entry_id e) of
                   None \<Rightarrow> False
                 | Some original \<Rightarrow> \<not> stale (freshness original))) swept"

definition list_now :: "MemoryEvent json \<Rightarrow> txn_io \<Rightarrow> u64 \<Rightarrow> string \<Rightarrow> string \<times> ListStatus" where
  "list_now J io now log =
     (case project_stream memory_domain J io log of
        Inl source \<Rightarrow> (log, ListStoreError source)
      | Inr projection \<Rightarrow>
          let swept = mark_stale now (bt_values (mp_entries projection));
              flips = newly_stale projection swept
          in (case persist_flips J io 0 now log (mp_sequence projection) flips of
                (log', Some err) \<Rightarrow> (log', ListStoreError err)
              | (log', None) \<Rightarrow> (log', ListOk (length flips) (filter (\<lambda>e. \<not> stale (freshness e)) swept))))"

section \<open>The contract of the trait on this domain\<close>

type_synonym mem_state = "MemoryEntry btree_map \<times> string set"

fun mem_step :: "mem_state \<Rightarrow> MemoryEvent \<Rightarrow> mem_state" where
  "mem_step (m, s) (MAdmitted _ _ e) = (bt_insert (entry_id e) e m, s)"
| "mem_step (m, s) (MPromoted _ _ eid _ after _) =
     (case bt_get m eid of None \<Rightarrow> (m, s) | Some e \<Rightarrow> (bt_insert eid (e\<lparr> authority_level := Some after \<rparr>) m, s))"
| "mem_step (m, s) (MForgotten _ _ before _) = (bt_remove (entry_id before) m, insert (entry_id before) s)"

definition mem_state_of :: "MemoryProjection \<Rightarrow> mem_state" where
  "mem_state_of p = (mp_entries p, mp_superseded p)"

lemma mem_apply_state: "mem_state_of (mem_apply p ev) = mem_step (mem_state_of p) ev"
  by (cases ev) (auto simp: mem_state_of_def split: option.splits)

interpretation mem: event_sourced memory_domain mem_state_of mem_step
  by unfold_locales (simp_all add: memory_domain_def mem_apply_state, simp_all add: mem_state_of_def)

definition store_of :: "MemoryEvent list \<Rightarrow> mem_state" where
  "store_of evs = foldl mem_step ([], {}) evs"

lemma store_of_snoc [simp]: "store_of (evs @ [ev]) = mem_step (store_of evs) ev"
  by (simp add: store_of_def)

lemma memory_default [simp]: "mem_state_of (es_default memory_domain) = ([], {})"
  by (simp add: memory_domain_def mem_state_of_def)

lemma memory_sequence [simp]: "es_sequence memory_domain = mem_sequence" "es_sequence_of memory_domain = mp_sequence"
  by (simp_all add: memory_domain_def)

section \<open>The gates and the sweep of one entry\<close>

lemma count_seen_eq: "count_seen seen refs = distinct_non_empty_from seen refs"
  by (induction refs arbitrary: seen) (auto simp: Let_def)

lemma count_distinct_non_empty_eq: "count_distinct_non_empty refs = length (distinct_non_empty refs)"
  by (simp add: count_distinct_non_empty_def distinct_non_empty_def count_seen_eq)

lemma distinct_non_empty_from_ok:
  "distinct seen \<Longrightarrow> [] \<notin> set seen \<Longrightarrow>
     distinct (distinct_non_empty_from seen refs) \<and> [] \<notin> set (distinct_non_empty_from seen refs)"
  by (induction refs arbitrary: seen) (auto simp: Let_def)

lemma mark_entry_id [simp]: "entry_id (mark_entry_stale now e) = entry_id e"
  "authority_level (mark_entry_stale now e) = authority_level e"
  by (simp_all add: mark_entry_stale_def Let_def)

lemma mark_entry_stale_idem: "mark_entry_stale now (mark_entry_stale now e) = mark_entry_stale now e"
  by (simp add: mark_entry_stale_def Let_def split: option.splits)

lemma mark_entry_stale_mono: "stale (freshness e) \<Longrightarrow> stale (freshness (mark_entry_stale now e))"
  by (simp add: mark_entry_stale_def Let_def split: option.splits)

lemma mark_entry_stale_same:
  "stale (freshness (mark_entry_stale now e)) = stale (freshness e) \<Longrightarrow> mark_entry_stale now e = e"
  by (simp add: mark_entry_stale_def Let_def split: option.splits)

section \<open>The state of a run\<close>

text \<open>Keys are the identifiers of the entries, and the map is sorted.\<close>

definition keyed :: "MemoryEntry btree_map \<Rightarrow> bool" where
  "keyed m \<longleftrightarrow> bt_sorted m \<and> (\<forall>k e. bt_get m k = Some e \<longrightarrow> entry_id e = k)"

lemma keyed_store: "keyed (fst (store_of evs))"
proof (induction evs rule: rev_induct)
  case Nil
  show ?case by (simp add: store_of_def keyed_def)
next
  case (snoc ev evs)
  obtain m t where "store_of evs = (m, t)" by (cases "store_of evs")
  with snoc show ?case
    by (cases ev) (auto simp: keyed_def bt_sorted_insert bt_sorted_remove bt_get_insert bt_get_remove split: option.splits)
qed

text \<open>An identifier is evidenced by a promotion that carried enough distinct references.\<close>

definition evidenced :: "MemoryPolicy \<Rightarrow> MemoryEvent list \<Rightarrow> StableId \<Rightarrow> bool" where
  "evidenced P evs k \<longleftrightarrow>
     (\<exists>n t b a refs. MPromoted n t k b a refs \<in> set evs \<and> refs \<noteq> [] \<and>
        min_evidence_refs_for_authority P \<le> length refs \<and> distinct refs \<and> [] \<notin> set refs)"

definition authed :: "MemoryPolicy \<Rightarrow> MemoryEvent list \<Rightarrow> bool" where
  "authed P evs \<longleftrightarrow>
     (\<forall>k e. bt_get (fst (store_of evs)) k = Some e \<longrightarrow> authority_level e = Some Authority \<longrightarrow> evidenced P evs k)"

fun mem_allowed :: "MemoryPolicy \<Rightarrow> MemoryEvent list \<Rightarrow> MemoryEvent \<Rightarrow> bool" where
  "mem_allowed P evs (MAdmitted _ _ e) \<longleftrightarrow> (authority_level e = Some Authority \<longrightarrow> evidenced P evs (entry_id e))"
| "mem_allowed P evs (MPromoted _ _ _ _ _ refs) \<longleftrightarrow>
     refs \<noteq> [] \<and> min_evidence_refs_for_authority P \<le> length refs \<and> distinct refs \<and> [] \<notin> set refs"
| "mem_allowed P evs (MForgotten _ _ _ _) \<longleftrightarrow> True"

lemma evidenced_append: "evidenced P evs k \<Longrightarrow> evidenced P (evs @ evs') k"
  unfolding evidenced_def by fastforce

lemma authed_snoc:
  assumes "authed P evs" "mem_allowed P evs ev" shows "authed P (evs @ [ev])"
proof -
  obtain m t where m: "store_of evs = (m, t)" by (cases "store_of evs")
  have old: "bt_get m k = Some e \<Longrightarrow> authority_level e = Some Authority \<Longrightarrow> evidenced P (evs @ [ev]) k" for k e
    using assms(1) m evidenced_append by (auto simp: authed_def)
  show ?thesis
  proof (cases ev)
    case (MAdmitted n t e)
    then show ?thesis using assms(2) old evidenced_append
      by (auto simp: authed_def m bt_get_insert split: if_splits)
  next
    case (MPromoted n t eid b a refs)
    then have "evidenced P (evs @ [ev]) eid" using assms(2) by (fastforce simp: evidenced_def)
    then show ?thesis using MPromoted old by (auto simp: authed_def m bt_get_insert split: if_splits option.splits)
  next
    case (MForgotten n t e h)
    then show ?thesis using old by (auto simp: authed_def m bt_get_remove split: if_splits)
  qed
qed

text \<open>The events a sweep appends.\<close>

fun flip_events :: "nat \<Rightarrow> u64 \<Rightarrow> MemoryEntry list \<Rightarrow> MemoryEvent list" where
  "flip_events b now [] = []"
| "flip_events b now (e # es) = MAdmitted (of_nat (Suc b)) now e # flip_events (Suc b) now es"

lemma persist_flips_inv:
  assumes "codec_ok J" "clean_io J io"
  shows "stream_inv memory_domain J log evs \<Longrightarrow> persist_flips J io k now log (of_nat (length evs)) es = (log', r) \<Longrightarrow>
    \<exists>n. stream_inv memory_domain J log' (evs @ flip_events (length evs) now (take n es)) \<and> (r = None \<longrightarrow> n = length es)"
proof (induction es arbitrary: k log evs)
  case Nil
  then show ?case by auto
next
  case (Cons e es)
  show ?case
  proof (cases "u64_checked_add (of_nat (length evs)) 1")
    case None
    with Cons.prems show ?thesis by (intro exI [of _ 0]) auto
  next
    case (Some s)
    let ?ev = "MAdmitted s now e"
    have num: "numbered memory_domain (evs @ [?ev])"
      using Cons.prems(1) Some by (intro numbered_Suc) (auto simp: stream_inv_def)
    then have s: "s = of_nat (Suc (length evs))" by (auto simp: numbered_def nth_append)
    obtain log1 r1 where a: "append_stream J (tx_append io k) log ?ev = (log1, r1)" by fastforce
    have w: "intact J (tx_append io k) ?ev" using assms(2) by (simp add: clean_io_def)
    note inv = append_stream_inv [OF Cons.prems(1) num w a]
    show ?thesis
    proof (cases r1)
      case None
      with inv have i1: "stream_inv memory_domain J log1 (evs @ [?ev])" by simp
      have "persist_flips J io (Suc k) now log1 (of_nat (length (evs @ [?ev]))) es = (log', r)"
        using Cons.prems(2) Some a None s by simp
      from Cons.IH [OF i1 this] obtain n where
        "stream_inv memory_domain J log' ((evs @ [?ev]) @ flip_events (length (evs @ [?ev])) now (take n es))"
        "r = None \<longrightarrow> n = length es" by blast
      then show ?thesis using s by (intro exI [of _ "Suc n"]) simp
    next
      case (Some err)
      with Cons.prems(2) \<open>u64_checked_add _ 1 = Some s\<close> a have e: "log' = log1" "r = Some err" by auto
      from inv(1) show ?thesis
      proof
        assume "stream_inv memory_domain J log1 (evs @ [?ev])"
        then show ?thesis using e s by (intro exI [of _ 1]) simp
      next
        assume "log1 = log \<and> r1 \<noteq> None"
        then show ?thesis using e Cons.prems(1) by (intro exI [of _ 0]) simp
      qed
    qed
  qed
qed

text \<open>
  The operations under one policy, with reads and whole writes that may fail; an entry is admitted
  below authority.
\<close>

inductive store_step :: "MemoryEvent json \<Rightarrow> entry_hash \<Rightarrow> MemoryPolicy \<Rightarrow> string \<Rightarrow> string \<Rightarrow> bool" for J H P where
  step_admit: "authority_level e \<noteq> Some Authority \<Longrightarrow> clean_io J io \<Longrightarrow> admit J io now log e P = (log', s1) \<Longrightarrow>
    store_step J H P log log'"
| step_promote: "clean_io J io \<Longrightarrow> promote J io now log eid P refs = (log', s2) \<Longrightarrow> store_step J H P log log'"
| step_forget: "clean_io J io \<Longrightarrow> forget J H io now log eid = (log', s3) \<Longrightarrow> store_step J H P log log'"
| step_list: "clean_io J io \<Longrightarrow> list_now J io now log = (log', s4) \<Longrightarrow> store_step J H P log log'"

abbreviation store_run :: "MemoryEvent json \<Rightarrow> entry_hash \<Rightarrow> MemoryPolicy \<Rightarrow> string \<Rightarrow> string \<Rightarrow> bool" where
  "store_run J H P \<equiv> (store_step J H P)\<^sup>*\<^sup>*"

lemma admit_log:
  assumes "admit J io now log e P = (log', s)"
  obtains "log' = log" | p n r where "can_admit e P = AdmAllowed" "project_stream memory_domain J io log = Inr p"
    "next_sequence memory_domain p = Inr n" "append_stream J (tx_append io 0) log (MAdmitted n now e) = (log', r)"
  using assms unfolding admit_def by (auto split: AdmissionDecision.splits sum.splits option.splits prod.splits)

lemma promote_log:
  assumes "promote J io now log eid P refs = (log', s)"
  obtains "log' = log" | p n r e where "project_stream memory_domain J io log = Inr p" "bt_get (mp_entries p) eid = Some e"
    "can_promote e P refs = AdmAllowed" "next_sequence memory_domain p = Inr n"
    "append_stream J (tx_append io 0) log
       (MPromoted n now eid (authority_level_effective e) Authority (distinct_non_empty refs)) = (log', r)"
  using assms unfolding promote_def Let_def
  by (auto split: AdmissionDecision.splits sum.splits option.splits prod.splits)

lemma forget_log:
  assumes "forget J H io now log eid = (log', s)"
  obtains "log' = log" | p n r e where "project_stream memory_domain J io log = Inr p" "eid \<notin> mp_superseded p"
    "bt_get (mp_entries p) eid = Some e" "next_sequence memory_domain p = Inr n"
    "append_stream J (tx_append io 0) log (MForgotten n now e (content_hash_of H e)) = (log', r)"
  using assms unfolding forget_def by (auto split: sum.splits option.splits prod.splits if_splits)

lemma list_now_log:
  assumes "list_now J io now log = (log', s)"
  obtains err where "log' = log" "s = ListStoreError err" | p r where "project_stream memory_domain J io log = Inr p"
    "persist_flips J io 0 now log (mp_sequence p) (newly_stale p (mark_stale now (bt_values (mp_entries p)))) = (log', r)"
    "s = (case r of Some err \<Rightarrow> ListStoreError err
          | None \<Rightarrow> ListOk (length (newly_stale p (mark_stale now (bt_values (mp_entries p)))))
              (filter (\<lambda>e. \<not> stale (freshness e)) (mark_stale now (bt_values (mp_entries p)))))"
  using assms unfolding list_now_def Let_def by (auto split: sum.splits option.splits prod.splits)

lemma projected_store:
  assumes "codec_ok J" "stream_inv memory_domain J log evs" "project_stream memory_domain J io log = Inr p"
  shows "mp_entries p = fst (store_of evs)" "mp_superseded p = snd (store_of evs)" "mp_sequence p = of_nat (length evs)"
proof -
  have "mem_state_of p = store_of evs" using mem.project_stream_inv(2) [OF assms] by (simp add: store_of_def)
  then show "mp_entries p = fst (store_of evs)" "mp_superseded p = snd (store_of evs)"
    by (cases "store_of evs"; simp add: mem_state_of_def)+
  show "mp_sequence p = of_nat (length evs)"
    using mem.project_stream_inv(1) [OF assms] mem.replay_numbered [of evs] assms(2) by (simp add: stream_inv_def)
qed

lemma replayed_store:
  assumes "codec_ok J" "stream_inv memory_domain J log evs"
  shows "\<exists>p. replay_bytes memory_domain J log = Inr p \<and> mp_entries p = fst (store_of evs) \<and>
    mp_superseded p = snd (store_of evs) \<and> mp_sequence p = of_nat (length evs)"
proof -
  obtain m t where "store_of evs = (m, t)" by (cases "store_of evs")
  then show ?thesis using mem.replay_stream [OF assms]
    by (auto simp del: memory_default simp: store_of_def mem_state_of_def memory_domain_def)
qed

lemma mem_publish:
  assumes "codec_ok J" "stream_inv memory_domain J log evs" "authed P evs" "project_stream memory_domain J io log = Inr p"
    "next_sequence memory_domain p = Inr n" "mem_sequence ev = n" "clean_io J io"
    "append_stream J (tx_append io 0) log ev = (log', r)" "mem_allowed P evs ev"
  shows "\<exists>evs'. stream_inv memory_domain J log' evs' \<and> authed P evs' \<and> snd (store_of evs) \<subseteq> snd (store_of evs')"
proof -
  have "intact J (tx_append io 0) ev" using assms(7) by (simp add: clean_io_def)
  from mem.publish_inv [OF assms(1,2,4,5) _ this assms(8)] assms(6) obtain evs' where
    e: "stream_inv memory_domain J log' evs'" "evs' = evs \<or> evs' = evs @ [ev]" by auto
  have "snd (store_of evs) \<subseteq> snd (store_of (evs @ [ev]))"
    by (cases "store_of evs"; cases ev) (auto split: option.splits)
  with e assms(3) authed_snoc [OF assms(3,9)] show ?thesis by blast
qed

lemma flip_events_authed:
  "authed P evs \<Longrightarrow> \<forall>e\<in>set es. authority_level e = Some Authority \<longrightarrow> evidenced P evs (entry_id e) \<Longrightarrow>
     authed P (evs @ flip_events b now es)"
proof (induction es arbitrary: evs b)
  case (Cons e es)
  let ?ev = "MAdmitted (of_nat (Suc b)) now e"
  have "authed P (evs @ [?ev])" using Cons.prems by (intro authed_snoc) auto
  moreover have "\<forall>e\<in>set es. authority_level e = Some Authority \<longrightarrow> evidenced P (evs @ [?ev]) (entry_id e)"
    using Cons.prems(2) evidenced_append by fastforce
  ultimately have "authed P ((evs @ [?ev]) @ flip_events (Suc b) now es)" by (rule Cons.IH)
  then show ?case by simp
qed simp

lemma flip_events_store:
  "foldl mem_step (m, t) (flip_events b now es) = (fold (\<lambda>e. bt_insert (entry_id e) e) es m, t)"
  by (induction es arbitrary: b m) auto

lemma store_of_flips:
  "store_of (evs @ flip_events b now es) =
     (fold (\<lambda>e. bt_insert (entry_id e) e) es (fst (store_of evs)), snd (store_of evs))"
  using flip_events_store [of "fst (store_of evs)" "snd (store_of evs)" b now es] by (simp add: store_of_def)

lemma store_step_inv:
  assumes "codec_ok J" "stream_inv memory_domain J log evs" "authed P evs" "store_step J H P log log'"
  shows "\<exists>evs'. stream_inv memory_domain J log' evs' \<and> authed P evs' \<and> snd (store_of evs) \<subseteq> snd (store_of evs')"
  using assms(4)
proof cases
  case (step_admit e io now s)
  from step_admit(3) show ?thesis
  proof (cases rule: admit_log)
    case (2 p n r)
    show ?thesis
      by (rule mem_publish [OF assms(1-3) 2(2,3) _ step_admit(2) 2(4)]) (use step_admit in simp_all)
  qed (use assms in blast)
next
  case (step_promote io now eid refs s)
  from step_promote(2) show ?thesis
  proof (cases rule: promote_log)
    case (2 p n r e)
    have "mem_allowed P evs (MPromoted n now eid (authority_level_effective e) Authority (distinct_non_empty refs))"
      using 2(3) distinct_non_empty_from_ok [of "[]" refs]
      by (auto simp: can_promote_def Let_def count_distinct_non_empty_eq distinct_non_empty_def split: if_splits)
    then show ?thesis
      by (intro mem_publish [OF assms(1-3) 2(1,4) _ step_promote(1) 2(5)]) simp_all
  qed (use assms in blast)
next
  case (step_forget io now eid s)
  from step_forget(2) show ?thesis
  proof (cases rule: forget_log)
    case (2 p n r e)
    show ?thesis by (rule mem_publish [OF assms(1-3) 2(1,4) _ step_forget(1) 2(5)]) simp_all
  qed (use assms in blast)
next
  case (step_list io now s)
  from step_list(2) show ?thesis
  proof (cases rule: list_now_log)
    case (2 p r)
    note pr = projected_store [OF assms(1,2) 2(1)]
    let ?es = "newly_stale p (mark_stale now (bt_values (mp_entries p)))"
    from persist_flips_inv [OF assms(1) step_list(1) assms(2) 2(2) [unfolded pr(3)]] obtain n where
      n: "stream_inv memory_domain J log' (evs @ flip_events (length evs) now (take n ?es))" by blast
    have "\<forall>e\<in>set (take n ?es). authority_level e = Some Authority \<longrightarrow> evidenced P evs (entry_id e)"
    proof (intro ballI impI)
      fix e assume e: "e \<in> set (take n ?es)" "authority_level e = Some Authority"
      then obtain e0 where "e0 \<in> set (bt_values (fst (store_of evs)))" "e = mark_entry_stale now e0"
        by (auto dest!: in_set_takeD simp: newly_stale_def mark_stale_def pr(1))
      then show "evidenced P evs (entry_id e)"
        using keyed_store [of evs] e(2) assms(3) by (auto simp: keyed_def in_bt_values authed_def)
    qed
    with n assms(3) show ?thesis by (intro exI [of _ "evs @ flip_events (length evs) now (take n ?es)"])
        (simp add: flip_events_authed store_of_flips)
  qed (use assms in blast)
qed

lemma store_reach:
  assumes "codec_ok J" "stream_inv memory_domain J log evs" "authed P evs" "store_run J H P log log'"
  shows "\<exists>evs'. stream_inv memory_domain J log' evs' \<and> authed P evs' \<and> snd (store_of evs) \<subseteq> snd (store_of evs')"
  using assms(4)
proof (induction rule: rtranclp_induct)
  case (step y z)
  then show ?case using store_step_inv [OF assms(1)] by (meson subset_trans)
qed (use assms in blast)

lemma authed_Nil: "authed P []"
  by (simp add: authed_def store_of_def)

section \<open>The sweep\<close>

lemma sweep_map:
  assumes "keyed m"
    and flips: "flips = filter (\<lambda>e. stale (freshness e) \<and>
        (case bt_get m (entry_id e) of None \<Rightarrow> False | Some e0 \<Rightarrow> \<not> stale (freshness e0)))
      (mark_stale now (bt_values m))"
  shows "fold (\<lambda>e. bt_insert (entry_id e) e) flips m = bt_map (mark_entry_stale now) m"
proof (rule bt_ext)
  from assms(1) have sorted: "bt_sorted m" and key: "\<And>k e. bt_get m k = Some e \<Longrightarrow> entry_id e = k"
    by (auto simp: keyed_def)
  show "bt_sorted (fold (\<lambda>e. bt_insert (entry_id e) e) flips m)" by (rule bt.inv_fold_ins [OF sorted])
  show "bt_sorted (bt_map (mark_entry_stale now) m)" using sorted by simp
  have flipI: "mark_entry_stale now e \<in> set flips" if "bt_get m k = Some e" "mark_entry_stale now e \<noteq> e" for k e
  proof -
    have "entry_id e = k" using that(1) by (rule key)
    moreover have "stale (freshness (mark_entry_stale now e))" "\<not> stale (freshness e)"
      using that(2) mark_entry_stale_mono mark_entry_stale_same by blast+
    moreover have "e \<in> set (bt_values m)" using that(1) by (auto simp: in_bt_values [OF sorted])
    ultimately show ?thesis using that(1) by (simp add: flips mark_stale_def)
  qed
  have flipD: "\<exists>e0. bt_get m (entry_id e) = Some e0 \<and> e = mark_entry_stale now e0" if "e \<in> set flips" for e
  proof -
    from that obtain e0 where "e0 \<in> set (bt_values m)" and e: "e = mark_entry_stale now e0"
      by (auto simp: flips mark_stale_def)
    then obtain k where k: "bt_get m k = Some e0" by (auto simp: in_bt_values [OF sorted])
    with key [OF k] e show ?thesis by simp
  qed
  show "bt_get (fold (\<lambda>e. bt_insert (entry_id e) e) flips m) = bt_get (bt_map (mark_entry_stale now) m)"
  proof
    fix k
    show "bt_get (fold (\<lambda>e. bt_insert (entry_id e) e) flips m) k = bt_get (bt_map (mark_entry_stale now) m) k"
    proof (cases "find (\<lambda>e. entry_id e = k) (rev flips)")
      case None
      then have none: "e \<in> set flips \<Longrightarrow> entry_id e \<noteq> k" for e by (auto simp: find_None_iff)
      have "mark_entry_stale now e = e" if "bt_get m k = Some e" for e
        using flipI [OF that] none [of "mark_entry_stale now e"] key [OF that] by auto
      then show ?thesis using None by (cases "bt_get m k") (simp_all add: bt.get_fold_ins [where f = "\<lambda>e. e"] bt_get_map)
    next
      case (Some e)
      then have "e \<in> set (rev flips)" "entry_id e = k" by (auto dest: find_SomeD)
      with flipD [of e] show ?thesis using Some by (auto simp: bt.get_fold_ins [where f = "\<lambda>e. e"] bt_get_map)
    qed
  qed
qed

lemma bt_map_idem: "bt_map (mark_entry_stale now) (bt_map (mark_entry_stale now) m) = bt_map (mark_entry_stale now) m"
  by (simp add: bt_map_def case_prod_beta comp_def mark_entry_stale_idem)

lemma mark_stale_values: "mark_stale now (bt_values m) = bt_values (bt_map (mark_entry_stale now) m)"
  by (simp add: mark_stale_def bt_values_map)

lemma newly_stale_swept:
  assumes "keyed (mp_entries p)" "bt_map (mark_entry_stale now) (mp_entries p) = mp_entries p"
  shows "newly_stale p (mark_stale now (bt_values (mp_entries p))) = []"
proof -
  from assms(1) have "bt_sorted (mp_entries p)" "\<And>k e. bt_get (mp_entries p) k = Some e \<Longrightarrow> entry_id e = k"
    by (auto simp: keyed_def)
  then show ?thesis
    unfolding newly_stale_def mark_stale_values assms(2) filter_empty_conv
    by (auto simp: in_bt_values split: option.splits)
qed

lemma list_now_settled:
  assumes "project_stream memory_domain J io log = Inr p" "keyed (mp_entries p)"
    "bt_map (mark_entry_stale now) (mp_entries p) = mp_entries p"
  shows "list_now J io now log = (log, ListOk 0 (filter (\<lambda>e. \<not> stale (freshness e)) (bt_values (mp_entries p))))"
  using assms(1) newly_stale_swept [OF assms(2,3)] by (simp add: list_now_def mark_stale_values assms(3))

lemma list_now_effect:
  assumes "codec_ok J" "stream_inv memory_domain J log evs" "replay_bytes memory_domain J log = Inr p" "clean_io J io"
    "list_now J io now log = (log', ListOk n live)"
  shows "\<exists>p'. replay_bytes memory_domain J log' = Inr p' \<and> keyed (mp_entries p') \<and>
    mp_entries p' = bt_map (mark_entry_stale now) (mp_entries p) \<and> mp_superseded p' = mp_superseded p \<and>
    live = filter (\<lambda>e. \<not> stale (freshness e)) (bt_values (mp_entries p'))"
  using assms(5)
proof (cases rule: list_now_log)
  case (2 q r)
  let ?es = "newly_stale q (mark_stale now (bt_values (mp_entries q)))"
  note pr = projected_store [OF assms(1,2) 2(1)]
  have q: "mp_entries p = mp_entries q" "mp_superseded p = mp_superseded q"
    using replayed_store [OF assms(1,2)] assms(3) pr by auto
  from 2(3) have r: "r = None" "live = filter (\<lambda>e. \<not> stale (freshness e)) (mark_stale now (bt_values (mp_entries q)))"
    by (auto split: option.splits)
  from persist_flips_inv [OF assms(1,4,2) 2(2) [unfolded pr(3)]] r(1)
  have s: "stream_inv memory_domain J log' (evs @ flip_events (length evs) now ?es)" by auto
  have "fold (\<lambda>e. bt_insert (entry_id e) e) ?es (fst (store_of evs)) = bt_map (mark_entry_stale now) (fst (store_of evs))"
    by (rule sweep_map [OF keyed_store]) (simp add: newly_stale_def pr(1))
  with replayed_store [OF assms(1) s] keyed_store [of "evs @ flip_events (length evs) now ?es"] q pr r(2) show ?thesis
    by (auto simp: store_of_flips mark_stale_values)
qed auto

section \<open>A sample store\<close>

definition sample_entry :: MemoryEntry where
  "sample_entry =
     \<lparr> entry_id = ''m1'', me_kind = MkPreference, me_content = ''prefer small steps'',
       provenance = \<lparr> source_run_id = None, source_agent = None, evidence_ref = None, captured_at = ''0'' \<rparr>,
       freshness = \<lparr> ttl_seconds = Some 10, last_confirmed_at = ''0'', stale = False \<rparr>,
       confidence = 50, approval = Proposed, supersedes = None, invalidation_reason = None,
       authority_level = None, review_state = None, reviewed_by = None, reviewed_at = None \<rparr>"

definition swept_entry :: MemoryEntry where
  "swept_entry = sample_entry\<lparr> freshness := (freshness sample_entry)\<lparr> stale := True \<rparr> \<rparr>"

definition sample_memory_policy :: MemoryPolicy where
  "sample_memory_policy =
     \<lparr> permitted_kinds = [MkPreference], required_evidence_fields = [], min_evidence_refs_for_authority = 1 \<rparr>"

definition sample_hash :: entry_hash where
  "sample_hash = \<lparr> sha256_hex = (\<lambda>_. ''00''), entry_json = (\<lambda>_. None), entry_debug = entry_id \<rparr>"

definition memory_table :: "(MemoryEvent \<times> string) list" where
  "memory_table =
     [(MAdmitted 1 0 sample_entry, ''{admitted:1}''),
      (MPromoted 2 0 ''m1'' Raw Authority [''ref''], ''{promoted:2}''),
      (MAdmitted 2 20 swept_entry, ''{swept:2}''),
      (MForgotten 2 0 sample_entry ''sha256:00'', ''{forgotten:2}''),
      (MAdmitted 3 0 sample_entry, ''{admitted:3}'')]"

abbreviation memory_json :: "MemoryEvent json" where
  "memory_json \<equiv> table_json memory_table"

definition admitted_log :: string where
  "admitted_log = ''{admitted:1}'' @ [nl]"

lemma memory_codec: "codec_ok memory_json"
  by (rule table_json_ok)
    (simp_all add: memory_table_def table_line_ok_def utf8_error_ascii starts_with_def ends_with_def
      del: utf8_error.simps)

lemma memory_to_vec:
  "to_vec memory_json (MAdmitted 1 0 sample_entry) = Inr ''{admitted:1}''"
  "to_vec memory_json (MPromoted 2 0 ''m1'' Raw Authority [''ref'']) = Inr ''{promoted:2}''"
  "to_vec memory_json (MAdmitted 2 20 swept_entry) = Inr ''{swept:2}''"
  "to_vec memory_json (MForgotten 2 0 sample_entry ''sha256:00'') = Inr ''{forgotten:2}''"
  "to_vec memory_json (MAdmitted 3 0 sample_entry) = Inr ''{admitted:3}''"
  by (simp_all add: table_json_def memory_table_def)

lemma sample_entry_id [simp]: "entry_id sample_entry = ''m1''"
  by (simp add: sample_entry_def)

lemma sample_can_admit: "can_admit sample_entry sample_memory_policy = AdmAllowed"
  by (simp add: can_admit_def from_denials_def kind_is_permitted_def sample_entry_def sample_memory_policy_def)

lemma memory_stream: "stream_inv memory_domain memory_json admitted_log [MAdmitted 1 0 sample_entry]"
  by (simp add: stream_inv_def numbered_def admitted_log_def memory_to_vec)

lemma memory_store1: "store_of [MAdmitted 1 0 sample_entry] = ([(''m1'', sample_entry)], {})"
  by (simp add: store_of_def)

text \<open>Transactions of the sample store that meet no fault.\<close>

lemma next_sequence_memory:
  "next_sequence memory_domain p =
     (if Suc (unat (mp_sequence p)) = 2 ^ 64 then Inl SequenceExhausted else Inr (of_nat (Suc (unat (mp_sequence p)))))"
  using mem.next_sequence_eq [of p] by simp

lemma sample_store:
  obtains p where "replay_bytes memory_domain memory_json admitted_log = Inr p" "mp_entries p = [(''m1'', sample_entry)]"
    "mp_superseded p = {}" "mp_sequence p = 1"
  using replayed_store [OF memory_codec memory_stream] by (auto simp: memory_store1)

lemma sample_admit: "admit memory_json quiet_io 0 [] sample_entry sample_memory_policy = (admitted_log, Admitted 1)"
proof -
  have "replay_bytes memory_domain memory_json [] = Inr (es_default memory_domain)"
    using replay_holds [OF holds_Nil, of memory_domain memory_json] by (simp add: replay_def)
  moreover have "next_sequence memory_domain (es_default memory_domain) = Inr 1"
    by (simp add: next_sequence_memory) (simp add: memory_domain_def)
  ultimately show ?thesis
    by (simp add: admit_def sample_can_admit quiet_project quiet_append memory_to_vec admitted_log_def)
qed

lemma sample_promote:
  "promote memory_json quiet_io 0 admitted_log ''m1'' sample_memory_policy [''ref''] =
     (admitted_log @ ''{promoted:2}'' @ [nl], Promoted 2 Raw Authority)"
proof -
  have d: "distinct_non_empty [''ref''] = [''ref'']" by code_simp
  obtain p where p: "replay_bytes memory_domain memory_json admitted_log = Inr p" "mp_entries p = [(''m1'', sample_entry)]"
    "mp_superseded p = {}" "mp_sequence p = 1" by (rule sample_store)
  have "authority_level_effective sample_entry = Raw" by (simp add: authority_level_effective_def sample_entry_def)
  then show ?thesis
    using p d by (simp add: promote_def quiet_project bt_get_def can_promote_def count_distinct_non_empty_eq
        sample_memory_policy_def next_sequence_memory quiet_append memory_to_vec)
qed

lemma sample_forget:
  "forget memory_json sample_hash quiet_io 0 admitted_log ''m1'' = (admitted_log @ ''{forgotten:2}'' @ [nl], Forgotten 2)"
proof -
  obtain p where p: "replay_bytes memory_domain memory_json admitted_log = Inr p" "mp_entries p = [(''m1'', sample_entry)]"
    "mp_superseded p = {}" "mp_sequence p = 1" by (rule sample_store)
  then show ?thesis
    by (simp add: forget_def quiet_project bt_get_def next_sequence_memory content_hash_of_def sample_hash_def
        quiet_append memory_to_vec)
qed

lemma admitted_run: "store_run memory_json sample_hash sample_memory_policy [] admitted_log"
  by (rule r_into_rtranclp, rule step_admit [OF _ clean_quiet_io sample_admit]) (simp add: sample_entry_def)

lemma promoted_run: "store_run memory_json sample_hash sample_memory_policy [] (admitted_log @ ''{promoted:2}'' @ [nl])"
  using admitted_run step_promote [OF clean_quiet_io sample_promote] by (rule rtranclp.rtrancl_into_rtrancl)

lemma forgotten_run: "store_run memory_json sample_hash sample_memory_policy [] (admitted_log @ ''{forgotten:2}'' @ [nl])"
  using admitted_run step_forget [OF clean_quiet_io sample_forget] by (rule rtranclp.rtrancl_into_rtrancl)

section \<open>Properties\<close>







end
