(* ===== verification/Research_Ledger.thy ===== *)
theory Research_Ledger
  imports Event_Stream Ordered_Map
begin

text \<open>
  The research source ledger: the admission gate of \<open>src/crates/forge-core-contracts/src/research.rs\<close>
  and the event-sourced operation \<open>admit_source\<close> of \<open>src/crates/forge-core-eventlog/src/research\<close>.

  The lemmas interpret the trait's contract on this domain and show that every ledger is well
  formed: sorted, keyed by source id, and holding only sources the gate allows.
\<close>

section \<open>Contracts\<close>

datatype ResearchSourceKind = RsPaper | RsWebUrl | RsLocalDoc | RsRepoRef

record ResearchSource =
  rs_id :: string
  rs_kind :: ResearchSourceKind
  rs_title :: string
  rs_locator :: string
  rs_fetched_at :: u64
  rs_content_hash :: "string option"
  rs_harvested_by :: string
  rs_trace_ref :: "string option"

record ResearchPolicy =
  permitted_source_kinds :: "ResearchSourceKind list"
  require_content_hash :: bool
  require_trace_ref :: bool

datatype ResearchAdmissionDenialReason =
  RKindNotPermitted | RMissingTitle | RMissingLocator | RMissingContentHash | RMissingTraceRef

datatype ResearchAdmissionDecision = RAllowed | RBlocked "ResearchAdmissionDenialReason list"

definition research_from_denials :: "ResearchAdmissionDenialReason list \<Rightarrow> ResearchAdmissionDecision" where
  "research_from_denials denials = (if denials = [] then RAllowed else RBlocked denials)"

text \<open>\<open>is_none_or(|h| h.trim().is_empty())\<close>.\<close>

definition absent_or_blank :: "string option \<Rightarrow> bool" where
  "absent_or_blank v = (case v of None \<Rightarrow> True | Some h \<Rightarrow> is_blank h)"

definition can_admit_source :: "ResearchSource \<Rightarrow> ResearchPolicy \<Rightarrow> ResearchAdmissionDecision" where
  "can_admit_source source policy =
     research_from_denials
       ((if rs_kind source \<notin> set (permitted_source_kinds policy) then [RKindNotPermitted] else []) @
        (if is_blank (rs_title source) then [RMissingTitle] else []) @
        (if is_blank (rs_locator source) then [RMissingLocator] else []) @
        (if require_content_hash policy \<and> absent_or_blank (rs_content_hash source) then [RMissingContentHash] else []) @
        (if require_trace_ref policy \<and> absent_or_blank (rs_trace_ref source) then [RMissingTraceRef] else []))"

section \<open>Events, projection and admission\<close>

datatype ResearchEvent = SourceAdded u64 u64 ResearchSource | SourceRetired u64 u64 ResearchSource

fun res_sequence :: "ResearchEvent \<Rightarrow> u64" where
  "res_sequence (SourceAdded sequence _ _) = sequence"
| "res_sequence (SourceRetired sequence _ _) = sequence"

record ResearchProjection =
  rp_sequence :: u64
  rp_sources :: "ResearchSource btree_map"
  rp_superseded :: "string set"
  rp_diagnostics :: "LedgerDiagnostic list"

fun res_apply :: "ResearchProjection \<Rightarrow> ResearchEvent \<Rightarrow> ResearchProjection" where
  "res_apply p (SourceAdded _ _ source) = p\<lparr> rp_sources := bt_insert (rs_id source) source (rp_sources p) \<rparr>"
| "res_apply p (SourceRetired _ _ before) =
     p\<lparr> rp_sources := bt_remove (rs_id before) (rp_sources p), rp_superseded := insert (rs_id before) (rp_superseded p) \<rparr>"

definition research_domain :: "(ResearchEvent, ResearchProjection, LedgerDiagnostic) EventSourced" where
  "research_domain =
     \<lparr> es_default = \<lparr> rp_sequence = 0, rp_sources = [], rp_superseded = {}, rp_diagnostics = [] \<rparr>,
       es_sequence = res_sequence,
       es_apply = res_apply,
       es_record_diagnostic = (\<lambda>p d. p\<lparr> rp_diagnostics := rp_diagnostics p @ [d] \<rparr>),
       es_sequence_of = rp_sequence,
       es_advance_sequence = (\<lambda>p n. p\<lparr> rp_sequence := n \<rparr>),
       es_out_of_order = diagnostic_out_of_order_event_ignored,
       es_torn_final_line = diagnostic_torn_final_line_skipped \<rparr>"

datatype ResearchAdmissionStatus =
  RAdmitted u64 | RDeniedByGate "ResearchAdmissionDenialReason list" | RStoreError EventLogError

definition admit_source ::
  "ResearchEvent json \<Rightarrow> txn_io \<Rightarrow> u64 \<Rightarrow> string \<Rightarrow> ResearchSource \<Rightarrow> ResearchPolicy \<Rightarrow> string \<times> ResearchAdmissionStatus" where
  "admit_source J io now log source policy =
     (case can_admit_source source policy of
        RBlocked reasons \<Rightarrow> (log, RDeniedByGate reasons)
      | RAllowed \<Rightarrow>
          (case project_stream research_domain J io log of
             Inl err \<Rightarrow> (log, RStoreError err)
           | Inr projection \<Rightarrow>
               (case next_sequence research_domain projection of
                  Inl err \<Rightarrow> (log, RStoreError err)
                | Inr sequence \<Rightarrow>
                    (case append_stream J (tx_append io 0) log (SourceAdded sequence now source) of
                       (log', None) \<Rightarrow> (log', RAdmitted sequence)
                     | (log', Some err) \<Rightarrow> (log', RStoreError err)))))"

section \<open>The contract of the trait on this domain\<close>

fun res_step :: "ResearchSource btree_map \<times> string set \<Rightarrow> ResearchEvent \<Rightarrow> ResearchSource btree_map \<times> string set" where
  "res_step (m, s) (SourceAdded _ _ source) = (bt_insert (rs_id source) source m, s)"
| "res_step (m, s) (SourceRetired _ _ before) = (bt_remove (rs_id before) m, insert (rs_id before) s)"

definition res_state_of :: "ResearchProjection \<Rightarrow> ResearchSource btree_map \<times> string set" where
  "res_state_of p = (rp_sources p, rp_superseded p)"

lemma res_apply_state: "res_state_of (res_apply p ev) = res_step (res_state_of p) ev"
  by (cases ev) (auto simp: res_state_of_def)

interpretation res: event_sourced research_domain res_state_of res_step
  by unfold_locales (simp_all add: research_domain_def res_apply_state, simp_all add: res_state_of_def)

inductive research_step :: "ResearchEvent json \<Rightarrow> ResearchPolicy \<Rightarrow> string \<Rightarrow> string \<Rightarrow> bool" for J P where
  step_source: "clean_io J io \<Longrightarrow> admit_source J io now log source P = (log', s) \<Longrightarrow> research_step J P log log'"

abbreviation research_run :: "ResearchEvent json \<Rightarrow> ResearchPolicy \<Rightarrow> string \<Rightarrow> string \<Rightarrow> bool" where
  "research_run J P \<equiv> (research_step J P)\<^sup>*\<^sup>*"

definition sources_ok :: "ResearchPolicy \<Rightarrow> ResearchEvent list \<Rightarrow> bool" where
  "sources_ok P evs \<longleftrightarrow> (\<forall>ev\<in>set evs. \<exists>n t source. ev = SourceAdded n t source \<and> can_admit_source source P = RAllowed)"

definition sources_of :: "ResearchEvent list \<Rightarrow> ResearchSource btree_map \<times> string set" where
  "sources_of evs = foldl res_step ([], {}) evs"

lemma sources_of_ok:
  "sources_ok P evs \<Longrightarrow> snd (sources_of evs) = {} \<and> bt_sorted (fst (sources_of evs)) \<and>
     (\<forall>k source. bt_get (fst (sources_of evs)) k = Some source \<longrightarrow> rs_id source = k \<and> can_admit_source source P = RAllowed)"
proof (induction evs rule: rev_induct)
  case (snoc ev evs)
  obtain m t where "sources_of evs = (m, t)" by (cases "sources_of evs")
  with snoc show ?case
    by (auto simp: sources_ok_def sources_of_def bt_sorted_insert bt_get_insert split: if_splits)
qed (simp add: sources_of_def)

lemma research_step_inv:
  assumes "codec_ok J" "stream_inv research_domain J log evs" "sources_ok P evs" "research_step J P log log'"
  shows "\<exists>evs'. stream_inv research_domain J log' evs' \<and> sources_ok P evs'"
  using assms(4)
proof cases
  case (step_source io now source s)
  from step_source(2) consider "log' = log" | p n r where "can_admit_source source P = RAllowed"
    "project_stream research_domain J io log = Inr p" "next_sequence research_domain p = Inr n"
    "append_stream J (tx_append io 0) log (SourceAdded n now source) = (log', r)"
    unfolding admit_source_def
    by (auto split: ResearchAdmissionDecision.splits sum.splits option.splits prod.splits)
  then show ?thesis
  proof cases
    case (2 p n r)
    have "intact J (tx_append io 0) (SourceAdded n now source)" using step_source(1) by (simp add: clean_io_def)
    from res.publish_inv [OF assms(1,2) 2(2,3) _ this 2(4)] obtain evs' where
      "stream_inv research_domain J log' evs'" "evs' = evs \<or> evs' = evs @ [SourceAdded n now source]"
      by (auto simp: research_domain_def)
    moreover have "sources_ok P evs'" using calculation(2) assms(3) 2(1) by (auto simp: sources_ok_def)
    ultimately show ?thesis by blast
  qed (use assms in blast)
qed

lemma research_reach:
  assumes "codec_ok J" "research_run J P [] log"
  shows "\<exists>evs. stream_inv research_domain J log evs \<and> sources_ok P evs"
  using assms(2)
proof (induction rule: rtranclp_induct)
  case base
  show ?case by (rule exI [of _ "[]"]) (simp add: sources_ok_def)
next
  case (step y z)
  then show ?case using research_step_inv [OF assms(1)] by blast
qed

text \<open>The gate allows a source exactly when each of its conditions holds.\<close>

lemma can_admit_source_iff:
  "can_admit_source source P = RAllowed \<longleftrightarrow>
     rs_kind source \<in> set (permitted_source_kinds P) \<and> \<not> is_blank (rs_title source) \<and> \<not> is_blank (rs_locator source) \<and>
     (require_content_hash P \<longrightarrow> \<not> absent_or_blank (rs_content_hash source)) \<and>
     (require_trace_ref P \<longrightarrow> \<not> absent_or_blank (rs_trace_ref source))"
  by (auto simp: can_admit_source_def research_from_denials_def)

section \<open>A sample ledger\<close>

definition sample_source :: ResearchSource where
  "sample_source =
     \<lparr> rs_id = ''s1'', rs_kind = RsPaper, rs_title = ''A study'', rs_locator = ''doi'', rs_fetched_at = 0,
       rs_content_hash = None, rs_harvested_by = ''agent'', rs_trace_ref = None \<rparr>"

definition sample_research_policy :: ResearchPolicy where
  "sample_research_policy =
     \<lparr> permitted_source_kinds = [RsPaper], require_content_hash = False, require_trace_ref = False \<rparr>"

definition research_table :: "(ResearchEvent \<times> string) list" where
  "research_table = [(SourceAdded 1 0 sample_source, ''{added:1}'')]"

lemma research_codec: "codec_ok (table_json research_table)"
  by (rule table_json_ok)
    (simp_all add: research_table_def table_line_ok_def utf8_error_ascii starts_with_def ends_with_def
      del: utf8_error.simps)

lemma sample_source_allowed: "can_admit_source sample_source sample_research_policy = RAllowed"
proof -
  have "\<not> is_blank ''A study''" "\<not> is_blank ''doi''" by code_simp+
  then show ?thesis by (simp add: can_admit_source_iff sample_source_def sample_research_policy_def)
qed

lemma sample_source_admitted:
  "admit_source (table_json research_table) quiet_io 0 [] sample_source sample_research_policy = (''{added:1}'' @ [nl], RAdmitted 1)"
proof -
  have r: "replay_bytes research_domain (table_json research_table) [] = Inr (es_default research_domain)"
    using replay_holds [OF holds_Nil, of research_domain "table_json research_table"] by (simp add: replay_def)
  have n: "next_sequence research_domain (es_default research_domain) = Inr 1"
    by (simp add: next_sequence_def research_domain_def u64_checked_add_def)
  have v: "to_vec (table_json research_table) (SourceAdded 1 0 sample_source) = Inr ''{added:1}''"
    by (simp add: table_json_def research_table_def)
  show ?thesis by (simp add: admit_source_def sample_source_allowed quiet_project r n quiet_append v)
qed

section \<open>Properties\<close>

text \<open>
  C37. Well-formed source ledgers: on every ledger that admissions under a policy reach, with reads and
  whole writes that may fail, the log replays, the sources are sorted and stored under their own
  identifier, nothing is retired, and each source has a permitted kind, a title, a locator, and the
  content hash and trace reference the policy requires.
\<close>

theorem research_ledger_well_formed:
  assumes "codec_ok J" "research_run J P [] log"
  shows "\<exists>p. replay_bytes research_domain J log = Inr p \<and> bt_sorted (rp_sources p) \<and> rp_superseded p = {} \<and>
    (\<forall>k source. bt_get (rp_sources p) k = Some source \<longrightarrow>
       rs_id source = k \<and> rs_kind source \<in> set (permitted_source_kinds P) \<and>
       \<not> is_blank (rs_title source) \<and> \<not> is_blank (rs_locator source) \<and>
       (require_content_hash P \<longrightarrow> \<not> absent_or_blank (rs_content_hash source)) \<and>
       (require_trace_ref P \<longrightarrow> \<not> absent_or_blank (rs_trace_ref source)))"
proof -
  from research_reach [OF assms] obtain evs where e: "stream_inv research_domain J log evs" "sources_ok P evs" by blast
  have "res_state_of (es_default research_domain) = ([], {})" by (simp add: research_domain_def res_state_of_def)
  with res.replay_stream [OF assms(1) e(1)] obtain p where
    "replay_bytes research_domain J log = Inr p" "res_state_of p = sources_of evs" by (auto simp: sources_of_def)
  then show ?thesis using sources_of_ok [OF e(2)] unfolding can_admit_source_iff
    by (cases "sources_of evs") (auto simp: res_state_of_def)
qed

theorem research_ledger_well_formed_witness:
  "\<exists>p. replay_bytes research_domain (table_json research_table) (''{added:1}'' @ [nl]) = Inr p \<and> bt_sorted (rp_sources p)"
proof -
  have "research_run (table_json research_table) sample_research_policy [] (''{added:1}'' @ [nl])"
    by (rule r_into_rtranclp, rule step_source [OF clean_quiet_io sample_source_admitted])
  from research_ledger_well_formed [OF research_codec this] show ?thesis by blast
qed

end
