(* ===== verification/Ordered_Kahn.thy ===== *)
theory Ordered_Kahn
  imports Ordered_Map
begin

text \<open>
  The loop of Kahn's algorithm over ordered sets, as \<open>src/crates/forge-core-graph/src/lib.rs\<close> runs it, and
  the invariant that the order of workflow graphs and the order of domain packs share.
\<close>

section \<open>The loop\<close>

text \<open>The loop over the children of a node: a missing key or a subtraction below zero is \<open>None\<close>.\<close>

fun relax ::
  "string list \<Rightarrow> string list \<Rightarrow> (string \<Rightarrow> nat) \<times> string list \<Rightarrow> ((string \<Rightarrow> nat) \<times> string list) option" where
  "relax ids [] st = Some st"
| "relax ids (child # children) (indegree, ready) =
     (if child \<notin> set ids \<or> indegree child = 0 then None
      else relax ids children
             (indegree(child := indegree child - 1),
              if indegree child - 1 = 0 then bs_insert child ready else ready))"

lemma relax_measure:
  "relax ids children (indegree, ready) = Some (indegree', ready') \<Longrightarrow>
     sum indegree' (set ids) + length ready' \<le> sum indegree (set ids) + length ready"
proof (induction ids children "(indegree, ready)" arbitrary: indegree ready rule: relax.induct)
  case (2 ids child children indegree ready)
  let ?ind = "indegree(child := indegree child - 1)"
  let ?ready = "if indegree child - 1 = 0 then bs_insert child ready else ready"
  from 2(2) have c: "child \<in> set ids" "0 < indegree child"
    and r: "relax ids children (?ind, ?ready) = Some (indegree', ready')"
    by (auto split: if_splits)
  have "sum ?ind (set ids) = sum ?ind (set ids - {child}) + ?ind child" "sum indegree (set ids) = sum indegree (set ids - {child}) + indegree child"
    using c(1) by (simp_all add: sum.remove [of _ child])
  moreover have "sum ?ind (set ids - {child}) = sum indegree (set ids - {child})" by (rule sum.cong) auto
  ultimately have "Suc (sum ?ind (set ids)) = sum indegree (set ids)" using c(2) by simp
  moreover have "length ?ready \<le> Suc (length ready)" using length_bs_insert [of child ready] by simp
  ultimately show ?case using 2(1) [OF _ r] c by simp
qed simp

function kahn ::
  "string list \<Rightarrow> (string \<Rightarrow> string list) \<Rightarrow> string list \<Rightarrow> (string \<Rightarrow> nat) \<Rightarrow> string list \<Rightarrow> string list option" where
  "kahn ids outgoing order indegree [] = Some order"
| "kahn ids outgoing order indegree (n # ready) =
     (if n \<notin> set ids then None
      else
        (case relax ids (outgoing n) (indegree, ready) of
           None \<Rightarrow> None
         | Some (indegree', ready') \<Rightarrow> kahn ids outgoing (order @ [n]) indegree' ready'))"
  by pat_completeness auto
termination
proof (relation "measure (\<lambda>(ids, outgoing, order, indegree, ready). sum indegree (set ids) + length ready)", goal_cases)
  case (2 ids outgoing order indegree n ready x indegree' ready')
  then show ?case using relax_measure [of ids "outgoing n" indegree ready indegree' ready'] by auto
qed simp

section \<open>The invariant\<close>

text \<open>Each node of the list comes after everything it depends on.\<close>

definition topological :: "(string \<times> string) set \<Rightarrow> string list \<Rightarrow> bool" where
  "topological D order \<longleftrightarrow> (\<forall>i < length order. \<forall>u. (u, order ! i) \<in> D \<longrightarrow> u \<in> set (take i order))"

lemma relax_effect:
  "distinct children \<Longrightarrow> set children \<subseteq> set ids \<Longrightarrow> \<forall>c \<in> set children. 0 < indegree c \<Longrightarrow> sorted ready \<Longrightarrow> distinct ready \<Longrightarrow>
   \<exists>ready'. relax ids children (indegree, ready) = Some (\<lambda>v. if v \<in> set children then indegree v - 1 else indegree v, ready') \<and>
     sorted ready' \<and> distinct ready' \<and> set ready' = set ready \<union> {c \<in> set children. indegree c = 1}"
proof (induction children arbitrary: indegree ready)
  case (Cons c children)
  let ?ind = "indegree(c := indegree c - 1)" and ?ready = "if indegree c - 1 = 0 then bs_insert c ready else ready"
  have "\<forall>d \<in> set children. 0 < ?ind d" "distinct children" "set children \<subseteq> set ids" "sorted ?ready" "distinct ?ready"
    using Cons.prems by auto
  from Cons.IH [OF this(2,3,1,4,5)] obtain ready' where
    r: "relax ids children (?ind, ?ready) = Some (\<lambda>v. if v \<in> set children then ?ind v - 1 else ?ind v, ready')"
    "sorted ready'" "distinct ready'" "set ready' = set ?ready \<union> {d \<in> set children. ?ind d = 1}"
    by blast
  have e: "(\<lambda>v. if v \<in> set children then ?ind v - 1 else ?ind v) = (\<lambda>v. if v \<in> set (c # children) then indegree v - 1 else indegree v)"
    using Cons.prems(1) by (auto simp: fun_eq_iff)
  have "set ready' = set ready \<union> {d \<in> set (c # children). indegree d = 1}"
    using r(4) Cons.prems(1,3) by (auto split: if_splits)
  moreover have "relax ids (c # children) (indegree, ready) = relax ids children (?ind, ?ready)" using Cons.prems(2,3) by simp
  ultimately show ?case using r e by (intro exI [of _ ready']) simp
qed simp

text \<open>
  The invariant of the main loop: the count of a node is the number of its dependencies not yet in the
  order, plus an excess the loop never works off; the ready nodes are those with none left, and the
  order so far is topological and holds no node with an excess.
\<close>

definition kahn_inv ::
  "string list \<Rightarrow> (string \<times> string) set \<Rightarrow> (string \<Rightarrow> nat) \<Rightarrow> string list \<Rightarrow> (string \<Rightarrow> nat) \<Rightarrow> string list \<Rightarrow> bool" where
  "kahn_inv ids D excess order indegree ready \<longleftrightarrow>
     distinct order \<and> set order \<subseteq> set ids \<and> sorted ready \<and> distinct ready \<and>
     set ready = {v \<in> set ids - set order. indegree v = 0} \<and>
     (\<forall>v. indegree v = card ({u. (u, v) \<in> D} - set order) + excess v) \<and>
     (\<forall>v \<in> set order. excess v = 0) \<and> topological D order"

lemma topological_snoc:
  "topological D order \<Longrightarrow> {u. (u, x) \<in> D} \<subseteq> set order \<Longrightarrow> topological D (order @ [x])"
  by (auto simp: topological_def nth_append less_Suc_eq)

lemma kahn_step:
  assumes inv: "kahn_inv ids D excess order indegree (n # ready)" and out: "distinct children" "set children = {v. (n, v) \<in> D}"
    and sub: "D \<subseteq> set ids \<times> set ids"
  shows "\<exists>indegree' ready'. relax ids children (indegree, ready) = Some (indegree', ready') \<and>
    kahn_inv ids D excess (order @ [n]) indegree' ready'"
proof -
  let ?P = "\<lambda>v. {u. (u, v) \<in> D}"
  have fin: "finite (?P v)" for v using sub by (auto intro: finite_subset [of _ "set ids"])
  have n: "n \<in> set ids" "n \<notin> set order" "indegree n = 0" "n \<notin> set ready" and so: "sorted ready" "distinct ready"
    and rd: "insert n (set ready) = {v \<in> set ids - set order. indegree v = 0}"
    and ind: "\<And>v. indegree v = card (?P v - set order) + excess v" and ex: "\<forall>v \<in> set order. excess v = 0" and ord: "distinct order" "set order \<subseteq> set ids" "topological D order"
    using inv by (auto simp: kahn_inv_def)
  have done_n: "?P n \<subseteq> set order" "excess n = 0" using n(3) ind [of n] fin [of n] by simp_all
  have pos: "0 < indegree c" if "c \<in> set children" for c
    using that out(2) n(2) ind [of c] fin [of c] by (auto simp: card_gt_0_iff)
  let ?ind = "\<lambda>v. if v \<in> set children then indegree v - 1 else indegree v"
  from relax_effect [OF out(1) _ _ so, of ids indegree] pos out(2) sub obtain ready' where
    r: "relax ids children (indegree, ready) = Some (?ind, ready')" "sorted ready'" "distinct ready'"
      "set ready' = set ready \<union> {c \<in> set children. indegree c = 1}" by auto
  have ind': "?ind v = card (?P v - set (order @ [n])) + excess v" for v
  proof (cases "(n, v) \<in> D")
    case True
    then have "?P v - set (order @ [n]) = (?P v - set order) - {n}" "n \<in> ?P v - set order" using n(2) by auto
    moreover have "0 < card (?P v - set order)" using calculation(2) fin [of v] by (auto simp: card_gt_0_iff)
    ultimately show ?thesis using True out(2) ind [of v] by (simp add: card_Diff_singleton)
  next
    case False
    then have "?P v - set (order @ [n]) = ?P v - set order" by auto
    then show ?thesis using False out(2) ind [of v] by simp
  qed
  have "set ready' = {v \<in> set ids - set (order @ [n]). ?ind v = 0}"
  proof (rule set_eqI)
    fix v
    have "v \<in> set children \<Longrightarrow> v \<in> set ids \<and> v \<notin> set order \<and> v \<noteq> n"
    proof -
      assume c: "v \<in> set children"
      then have "v \<noteq> n" using pos [of v] n(3) by auto
      moreover have "v \<notin> set order"
      proof
        assume "v \<in> set order"
        then obtain i where "i < length order" "order ! i = v" by (auto simp: in_set_conv_nth)
        then have "n \<in> set (take i order)" using ord(3) c out(2) by (auto simp: topological_def)
        then show False using n(2) by (auto dest: in_set_takeD)
      qed
      ultimately show "v \<in> set ids \<and> v \<notin> set order \<and> v \<noteq> n" using c out(2) sub by auto
    qed
    moreover have "v \<noteq> n \<Longrightarrow> v \<in> set ready \<longleftrightarrow> v \<in> set ids \<and> v \<notin> set order \<and> indegree v = 0" using rd by auto
    moreover note pos [of v]
    ultimately show "v \<in> set ready' \<longleftrightarrow> v \<in> {v \<in> set ids - set (order @ [n]). ?ind v = 0}"
      using n(4) unfolding r(4) by (cases "v = n"; cases "v \<in> set children") auto
  qed
  then have "kahn_inv ids D excess (order @ [n]) ?ind ready'"
    using ord n(1,2) r(2,3) ind' ex done_n(2) topological_snoc [OF ord(3) done_n(1)] by (simp add: kahn_inv_def)
  then show ?thesis using r(1) by blast
qed

lemma kahn_result:
  assumes "D = {(u, v). v \<in> set (outgoing u)}" "\<And>u. distinct (outgoing u)" "D \<subseteq> set ids \<times> set ids"
    "kahn_inv ids D excess order indegree ready"
  shows "\<exists>order' indegree'. kahn ids outgoing order indegree ready = Some order' \<and> kahn_inv ids D excess order' indegree' []"
  using assms
proof (induction ids outgoing order indegree ready rule: kahn.induct)
  case (2 ids outgoing order indegree n ready)
  have "set (outgoing n) = {v. (n, v) \<in> D}" using 2(2) by auto
  from kahn_step [OF 2(5) 2(3) this 2(4)] obtain indegree' ready' where
    r: "relax ids (outgoing n) (indegree, ready) = Some (indegree', ready')" "kahn_inv ids D excess (order @ [n]) indegree' ready'" by blast
  have n: "n \<in> set ids" using 2(5) by (auto simp: kahn_inv_def)
  show ?case using 2(1) [OF _ r(1) refl 2(2-4) r(2)] n r(1) by simp
qed auto

lemma topological_acyclic:
  assumes "topological D order" "distinct order" "D \<subseteq> set order \<times> set order"
  shows "acyclic D"
proof -
  define pos where "pos v = length (takeWhile (\<lambda>w. w \<noteq> v) order)" for v
  have at: "pos (order ! i) = i" if "i < length order" for i
  proof -
    have "takeWhile (\<lambda>w. w \<noteq> order ! i) order = take i order"
      by (rule takeWhile_eq_take_P_nth) (use that assms(2) in \<open>auto simp: nth_eq_iff_index_eq\<close>)
    then show ?thesis using that by (simp add: pos_def)
  qed
  have "D \<subseteq> measure pos"
  proof (clarsimp)
    fix u v assume d: "(u, v) \<in> D"
    then have "v \<in> set order" using assms(3) by blast
    then obtain i where i: "i < length order" "order ! i = v" by (auto simp: in_set_conv_nth)
    then have "u \<in> set (take i order)" using assms(1) d by (auto simp: topological_def)
    then obtain j where "j < i" "order ! j = u" using i(1) by (auto simp: in_set_conv_nth)
    then show "pos u < pos v" using at [of i] at [of j] i by auto
  qed
  then show ?thesis by (meson acyclic_subset wf_acyclic wf_measure)
qed

lemma kahn_stuck:
  assumes inv: "kahn_inv ids D excess order indegree []" and sub: "D \<subseteq> set ids \<times> set ids" and ac: "acyclic D"
    and none: "\<forall>v \<in> set ids. excess v = 0"
  shows "set order = set ids"
proof (rule ccontr)
  let ?R = "set ids - set order"
  assume "set order \<noteq> set ids"
  then obtain x where "x \<in> ?R" using inv by (auto simp: kahn_inv_def)
  moreover have "wf D" using finite_acyclic_wf [OF _ ac] finite_subset [OF sub] by simp
  ultimately obtain v where v: "v \<in> ?R" "\<And>u. (u, v) \<in> D \<Longrightarrow> u \<notin> ?R" by (meson wfE_min)
  then have "{u. (u, v) \<in> D} - set order = {}" using sub by auto
  then have "card ({u. (u, v) \<in> D} - set order) = 0" by (simp only: card.empty)
  moreover have "indegree v = card ({u. (u, v) \<in> D} - set order)" "indegree v \<noteq> 0" using inv v(1) none by (auto simp: kahn_inv_def)
  ultimately show False by simp
qed

end
