(* ===== verification/Workflow_Graph.thy ===== *)
theory Workflow_Graph
  imports Ordered_Kahn Repo_Paths
begin

text \<open>
  Workflow graphs, \<open>src/crates/forge-core-graph/src/lib.rs\<close>: the contract types, the topological
  order (Kahn's algorithm over ordered sets) and the search for unpassed verifiers upstream of a node.

  The lemmas show that the order computed is a topological order of all nodes, that it exists
  exactly when the edges are acyclic, that no map access or subtraction of the algorithm can panic,
  and that the search finds exactly the unpassed verifiers on a path to the node.  Both loops are
  total functions: the first decreases the in-degrees left plus the ready nodes, the second the stack
  plus the incoming edges of the nodes not yet visited.
\<close>

section \<open>Contract types\<close>

datatype GraphNodeKind =
  GnOperation | GnVerifier | GnHumanGate | GnMemoryRead | GnMemoryWriteCandidate | GnProtocolCall | GnEvalProbe

datatype GraphVerifierResult = VrPassed | VrFailed | VrBlocked | VrUnknown

datatype GraphEdgeKind = RequiresSuccess | RequiresCompletion | BlocksUntilPassed

datatype GraphStopCondition =
  ScValidationErrors | ScBudgetExceeded | ScHumanRequired | ScVerifierFailed | ScAuthorityMissing | ScGateBlocked

record GraphBudget =
  budget_id :: "string option"
  budget_node_id :: "string option"
  max_steps :: "u64 option"
  max_tool_calls :: "u64 option"
  max_model_calls :: "u64 option"
  max_duration_ms :: "u64 option"

record GraphNode =
  node_id :: string
  node_kind :: GraphNodeKind
  operation_ref :: "string option"
  mutation_capable :: bool
  verifies :: "string list"
  pass_condition :: "string option"
  verifier_result :: "GraphVerifierResult option"
  node_budget :: "GraphBudget option"
  human_prompt :: "string option"

record GraphEdge =
  edge_from :: string
  edge_to :: string
  edge_kind :: GraphEdgeKind

record GraphAuthorityBoundary =
  source_of_truth :: string
  adapters_may_suggest :: bool
  adapters_may_mutate :: bool
  required_authority_refs :: "string list"

record WorkflowGraph =
  wg_schema_version :: string
  wg_kind :: string
  graph_id :: string
  wg_created_at :: "string option"
  nodes :: "GraphNode list"
  edges :: "GraphEdge list"
  budgets :: "GraphBudget list"
  stop_conditions :: "GraphStopCondition list"
  authority_boundary :: GraphAuthorityBoundary

section \<open>Topological order\<close>

definition graph_node_ids :: "WorkflowGraph \<Rightarrow> string list" where
  "graph_node_ids g = bs_of (map node_id (nodes g))"

text \<open>
  The maps \<open>outgoing\<close> and \<open>indegree\<close> have the node ids as keys; they are functions here, and an
  access at another key, where the code panics, is the result \<open>None\<close>.
\<close>

fun add_edges ::
  "string list \<Rightarrow> GraphEdge list \<Rightarrow> (string \<Rightarrow> string list) \<times> (string \<Rightarrow> nat) \<Rightarrow> (string \<Rightarrow> string list) \<times> (string \<Rightarrow> nat)" where
  "add_edges ids [] maps = maps"
| "add_edges ids (e # es) (outgoing, indegree) =
     (if edge_from e \<notin> set ids \<or> edge_to e \<notin> set ids then add_edges ids es (outgoing, indegree)
      else if edge_to e \<in> set (outgoing (edge_from e)) then add_edges ids es (outgoing, indegree)
      else add_edges ids es
             (outgoing(edge_from e := bs_insert (edge_to e) (outgoing (edge_from e))),
              indegree(edge_to e := indegree (edge_to e) + 1)))"

definition topological_run :: "WorkflowGraph \<Rightarrow> string list option" where
  "topological_run g =
     (let ids = graph_node_ids g;
          (outgoing, indegree) = add_edges ids (edges g) (\<lambda>_. [], \<lambda>_. 0)
      in kahn ids outgoing [] indegree (filter (\<lambda>n. indegree n = 0) ids))"

definition topological_order_if_acyclic :: "WorkflowGraph \<Rightarrow> string list option" where
  "topological_order_if_acyclic g =
     (case topological_run g of
        None \<Rightarrow> None
      | Some order \<Rightarrow> if length order = length (graph_node_ids g) then Some order else None)"

definition topological_order :: "WorkflowGraph \<Rightarrow> string list" where
  "topological_order g = (case topological_order_if_acyclic g of Some order \<Rightarrow> order | None \<Rightarrow> [])"

section \<open>Unpassed verifiers upstream\<close>

text \<open>\<open>collect\<close> into a map: the last node with an id wins.\<close>

definition nodes_by_id :: "WorkflowGraph \<Rightarrow> GraphNode btree_map" where
  "nodes_by_id g = fold (\<lambda>n. bt_insert (node_id n) n) (nodes g) []"

definition incoming_edges_by_target :: "WorkflowGraph \<Rightarrow> string list btree_map" where
  "incoming_edges_by_target g =
     bt_map (\<lambda>sources. remdups_adj (sort sources))
       (fold (\<lambda>e m. bt_insert (edge_to e) ((case bt_get m (edge_to e) of None \<Rightarrow> [] | Some ss \<Rightarrow> ss) @ [edge_from e]) m)
          (edges g) [])"

definition unpassed_verifier :: "GraphNode \<Rightarrow> bool" where
  "unpassed_verifier n \<longleftrightarrow> node_kind n = GnVerifier \<and> verifier_result n \<noteq> Some VrPassed"

text \<open>The stack has its top first; a node's parents are pushed in descending order.\<close>

definition unvisited_weight :: "string list btree_map \<Rightarrow> string list \<Rightarrow> nat" where
  "unvisited_weight incoming visited = sum_list (map (\<lambda>(k, ps). if k \<in> set visited then 0 else length ps) incoming)"

lemma unvisited_weight_visit:
  assumes "n \<notin> set visited"
  shows "unvisited_weight incoming (bs_insert n visited) + (case bt_get incoming n of None \<Rightarrow> 0 | Some ps \<Rightarrow> length ps)
    \<le> unvisited_weight incoming visited"
proof (induction incoming)
  case (Cons kp incoming)
  obtain k ps where kp: "kp = (k, ps)" by (cases kp)
  have mono: "unvisited_weight xs (bs_insert n visited) \<le> unvisited_weight xs visited" for xs
    by (induction xs) (auto simp: unvisited_weight_def bs_insert_def set_insort_key)
  show ?case using Cons mono [of incoming] assms
    by (auto simp: kp unvisited_weight_def bs_insert_def set_insort_key bt_get_def)
qed (simp add: unvisited_weight_def)

function search_upstream ::
  "GraphNode btree_map \<Rightarrow> string list btree_map \<Rightarrow> string list \<Rightarrow> string list \<Rightarrow> string list \<Rightarrow> string list" where
  "search_upstream by_id incoming blockers visited [] = blockers"
| "search_upstream by_id incoming blockers visited (n # stack) =
     (if n \<in> set visited then search_upstream by_id incoming blockers visited stack
      else
        search_upstream by_id incoming
          (case bt_get by_id n of
             Some node \<Rightarrow> if unpassed_verifier node then bs_insert (node_id node) blockers else blockers
           | None \<Rightarrow> blockers)
          (bs_insert n visited)
          ((case bt_get incoming n of Some parents \<Rightarrow> parents | None \<Rightarrow> []) @ stack))"
  by pat_completeness auto
termination
proof (relation "measure (\<lambda>(by_id, incoming, blockers, visited, stack). length stack + unvisited_weight incoming visited)", goal_cases)
  case (3 by_id incoming blockers visited n stack)
  then show ?case using unvisited_weight_visit [of n visited incoming] by (auto split: option.splits)
qed simp_all

definition unpassed_upstream_verifiers :: "WorkflowGraph \<Rightarrow> string \<Rightarrow> string list" where
  "unpassed_upstream_verifiers g target =
     search_upstream (nodes_by_id g) (incoming_edges_by_target g) [] []
       (case bt_get (incoming_edges_by_target g) target of Some sources \<Rightarrow> sources | None \<Rightarrow> [])"

section \<open>The topological order is correct\<close>

text \<open>The edges between nodes of the graph, and all edges.\<close>

definition dependencies :: "string list \<Rightarrow> GraphEdge list \<Rightarrow> (string \<times> string) set" where
  "dependencies ids es = {(edge_from e, edge_to e) |e. e \<in> set es \<and> edge_from e \<in> set ids \<and> edge_to e \<in> set ids}"

definition graph_edges :: "WorkflowGraph \<Rightarrow> (string \<times> string) set" where
  "graph_edges g = {(edge_from e, edge_to e) |e. e \<in> set (edges g)}"

definition maps_inv :: "string list \<Rightarrow> (string \<times> string) set \<Rightarrow> (string \<Rightarrow> string list) \<Rightarrow> (string \<Rightarrow> nat) \<Rightarrow> bool" where
  "maps_inv ids D outgoing indegree \<longleftrightarrow>
     (\<forall>u. distinct (outgoing u)) \<and> D = {(u, v). v \<in> set (outgoing u)} \<and> D \<subseteq> set ids \<times> set ids \<and>
     (\<forall>v. indegree v = card {u. (u, v) \<in> D})"

lemma maps_inv_edge:
  assumes "maps_inv ids D outgoing indegree" "a \<in> set ids" "b \<in> set ids" "b \<notin> set (outgoing a)"
  shows "maps_inv ids (insert (a, b) D) (outgoing(a := bs_insert b (outgoing a))) (indegree(b := indegree b + 1))"
proof -
  have D: "D = {(u, v). v \<in> set (outgoing u)}" and sub: "D \<subseteq> set ids \<times> set ids"
    and ind: "\<And>v. indegree v = card {u. (u, v) \<in> D}" using assms(1) unfolding maps_inv_def by blast+
  have "finite {u. (u, b) \<in> D}" using sub by (auto intro: finite_subset [of _ "set ids"])
  moreover have "a \<notin> {u. (u, b) \<in> D}" using assms(4) D by auto
  moreover have "{u. (u, b) \<in> insert (a, b) D} = insert a {u. (u, b) \<in> D}" by auto
  ultimately have "card {u. (u, b) \<in> insert (a, b) D} = Suc (indegree b)" using ind [of b] by simp
  moreover have "v \<noteq> b \<Longrightarrow> {u. (u, v) \<in> insert (a, b) D} = {u. (u, v) \<in> D}" for v by auto
  ultimately have "(indegree(b := indegree b + 1)) v = card {u. (u, v) \<in> insert (a, b) D}" for v
    using ind [of v] by (cases "v = b") simp_all
  moreover have "insert (a, b) D = {(u, v). v \<in> set ((outgoing(a := bs_insert b (outgoing a))) u)}"
    using D by (auto split: if_splits)
  moreover have "insert (a, b) D \<subseteq> set ids \<times> set ids" using sub assms(2,3) by blast
  moreover have "\<forall>u. distinct ((outgoing(a := bs_insert b (outgoing a))) u)" using assms(1) by (simp add: maps_inv_def)
  ultimately show ?thesis unfolding maps_inv_def by blast
qed

lemma add_edges_inv:
  "maps_inv ids D outgoing indegree \<Longrightarrow> add_edges ids es (outgoing, indegree) = (outgoing', indegree') \<Longrightarrow>
     maps_inv ids (D \<union> dependencies ids es) outgoing' indegree'"
proof (induction es arbitrary: D outgoing indegree)
  case Nil
  then show ?case by (simp add: dependencies_def)
next
  case (Cons e es)
  have dep: "dependencies ids (e # es) =
    (if edge_from e \<in> set ids \<and> edge_to e \<in> set ids then {(edge_from e, edge_to e)} else {}) \<union> dependencies ids es"
    by (auto simp: dependencies_def)
  have D: "D = {(u, v). v \<in> set (outgoing u)}" using Cons.prems(1) unfolding maps_inv_def by blast
  consider (skip) "\<not> (edge_from e \<in> set ids \<and> edge_to e \<in> set ids)"
    | (dup) "edge_from e \<in> set ids" "edge_to e \<in> set ids" "edge_to e \<in> set (outgoing (edge_from e))"
    | (add) "edge_from e \<in> set ids" "edge_to e \<in> set ids" "edge_to e \<notin> set (outgoing (edge_from e))" by blast
  then show ?case
  proof cases
    case skip
    then show ?thesis using Cons.IH [OF Cons.prems(1)] Cons.prems(2) unfolding dep by auto
  next
    case dup
    then have "D \<union> dependencies ids (e # es) = D \<union> dependencies ids es" using D unfolding dep by auto
    then show ?thesis using dup Cons.IH [OF Cons.prems(1)] Cons.prems(2) by auto
  next
    case add
    have eq: "D \<union> dependencies ids (e # es) = insert (edge_from e, edge_to e) D \<union> dependencies ids es"
      using add unfolding dep by auto
    have "add_edges ids es
        (outgoing(edge_from e := bs_insert (edge_to e) (outgoing (edge_from e))), indegree(edge_to e := indegree (edge_to e) + 1)) =
      (outgoing', indegree')"
      using add Cons.prems(2) by (simp split: if_splits)
    then show ?thesis unfolding eq by (rule Cons.IH [OF maps_inv_edge [OF Cons.prems(1) add]])
  qed
qed

lemma topological_run_inv:
  "\<exists>order indegree. topological_run g = Some order \<and>
     kahn_inv (graph_node_ids g) (dependencies (graph_node_ids g) (edges g)) (\<lambda>_. 0) order indegree []"
proof -
  let ?ids = "graph_node_ids g" and ?D = "dependencies (graph_node_ids g) (edges g)"
  obtain outgoing indegree where m: "add_edges ?ids (edges g) (\<lambda>_. [], \<lambda>_. 0) = (outgoing, indegree)" by fastforce
  have "maps_inv ?ids {} (\<lambda>_. []) (\<lambda>_. 0)" by (simp add: maps_inv_def)
  from add_edges_inv [OF this m] have mi: "maps_inv ?ids ?D outgoing indegree" by simp
  then have D: "?D = {(u, v). v \<in> set (outgoing u)}" "\<And>u. distinct (outgoing u)" "?D \<subseteq> set ?ids \<times> set ?ids"
    and ind: "\<And>v. indegree v = card {u. (u, v) \<in> ?D}" unfolding maps_inv_def by blast+
  have "kahn_inv ?ids ?D (\<lambda>_. 0) [] indegree (filter (\<lambda>n. indegree n = 0) ?ids)"
    using ind by (auto simp: kahn_inv_def topological_def graph_node_ids_def sorted_wrt_filter)
  from kahn_result [OF D this] show ?thesis by (simp add: topological_run_def Let_def m)
qed

lemma topological_order_cases:
  "case topological_order_if_acyclic g of
     Some order \<Rightarrow>
       distinct order \<and> set order = node_id ` set (nodes g) \<and>
       topological (dependencies (graph_node_ids g) (edges g)) order \<and> acyclic (dependencies (graph_node_ids g) (edges g))
   | None \<Rightarrow> \<not> acyclic (dependencies (graph_node_ids g) (edges g))"
proof -
  let ?ids = "graph_node_ids g" and ?D = "dependencies (graph_node_ids g) (edges g)"
  obtain order indegree where r: "topological_run g = Some order" and inv: "kahn_inv ?ids ?D (\<lambda>_. 0) order indegree []"
    using topological_run_inv by blast
  have sub: "?D \<subseteq> set ?ids \<times> set ?ids" by (auto simp: dependencies_def)
  have o: "distinct order" "set order \<subseteq> set ?ids" "topological ?D order" using inv by (auto simp: kahn_inv_def)
  have "length order = length ?ids \<longleftrightarrow> set order = set ?ids"
    using o(1,2) by (metis bs_of_set(3) card_subset_eq distinct_card finite_set graph_node_ids_def)
  moreover have "set ?ids = node_id ` set (nodes g)" by (simp add: graph_node_ids_def)
  moreover have "set order = set ?ids \<Longrightarrow> acyclic ?D" using topological_acyclic [OF o(3,1)] sub by simp
  moreover have "acyclic ?D \<Longrightarrow> set order = set ?ids" using kahn_stuck [OF inv sub] by simp
  ultimately show ?thesis using o r by (auto simp: topological_order_if_acyclic_def)
qed

text \<open>
  C13. Topological order: the computation of the order never panics; it answers a list with every node
  exactly once in which each node follows everything it depends on, or it answers none, and then the
  edges between the nodes have a cycle.
\<close>

theorem topological_order_correct:
  "topological_run g \<noteq> None \<and>
   (case topological_order_if_acyclic g of
      Some order \<Rightarrow>
        distinct order \<and> set order = node_id ` set (nodes g) \<and>
        topological (dependencies (graph_node_ids g) (edges g)) order \<and> acyclic (dependencies (graph_node_ids g) (edges g))
    | None \<Rightarrow> \<not> acyclic (dependencies (graph_node_ids g) (edges g)))"
  using topological_order_cases [of g] topological_run_inv [of g] by (auto split: option.splits)

section \<open>The upstream search is exact\<close>

definition parents_of :: "string list btree_map \<Rightarrow> string \<Rightarrow> string list" where
  "parents_of incoming n = (case bt_get incoming n of Some parents \<Rightarrow> parents | None \<Rightarrow> [])"

definition upstream :: "(string \<times> string) set \<Rightarrow> string set \<Rightarrow> string set" where
  "upstream E S = {u. \<exists>v \<in> S. (u, v) \<in> E\<^sup>*}"

lemma upstream_closed: "{u. \<exists>v \<in> S. (u, v) \<in> E} \<subseteq> S \<Longrightarrow> upstream E S = S"
proof -
  assume c: "{u. \<exists>v \<in> S. (u, v) \<in> E} \<subseteq> S"
  have "(u, v) \<in> E\<^sup>* \<Longrightarrow> v \<in> S \<Longrightarrow> u \<in> S" for u v
    by (induction rule: converse_rtrancl_induct) (use c in auto)
  then show ?thesis by (auto simp: upstream_def)
qed

lemma upstream_parents: "upstream E (insert n S) = upstream E (insert n ({u. (u, n) \<in> E} \<union> S))"
  by (auto simp: upstream_def intro: rtrancl_into_rtrancl)

definition unpassed_ids :: "GraphNode btree_map \<Rightarrow> string set" where
  "unpassed_ids by_id = {n. \<exists>node. bt_get by_id n = Some node \<and> unpassed_verifier node}"

lemma search_upstream_set:
  assumes "\<And>n node. bt_get by_id n = Some node \<Longrightarrow> node_id node = n"
    "\<And>n. set (parents_of incoming n) = {u. (u, n) \<in> E}"
    "{u. \<exists>v \<in> set visited. (u, v) \<in> E} \<subseteq> set visited \<union> set stack"
  shows "set (search_upstream by_id incoming blockers visited stack) =
    set blockers \<union> ((upstream E (set visited \<union> set stack) - set visited) \<inter> unpassed_ids by_id)"
  using assms
proof (induction by_id incoming blockers visited stack rule: search_upstream.induct)
  case (1 by_id incoming blockers visited)
  then show ?case using upstream_closed [of "set visited" E] by auto
next
  case (2 by_id incoming blockers visited n stack)
  show ?case
  proof (cases "n \<in> set visited")
    case True
    then show ?thesis using 2(1) [OF True 2(3,4)] 2(5) by (auto simp: insert_absorb)
  next
    case False
    let ?st = "parents_of incoming n @ stack" and ?vis = "bs_insert n visited"
    let ?bl = "case bt_get by_id n of Some node \<Rightarrow> if unpassed_verifier node then bs_insert (node_id node) blockers else blockers
           | None \<Rightarrow> blockers"
    have "set (search_upstream by_id incoming ?bl ?vis ?st) =
      set ?bl \<union> ((upstream E (set ?vis \<union> set ?st) - set ?vis) \<inter> unpassed_ids by_id)"
      using 2(2) [OF False 2(3,4)] 2(5) 2(4) [of n] unfolding parents_of_def [symmetric] by auto
    moreover have "upstream E (set ?vis \<union> set ?st) = upstream E (set visited \<union> set (n # stack))"
      using upstream_parents [of E n "set visited \<union> set stack"] 2(4) [of n] by (simp add: Un_ac)
    moreover have "set ?bl = set blockers \<union> ({n} \<inter> unpassed_ids by_id)"
      using 2(3) [of n] by (auto simp: unpassed_ids_def split: option.splits)
    moreover have "n \<in> upstream E (set visited \<union> set (n # stack))" by (auto simp: upstream_def)
    moreover have "search_upstream by_id incoming blockers visited (n # stack) = search_upstream by_id incoming ?bl ?vis ?st"
      using False by (simp add: parents_of_def)
    ultimately show ?thesis using False by auto
  qed
qed

lemma search_upstream_sorted:
  "sorted blockers \<Longrightarrow> distinct blockers \<Longrightarrow>
     sorted (search_upstream by_id incoming blockers visited stack) \<and> distinct (search_upstream by_id incoming blockers visited stack)"
  by (induction by_id incoming blockers visited stack rule: search_upstream.induct) (simp_all split: option.splits)

lemma nodes_by_id_fold:
  "bt_get (fold (\<lambda>n. bt_insert (node_id n) n) ns m) k = Some node \<Longrightarrow>
     bt_get m k = Some node \<or> node \<in> set ns \<and> node_id node = k"
  by (induction ns arbitrary: m) (fastforce simp: bt_get_insert split: if_splits)+

lemma nodes_by_id_get: "bt_get (nodes_by_id g) k = Some node \<Longrightarrow> node \<in> set (nodes g) \<and> node_id node = k"
  using nodes_by_id_fold [of "nodes g" "[]" k node] by (simp add: nodes_by_id_def bt_get_def)

lemma nodes_by_id_keep:
  "node_id node \<notin> node_id ` set ns \<Longrightarrow> bt_get (fold (\<lambda>n. bt_insert (node_id n) n) ns m) (node_id node) = bt_get m (node_id node)"
  by (induction ns arbitrary: m) (auto simp: bt_get_insert)

lemma nodes_by_id_distinct:
  assumes "distinct (map node_id (nodes g))" "node \<in> set (nodes g)"
  shows "bt_get (nodes_by_id g) (node_id node) = Some node"
proof -
  obtain xs ys where n: "nodes g = xs @ node # ys" using assms(2) by (meson split_list)
  then have "node_id node \<notin> node_id ` set ys" using assms(1) by simp
  then show ?thesis by (simp add: nodes_by_id_def n nodes_by_id_keep bt_get_insert)
qed

lemma incoming_fold:
  "set (parents_of (fold (\<lambda>e m. bt_insert (edge_to e) ((case bt_get m (edge_to e) of None \<Rightarrow> [] | Some ss \<Rightarrow> ss) @ [edge_from e]) m) es m) n) =
     set (parents_of m n) \<union> {edge_from e |e. e \<in> set es \<and> edge_to e = n}"
  by (induction es arbitrary: m) (auto simp: parents_of_def bt_get_insert split: option.splits if_splits)

lemma incoming_parents: "set (parents_of (incoming_edges_by_target g) n) = {u. (u, n) \<in> graph_edges g}"
proof -
  let ?m = "fold (\<lambda>e m. bt_insert (edge_to e) ((case bt_get m (edge_to e) of None \<Rightarrow> [] | Some ss \<Rightarrow> ss) @ [edge_from e]) m) (edges g) []"
  have "set (parents_of (bt_map (\<lambda>ss. remdups_adj (sort ss)) ?m) n) = set (parents_of ?m n)"
    by (simp add: parents_of_def bt_get_map split: option.splits)
  moreover have "set (parents_of [] n) = {}" by (simp add: parents_of_def bt_get_def)
  ultimately show ?thesis using incoming_fold [of "edges g" "[]" n]
    by (auto simp: incoming_edges_by_target_def graph_edges_def)
qed

lemma unpassed_upstream_set:
  "set (unpassed_upstream_verifiers g target) = {n. (n, target) \<in> (graph_edges g)\<^sup>+} \<inter> unpassed_ids (nodes_by_id g)"
proof -
  have "upstream (graph_edges g) {u. (u, target) \<in> graph_edges g} = {n. (n, target) \<in> (graph_edges g)\<^sup>+}"
    by (auto simp: upstream_def intro: rtrancl_into_trancl1 dest: tranclD2)
  then show ?thesis
    using search_upstream_set [of "nodes_by_id g" "incoming_edges_by_target g" "graph_edges g" "[]" "parents_of (incoming_edges_by_target g) target" "[]"]
      nodes_by_id_get incoming_parents
    by (auto simp: unpassed_upstream_verifiers_def parents_of_def)
qed

end
