(* ===== verification/Diagnostics.thy ===== *)
theory Diagnostics
  imports Forge_Prelude
begin

text \<open>
  The diagnostics of \<open>src/crates/forge-core-validate/src/lib.rs\<close> that the validators of workflow graphs
  and assurance cases produce: of the code type the variants these two use.  A report is the list of
  its diagnostics; the lemmas say which lists have errors.
\<close>

datatype ValidationSeverity = SevError | SevWarning

datatype DiagnosticCode =
  AssuranceUnsupportedSchemaVersion | AssuranceRequiredCollectionEmpty | AssuranceEmptyEntityId | AssuranceDuplicateEntityId
  | AssuranceDanglingClaimRef | AssuranceClaimEvidenceMissing | AssuranceWaiverInconsistent
  | AssuranceSatisfiedObligationUnsupported | AssuranceDecisionRecommendationInvalid | AssuranceCapabilityGapResolutionEmpty
  | AssuranceNextActionRankInvalid | AssuranceReadinessInconsistent
  | GraphEmptyGraphId | GraphUnsupportedSchemaVersion | GraphInvalidGraphKind | GraphEmptyGraph | GraphEmptyNodeId
  | GraphDuplicateNodeId | GraphEmptyEdgeEndpoint | GraphMissingEdgeEndpoint | GraphCycleDetected | GraphEmptyOperationRef
  | GraphMissingOperationContract | GraphInvalidOperationContract | GraphDuplicateOperationEvaluation
  | GraphOperationNotReady | GraphOperationMutationDeclarationMismatch | GraphClaimPreflightBlocked
  | GraphDanglingVerifiesRef | GraphDanglingBudgetNodeRef | GraphEdgeKindSourceKindMismatch

record Diagnostic =
  gd_severity :: ValidationSeverity
  gd_code :: DiagnosticCode
  gd_path :: string
  gd_message :: string

definition diag_error :: "DiagnosticCode \<Rightarrow> string \<Rightarrow> string \<Rightarrow> Diagnostic" where
  "diag_error code path message = \<lparr>gd_severity = SevError, gd_code = code, gd_path = path, gd_message = message\<rparr>"

definition diag_warning :: "DiagnosticCode \<Rightarrow> string \<Rightarrow> string \<Rightarrow> Diagnostic" where
  "diag_warning code path message = \<lparr>gd_severity = SevWarning, gd_code = code, gd_path = path, gd_message = message\<rparr>"

definition has_errors :: "Diagnostic list \<Rightarrow> bool" where
  "has_errors ds \<longleftrightarrow> list_ex (\<lambda>d. gd_severity d = SevError) ds"

named_theorems errors_of

lemma has_errors_simps [errors_of]:
  "\<not> has_errors []" "has_errors (ds @ ds') \<longleftrightarrow> has_errors ds \<or> has_errors ds'"
  "has_errors (diag_error c p m # ds)" "has_errors (diag_warning c p m # ds) \<longleftrightarrow> has_errors ds"
  by (auto simp: has_errors_def diag_error_def diag_warning_def)

lemma has_errors_if [errors_of]:
  "has_errors (if b then [diag_error c p m] else []) \<longleftrightarrow> b" "\<not> has_errors (if b then [diag_warning c p m] else [])"
  by (auto simp: errors_of)

lemma has_errors_enumerate:
  assumes "\<And>i x. has_errors (f (i, x)) \<longleftrightarrow> P x"
  shows "has_errors (concat (map f (List.enumerate n xs))) \<longleftrightarrow> (\<exists>x \<in> set xs. P x)"
  by (induction xs arbitrary: n) (auto simp: errors_of assms)

lemma has_errors_concat: "has_errors (concat (map f xs)) \<longleftrightarrow> (\<exists>x \<in> set xs. has_errors (f x))"
  by (induction xs) (auto simp: errors_of)

end
