(* ===== verification/Graph_Dry_Run.thy ===== *)
theory Graph_Dry_Run
  imports Workflow_Graph Diagnostics
begin

text \<open>
  Validation and dry run of workflow graphs, \<open>src/crates/forge-core-graph/src/lib.rs\<close>, with the
  diagnostics they produce.  The evaluation of the
  operation contracts is an input of the dry run, as in the code.

  The lemmas characterise the errors of each validation pass and the condition under which a step is
  blocked; the theorem says exactly when a graph is invalid and when it is planned, and that the
  steps follow the dependencies.
\<close>

record GraphValidationReport =
  gvr_graph_id :: string
  gvr_diagnostics :: "Diagnostic list"

section \<open>Validation\<close>

definition WORKFLOW_GRAPH_SCHEMA_VERSION :: string where
  "WORKFLOW_GRAPH_SCHEMA_VERSION = ''0.1''"

definition WORKFLOW_GRAPH_KIND :: string where
  "WORKFLOW_GRAPH_KIND = ''workflow_graph''"

definition validate_graph_identity :: "WorkflowGraph \<Rightarrow> Diagnostic list" where
  "validate_graph_identity g =
     (if is_blank (graph_id g) then [diag_error GraphEmptyGraphId ''graph_id'' ''graph_id must not be empty''] else []) @
     (if wg_schema_version g \<noteq> WORKFLOW_GRAPH_SCHEMA_VERSION then
        [diag_error GraphUnsupportedSchemaVersion ''schema_version''
           (''workflow graph schema_version must be '' @ WORKFLOW_GRAPH_SCHEMA_VERSION)]
      else []) @
     (if wg_kind g \<noteq> WORKFLOW_GRAPH_KIND then
        [diag_error GraphInvalidGraphKind ''kind'' (''workflow graph kind must be '' @ WORKFLOW_GRAPH_KIND)]
      else [])"

fun validate_nodes_from :: "nat \<Rightarrow> string list \<Rightarrow> GraphNode list \<Rightarrow> Diagnostic list" where
  "validate_nodes_from index seen [] = []"
| "validate_nodes_from index seen (node # ns) =
     (let node_path = ''nodes.'' @ show_nat index @ ''.node_id'' in
      (if is_blank (node_id node) then [diag_error GraphEmptyNodeId node_path ''node_id must not be empty''] else []) @
      (if node_id node \<in> set seen then
         [diag_error GraphDuplicateNodeId node_path (''node_id '' @ node_id node @ '' must be unique'')]
       else []) @
      (if node_kind node = GnOperation \<and> (case operation_ref node of None \<Rightarrow> True | Some r \<Rightarrow> is_blank r) then
         [diag_error GraphEmptyOperationRef (''nodes.'' @ show_nat index @ ''.operation_ref'')
            ''operation nodes require non-empty operation_ref'']
       else []) @
      validate_nodes_from (index + 1) (node_id node # seen) ns)"

definition validate_nodes :: "WorkflowGraph \<Rightarrow> Diagnostic list" where
  "validate_nodes g =
     (if nodes g = [] then [diag_error GraphEmptyGraph ''nodes'' ''workflow graph must contain at least one node''] else []) @
     validate_nodes_from 0 [] (nodes g)"

definition validate_endpoint :: "string list \<Rightarrow> string \<Rightarrow> string \<Rightarrow> string \<Rightarrow> Diagnostic list" where
  "validate_endpoint ids path name endpoint =
     (if is_blank endpoint then
        [diag_error GraphEmptyEdgeEndpoint path (''edge '' @ name @ '' endpoint must not be empty'')]
      else if endpoint \<notin> set ids then
        [diag_error GraphMissingEdgeEndpoint path (''edge '' @ name @ '' endpoint '' @ endpoint @ '' does not reference a node'')]
      else [])"

definition validate_edges :: "WorkflowGraph \<Rightarrow> Diagnostic list" where
  "validate_edges g =
     (let ids = map node_id (nodes g) in
      concat (map (\<lambda>(index, edge).
        validate_endpoint ids (''edges.'' @ show_nat index @ ''.from'') ''from'' (edge_from edge) @
        validate_endpoint ids (''edges.'' @ show_nat index @ ''.to'') ''to'' (edge_to edge)) (List.enumerate 0 (edges g))))"

definition validate_cycles :: "WorkflowGraph \<Rightarrow> Diagnostic list" where
  "validate_cycles g =
     (if nodes g = [] then []
      else if topological_order_if_acyclic g = None then
        [diag_error GraphCycleDetected ''edges'' ''workflow graph edges must be acyclic'']
      else [])"

fun graph_node_kind_name :: "GraphNodeKind \<Rightarrow> string" where
  "graph_node_kind_name GnOperation = ''operation''"
| "graph_node_kind_name GnVerifier = ''verifier''"
| "graph_node_kind_name GnHumanGate = ''human_gate''"
| "graph_node_kind_name GnMemoryRead = ''memory_read''"
| "graph_node_kind_name GnMemoryWriteCandidate = ''memory_write_candidate''"
| "graph_node_kind_name GnProtocolCall = ''protocol_call''"
| "graph_node_kind_name GnEvalProbe = ''eval_probe''"

definition validate_verifies :: "string list \<Rightarrow> nat \<times> GraphNode \<Rightarrow> Diagnostic list" where
  "validate_verifies ids = (\<lambda>(index, node).
     concat (map (\<lambda>(slot, verified).
       if is_blank verified then []
       else if verified \<notin> set ids then
         [diag_error GraphDanglingVerifiesRef (''nodes.'' @ show_nat index @ ''.verifies.'' @ show_nat slot)
            (''verifies entry '' @ verified @ '' does not reference a node'')]
       else []) (List.enumerate 0 (verifies node))))"

definition validate_budget_ref :: "string list \<Rightarrow> nat \<times> GraphBudget \<Rightarrow> Diagnostic list" where
  "validate_budget_ref ids = (\<lambda>(index, budget).
     (case budget_node_id budget of
        None \<Rightarrow> []
      | Some node_ref \<Rightarrow>
          if is_blank node_ref then []
          else if node_ref \<notin> set ids then
            [diag_error GraphDanglingBudgetNodeRef (''budgets.'' @ show_nat index @ ''.node_id'')
               (''budget node_id '' @ node_ref @ '' does not reference a node'')]
          else []))"

definition validate_edge_source :: "GraphNode btree_map \<Rightarrow> nat \<times> GraphEdge \<Rightarrow> Diagnostic list" where
  "validate_edge_source by_id = (\<lambda>(index, edge).
     if edge_kind edge \<noteq> BlocksUntilPassed then []
     else
       (case bt_get by_id (edge_from edge) of
          None \<Rightarrow> []
        | Some source \<Rightarrow>
            if node_kind source \<noteq> GnVerifier then
              [diag_warning GraphEdgeKindSourceKindMismatch (''edges.'' @ show_nat index @ ''.edge_kind'')
                 (''blocks_until_passed edge originates from '' @ graph_node_kind_name (node_kind source) @ '' node '' @ edge_from edge @
                  ''; only verifier nodes carry a verifier_result, so the edge will be treated as a generic upstream dependency'')]
            else []))"

definition validate_node_references :: "WorkflowGraph \<Rightarrow> Diagnostic list" where
  "validate_node_references g =
     (let ids = map node_id (nodes g) in
      concat (map (validate_verifies ids) (List.enumerate 0 (nodes g))) @
      concat (map (validate_budget_ref ids) (List.enumerate 0 (budgets g))) @
      concat (map (validate_edge_source (nodes_by_id g)) (List.enumerate 0 (edges g))))"

definition validate_graph :: "WorkflowGraph \<Rightarrow> GraphValidationReport" where
  "validate_graph g =
     \<lparr>gvr_graph_id = graph_id g,
      gvr_diagnostics =
        validate_graph_identity g @ validate_nodes g @ validate_edges g @ validate_cycles g @ validate_node_references g\<rparr>"

section \<open>Dry run\<close>

datatype GraphOperationStatus = OsReady | OsSafeReadOnly | OsNotReady | OsMissing | OsInvalid

datatype GraphMutationSource = GraphDeclaration | OperationContractSource

datatype GraphDryRunStatus = DrPlanned | DrBlocked | DrInvalid

datatype GraphDryRunStepStatus = StepPlanned | StepBlocked

datatype GraphDryRunReason =
  TopologicalOrder | BlockedByVerifier | OperationContractMissing | OperationContractInvalid | OperationNotReady | ClaimPreflightBlocked

datatype GraphClaimPreflightStatus = PreflightPassed | PreflightBlocked

record GraphClaimPreflightBlock =
  gpb_blocked_path :: string
  gpb_blocking_claim_id :: string
  gpb_claimant :: string
  gpb_conflict_code :: string

record GraphClaimPreflightEvaluation =
  gcp_status :: GraphClaimPreflightStatus
  gcp_agent_id :: "string option"
  gcp_targets :: "string list"
  gcp_governed_by_self :: "string list"
  gcp_ungoverned :: "string list"
  gcp_blocks :: "GraphClaimPreflightBlock list"
  gcp_reasons :: "string list"

record GraphOperationEvaluation =
  oe_operation_ref :: string
  oe_contract_id :: "string option"
  oe_mutation_capable :: bool
  oe_runtime_ready :: bool
  oe_plan_allowed :: bool
  oe_status :: GraphOperationStatus
  oe_preview_status :: "string option"
  oe_ready_status :: "string option"
  oe_blocking_reasons :: "string list"
  oe_claim_preflight :: "GraphClaimPreflightEvaluation option"
  oe_touched_refs :: "string list"

record GraphDryRunContext =
  operation_evaluations :: "GraphOperationEvaluation list"
  require_operation_contracts :: bool

record GraphDryRunStep =
  st_step_index :: nat
  st_node_id :: string
  st_node_kind :: GraphNodeKind
  st_operation_ref :: "string option"
  st_declared_mutation_capable :: bool
  st_mutation_capable :: bool
  st_mutation_source :: GraphMutationSource
  st_operation_contract_id :: "string option"
  st_operation_status :: "GraphOperationStatus option"
  st_operation_preview_status :: "string option"
  st_operation_ready_status :: "string option"
  st_operation_runtime_ready :: "bool option"
  st_operation_plan_allowed :: "bool option"
  st_operation_blocking_reasons :: "string list"
  st_operation_touched_refs :: "string list"
  st_claim_preflight :: "GraphClaimPreflightEvaluation option"
  st_status :: GraphDryRunStepStatus
  st_reasons :: "GraphDryRunReason list"
  st_blocked_by :: "string list"

record GraphDryRunReport =
  dr_graph_id :: string
  dr_status :: GraphDryRunStatus
  dr_steps :: "GraphDryRunStep list"
  dr_diagnostics :: "Diagnostic list"
  dr_blocked_node_count :: nat

definition empty_context :: GraphDryRunContext where
  "empty_context = \<lparr>operation_evaluations = [], require_operation_contracts = False\<rparr>"

definition requiring_operation_contracts :: "GraphOperationEvaluation list \<Rightarrow> GraphDryRunContext" where
  "requiring_operation_contracts evs = \<lparr>operation_evaluations = evs, require_operation_contracts = True\<rparr>"

text \<open>\<open>entry(..).or_insert(..)\<close>: the first evaluation of a reference stays.\<close>

definition operation_evaluations_by_ref :: "GraphOperationEvaluation list \<Rightarrow> GraphOperationEvaluation btree_map" where
  "operation_evaluations_by_ref evs =
     fold (\<lambda>e m. case bt_get m (oe_operation_ref e) of Some _ \<Rightarrow> m | None \<Rightarrow> bt_insert (oe_operation_ref e) e m) evs []"

fun evaluation_diagnostics_from :: "string list \<Rightarrow> GraphOperationEvaluation list \<Rightarrow> Diagnostic list" where
  "evaluation_diagnostics_from seen [] = []"
| "evaluation_diagnostics_from seen (e # evs) =
     (let reference = oe_operation_ref e; path = ''operation_ref.'' @ reference in
      (if reference \<in> set seen then
         [diag_error GraphDuplicateOperationEvaluation path (''operation_ref '' @ reference @ '' was evaluated more than once'')]
       else []) @
      (case oe_status e of
         OsMissing \<Rightarrow> [diag_error GraphMissingOperationContract path (''operation_ref '' @ reference @ '' could not be read'')]
       | OsInvalid \<Rightarrow>
           [diag_error GraphInvalidOperationContract path (''operation_ref '' @ reference @ '' could not be parsed or evaluated'')]
       | OsNotReady \<Rightarrow>
           [diag_error GraphOperationNotReady path (''operation_ref '' @ reference @ '' is not ready for graph planning'')]
       | _ \<Rightarrow> []) @
      evaluation_diagnostics_from (bs_insert reference seen) evs)"

definition operation_evaluation_diagnostics :: "GraphOperationEvaluation list \<Rightarrow> Diagnostic list" where
  "operation_evaluation_diagnostics evs = evaluation_diagnostics_from [] evs"

definition show_bool :: "bool \<Rightarrow> string" where
  "show_bool b = (if b then ''true'' else ''false'')"

definition mutation_declaration_diagnostic :: "GraphNode \<Rightarrow> GraphOperationEvaluation option \<Rightarrow> Diagnostic list" where
  "mutation_declaration_diagnostic node oe =
     (case oe of
        None \<Rightarrow> []
      | Some e \<Rightarrow>
          if node_kind node \<noteq> GnOperation \<or> mutation_capable node = oe_mutation_capable e then []
          else
            [diag_warning GraphOperationMutationDeclarationMismatch (''nodes.'' @ node_id node @ ''.mutation_capable'')
               (''operation node '' @ node_id node @ '' declared mutation_capable='' @ show_bool (mutation_capable node) @
                '', but OperationContract '' @ oe_operation_ref e @ '' derives mutation_capable='' @ show_bool (oe_mutation_capable e))])"

definition claim_preflight_diagnostic :: "GraphNode \<Rightarrow> GraphOperationEvaluation option \<Rightarrow> Diagnostic list" where
  "claim_preflight_diagnostic node oe =
     (case Option.bind oe oe_claim_preflight of
        None \<Rightarrow> []
      | Some preflight \<Rightarrow>
          if node_kind node \<noteq> GnOperation \<or> gcp_status preflight \<noteq> PreflightBlocked then []
          else
            [diag_error GraphClaimPreflightBlocked (''nodes.'' @ node_id node @ ''.claim_preflight'')
               (''operation node '' @ node_id node @ '' failed claim preflight for '' @ show_nat (length (gcp_targets preflight)) @ '' target(s)'')])"

definition missing_operation_diagnostic :: "GraphNode \<Rightarrow> GraphOperationEvaluation option \<Rightarrow> bool \<Rightarrow> Diagnostic list" where
  "missing_operation_diagnostic node oe require =
     (if \<not> require \<or> node_kind node \<noteq> GnOperation \<or> oe \<noteq> None then []
      else
        (case operation_ref node of
           None \<Rightarrow> []
         | Some reference \<Rightarrow>
             [diag_error GraphMissingOperationContract (''nodes.'' @ node_id node @ ''.operation_ref'')
                (''operation node '' @ node_id node @ '' requires operation_ref '' @ reference @ '' to be loaded before dry-run'')]))"

definition operation_block_reason :: "GraphNode \<Rightarrow> GraphOperationEvaluation option \<Rightarrow> bool \<Rightarrow> GraphDryRunReason option" where
  "operation_block_reason node oe require =
     (if node_kind node \<noteq> GnOperation then None
      else
        (case oe of
           None \<Rightarrow> if require then Some OperationContractMissing else None
         | Some e \<Rightarrow>
             (case oe_status e of
                OsMissing \<Rightarrow> Some OperationContractMissing
              | OsInvalid \<Rightarrow> Some OperationContractInvalid
              | OsNotReady \<Rightarrow> Some OperationNotReady
              | _ \<Rightarrow> None)))"

definition dry_run_step_reasons :: "GraphDryRunReason option \<Rightarrow> bool \<Rightarrow> string list \<Rightarrow> GraphDryRunReason list" where
  "dry_run_step_reasons block_reason preflight_blocked blocked_by =
     (let reasons =
        (case block_reason of Some r \<Rightarrow> [r] | None \<Rightarrow> []) @ (if preflight_blocked then [ClaimPreflightBlocked] else []) @
        (if blocked_by \<noteq> [] then [BlockedByVerifier] else [])
      in if reasons = [] then [TopologicalOrder] else reasons)"

definition dry_run_step ::
  "WorkflowGraph \<Rightarrow> GraphNode \<Rightarrow> string \<Rightarrow> nat \<Rightarrow> GraphOperationEvaluation option \<Rightarrow> bool \<Rightarrow> bool \<times> GraphDryRunStep" where
  "dry_run_step g node nid step_index oe require =
     (let effective_mutation_capable = (case oe of None \<Rightarrow> mutation_capable node | Some e \<Rightarrow> oe_mutation_capable e);
          mutation_source = (if oe \<noteq> None then OperationContractSource else GraphDeclaration);
          block_reason = operation_block_reason node oe require;
          preflight_blocked = (case Option.bind oe oe_claim_preflight of None \<Rightarrow> False | Some p \<Rightarrow> gcp_status p = PreflightBlocked);
          blocked_by =
            (if node_kind node = GnOperation \<and> effective_mutation_capable then unpassed_upstream_verifiers g nid else []);
          blocked = (block_reason \<noteq> None \<or> preflight_blocked \<or> blocked_by \<noteq> []);
          reasons = dry_run_step_reasons block_reason preflight_blocked blocked_by
      in
        (blocked,
         \<lparr>st_step_index = step_index, st_node_id = nid, st_node_kind = node_kind node, st_operation_ref = operation_ref node,
          st_declared_mutation_capable = mutation_capable node, st_mutation_capable = effective_mutation_capable,
          st_mutation_source = mutation_source,
          st_operation_contract_id = Option.bind oe oe_contract_id, st_operation_status = map_option oe_status oe,
          st_operation_preview_status = Option.bind oe oe_preview_status,
          st_operation_ready_status = Option.bind oe oe_ready_status,
          st_operation_runtime_ready = map_option oe_runtime_ready oe, st_operation_plan_allowed = map_option oe_plan_allowed oe,
          st_operation_blocking_reasons = (case oe of None \<Rightarrow> [] | Some e \<Rightarrow> oe_blocking_reasons e),
          st_operation_touched_refs = (case oe of None \<Rightarrow> [] | Some e \<Rightarrow> oe_touched_refs e),
          st_claim_preflight = Option.bind oe oe_claim_preflight,
          st_status = (if blocked then StepBlocked else StepPlanned), st_reasons = reasons, st_blocked_by = blocked_by\<rparr>))"

text \<open>The loop of the dry run: diagnostics, steps and the count of blocked nodes.\<close>

fun dry_run_loop ::
  "WorkflowGraph \<Rightarrow> GraphNode btree_map \<Rightarrow> GraphOperationEvaluation btree_map \<Rightarrow> bool \<Rightarrow> (nat \<times> string) list \<Rightarrow>
   Diagnostic list \<times> GraphDryRunStep list \<times> nat \<Rightarrow> Diagnostic list \<times> GraphDryRunStep list \<times> nat" where
  "dry_run_loop g by_id evaluations require [] st = st"
| "dry_run_loop g by_id evaluations require ((step_index, nid) # rest) (diagnostics, steps, blocked_node_count) =
     (case bt_get by_id nid of
        None \<Rightarrow> dry_run_loop g by_id evaluations require rest (diagnostics, steps, blocked_node_count)
      | Some node \<Rightarrow>
          let oe = Option.bind (operation_ref node) (bt_get evaluations);
              diagnostics' = diagnostics @ mutation_declaration_diagnostic node oe @ claim_preflight_diagnostic node oe @
                             missing_operation_diagnostic node oe require;
              (blocked, step) = dry_run_step g node nid step_index oe require
          in dry_run_loop g by_id evaluations require rest
               (diagnostics', steps @ [step], if blocked then blocked_node_count + 1 else blocked_node_count))"

definition dry_run_graph_with_context :: "WorkflowGraph \<Rightarrow> GraphDryRunContext \<Rightarrow> GraphDryRunReport" where
  "dry_run_graph_with_context g ctx =
     (let validation = gvr_diagnostics (validate_graph g) in
      if has_errors validation then
        \<lparr>dr_graph_id = graph_id g, dr_status = DrInvalid, dr_steps = [], dr_diagnostics = validation, dr_blocked_node_count = 0\<rparr>
      else
        let (diagnostics, steps, blocked_node_count) =
              dry_run_loop g (nodes_by_id g) (operation_evaluations_by_ref (operation_evaluations ctx)) (require_operation_contracts ctx)
                (List.enumerate 0 (topological_order g))
                (validation @ operation_evaluation_diagnostics (operation_evaluations ctx), [], 0)
        in
          \<lparr>dr_graph_id = graph_id g,
           dr_status = (if blocked_node_count = 0 \<and> \<not> has_errors diagnostics then DrPlanned else DrBlocked),
           dr_steps = steps, dr_diagnostics = diagnostics, dr_blocked_node_count = blocked_node_count\<rparr>)"

definition dry_run_graph :: "WorkflowGraph \<Rightarrow> GraphDryRunReport" where
  "dry_run_graph g = dry_run_graph_with_context g empty_context"

section \<open>Validation is exact\<close>

text \<open>What a well-formed graph is, without the passes of the validator.\<close>

definition graph_valid :: "WorkflowGraph \<Rightarrow> bool" where
  "graph_valid g \<longleftrightarrow>
     \<not> is_blank (graph_id g) \<and> wg_schema_version g = ''0.1'' \<and> wg_kind g = ''workflow_graph'' \<and>
     nodes g \<noteq> [] \<and> distinct (map node_id (nodes g)) \<and>
     (\<forall>n \<in> set (nodes g). \<not> is_blank (node_id n) \<and>
        (node_kind n = GnOperation \<longrightarrow> (\<exists>r. operation_ref n = Some r \<and> \<not> is_blank r)) \<and>
        (\<forall>v \<in> set (verifies n). is_blank v \<or> v \<in> node_id ` set (nodes g))) \<and>
     graph_edges g \<subseteq> node_id ` set (nodes g) \<times> node_id ` set (nodes g) \<and> acyclic (graph_edges g) \<and>
     (\<forall>b \<in> set (budgets g). \<forall>r. budget_node_id b = Some r \<longrightarrow> is_blank r \<or> r \<in> node_id ` set (nodes g))"

lemma validate_nodes_from_errors [errors_of]:
  "has_errors (validate_nodes_from index seen ns) \<longleftrightarrow>
     \<not> (distinct (map node_id ns) \<and> set seen \<inter> node_id ` set ns = {} \<and>
        (\<forall>n \<in> set ns. \<not> is_blank (node_id n) \<and> (node_kind n = GnOperation \<longrightarrow> (\<exists>r. operation_ref n = Some r \<and> \<not> is_blank r))))"
proof (induction index seen ns rule: validate_nodes_from.induct)
  case (2 index seen node ns)
  have "(case operation_ref node of None \<Rightarrow> True | Some r \<Rightarrow> is_blank r) \<longleftrightarrow> \<not> (\<exists>r. operation_ref node = Some r \<and> \<not> is_blank r)"
    by (auto split: option.splits)
  then show ?case using 2 [OF refl] by (auto simp: errors_of Let_def)
qed (simp add: errors_of)

lemma validate_endpoint_errors [errors_of]:
  "has_errors (validate_endpoint ids path name endpoint) \<longleftrightarrow> is_blank endpoint \<or> endpoint \<notin> set ids"
  by (simp add: validate_endpoint_def errors_of)

lemma validate_edges_errors [errors_of]:
  "has_errors (validate_edges g) \<longleftrightarrow>
     (\<exists>e \<in> set (edges g). is_blank (edge_from e) \<or> edge_from e \<notin> node_id ` set (nodes g) \<or>
        is_blank (edge_to e) \<or> edge_to e \<notin> node_id ` set (nodes g))"
  unfolding validate_edges_def Let_def by (subst has_errors_enumerate) (auto simp: errors_of)

lemma validate_verifies_errors [errors_of]:
  "has_errors (concat (map (validate_verifies ids) (List.enumerate k ns))) \<longleftrightarrow>
     (\<exists>n \<in> set ns. \<exists>v \<in> set (verifies n). \<not> is_blank v \<and> v \<notin> set ids)"
proof (rule has_errors_enumerate)
  show "has_errors (validate_verifies ids (i, n)) \<longleftrightarrow> (\<exists>v \<in> set (verifies n). \<not> is_blank v \<and> v \<notin> set ids)" for i n
    unfolding validate_verifies_def by (simp, subst has_errors_enumerate) (auto simp: errors_of)
qed

lemma validate_budget_errors [errors_of]:
  "has_errors (concat (map (validate_budget_ref ids) (List.enumerate k bs))) \<longleftrightarrow>
     (\<exists>b \<in> set bs. \<exists>r. budget_node_id b = Some r \<and> \<not> is_blank r \<and> r \<notin> set ids)"
  by (rule has_errors_enumerate) (auto simp: validate_budget_ref_def errors_of split: option.splits)

lemma validate_edge_source_errors [errors_of]:
  "\<not> has_errors (concat (map (validate_edge_source by_id) (List.enumerate k es)))"
  by (induction es arbitrary: k) (auto simp: validate_edge_source_def errors_of split: option.splits)

lemma validate_node_references_errors [errors_of]:
  "has_errors (validate_node_references g) \<longleftrightarrow>
     (\<exists>n \<in> set (nodes g). \<exists>v \<in> set (verifies n). \<not> is_blank v \<and> v \<notin> node_id ` set (nodes g)) \<or>
     (\<exists>b \<in> set (budgets g). \<exists>r. budget_node_id b = Some r \<and> \<not> is_blank r \<and> r \<notin> node_id ` set (nodes g))"
  by (simp add: validate_node_references_def Let_def errors_of)

lemma dependencies_graph_edges:
  "graph_edges g \<subseteq> node_id ` set (nodes g) \<times> node_id ` set (nodes g) \<Longrightarrow> dependencies (graph_node_ids g) (edges g) = graph_edges g"
proof -
  assume "graph_edges g \<subseteq> node_id ` set (nodes g) \<times> node_id ` set (nodes g)"
  then have "\<forall>e \<in> set (edges g). edge_from e \<in> node_id ` set (nodes g) \<and> edge_to e \<in> node_id ` set (nodes g)"
    unfolding graph_edges_def by blast
  then show ?thesis unfolding dependencies_def graph_edges_def graph_node_ids_def by auto
qed

lemma validate_cycles_errors:
  "nodes g \<noteq> [] \<Longrightarrow> has_errors (validate_cycles g) \<longleftrightarrow> \<not> acyclic (dependencies (graph_node_ids g) (edges g))"
  using topological_order_cases [of g] by (auto simp: validate_cycles_def errors_of split: option.splits)

lemma validate_graph_exact: "has_errors (gvr_diagnostics (validate_graph g)) \<longleftrightarrow> \<not> graph_valid g"
proof -
  let ?ids = "node_id ` set (nodes g)"
  have i: "has_errors (validate_graph_identity g) \<longleftrightarrow>
    \<not> (\<not> is_blank (graph_id g) \<and> wg_schema_version g = ''0.1'' \<and> wg_kind g = ''workflow_graph'')"
    by (simp add: validate_graph_identity_def errors_of WORKFLOW_GRAPH_SCHEMA_VERSION_def WORKFLOW_GRAPH_KIND_def)
  have n: "has_errors (validate_nodes g) \<longleftrightarrow> \<not> (nodes g \<noteq> [] \<and> distinct (map node_id (nodes g)) \<and>
    (\<forall>n \<in> set (nodes g). \<not> is_blank (node_id n) \<and> (node_kind n = GnOperation \<longrightarrow> (\<exists>r. operation_ref n = Some r \<and> \<not> is_blank r))))"
    by (auto simp: validate_nodes_def errors_of)
  have e: "\<not> has_errors (validate_nodes g) \<Longrightarrow> has_errors (validate_edges g) \<longleftrightarrow> \<not> graph_edges g \<subseteq> ?ids \<times> ?ids"
    unfolding n validate_edges_errors by (auto simp: graph_edges_def)
  have c: "\<not> has_errors (validate_nodes g) \<Longrightarrow> \<not> has_errors (validate_edges g) \<Longrightarrow> has_errors (validate_cycles g) \<longleftrightarrow> \<not> acyclic (graph_edges g)"
    using e n validate_cycles_errors [of g] dependencies_graph_edges [of g] by simp
  show ?thesis
    using i n e c validate_node_references_errors [of g] by (auto simp: validate_graph_def errors_of graph_valid_def)
qed

section \<open>Outcome of the dry run\<close>

definition evaluation_of :: "GraphDryRunContext \<Rightarrow> GraphNode \<Rightarrow> GraphOperationEvaluation option" where
  "evaluation_of ctx n =
     (case operation_ref n of
        None \<Rightarrow> None
      | Some r \<Rightarrow> find (\<lambda>e. oe_operation_ref e = r) (operation_evaluations ctx))"

definition effective_mutation :: "GraphDryRunContext \<Rightarrow> GraphNode \<Rightarrow> bool" where
  "effective_mutation ctx n = (case evaluation_of ctx n of None \<Rightarrow> mutation_capable n | Some e \<Rightarrow> oe_mutation_capable e)"

text \<open>
  When nothing holds up a node: an operation node has a contract where one is required, a contract that
  was evaluated is ready and its claims are free, and a mutating operation has only passed verifiers
  upstream, over edges of any kind.
\<close>

definition node_clear :: "WorkflowGraph \<Rightarrow> GraphDryRunContext \<Rightarrow> GraphNode \<Rightarrow> bool" where
  "node_clear g ctx n \<longleftrightarrow>
     (node_kind n = GnOperation \<and> require_operation_contracts ctx \<longrightarrow> evaluation_of ctx n \<noteq> None) \<and>
     (\<forall>e. evaluation_of ctx n = Some e \<longrightarrow>
        (node_kind n = GnOperation \<longrightarrow> oe_status e \<in> {OsReady, OsSafeReadOnly}) \<and>
        (\<forall>p. oe_claim_preflight e = Some p \<longrightarrow> gcp_status p = PreflightPassed)) \<and>
     (node_kind n = GnOperation \<and> effective_mutation ctx n \<longrightarrow>
        (\<forall>v \<in> set (nodes g). node_kind v = GnVerifier \<and> (node_id v, node_id n) \<in> (graph_edges g)\<^sup>+ \<longrightarrow>
           verifier_result v = Some VrPassed))"

definition plan_ready :: "WorkflowGraph \<Rightarrow> GraphDryRunContext \<Rightarrow> bool" where
  "plan_ready g ctx \<longleftrightarrow>
     graph_valid g \<and> distinct (map oe_operation_ref (operation_evaluations ctx)) \<and>
     (\<forall>e \<in> set (operation_evaluations ctx). oe_status e \<in> {OsReady, OsSafeReadOnly}) \<and>
     (\<forall>n \<in> set (nodes g). node_clear g ctx n)"

lemma evaluations_fold:
  "bt_get (fold (\<lambda>e m. case bt_get m (oe_operation_ref e) of Some _ \<Rightarrow> m | None \<Rightarrow> bt_insert (oe_operation_ref e) e m) evs m) r =
     (case bt_get m r of Some e \<Rightarrow> Some e | None \<Rightarrow> find (\<lambda>e. oe_operation_ref e = r) evs)"
  by (induction evs arbitrary: m) (auto simp: bt_get_insert split: option.splits)

lemma evaluation_lookup:
  "Option.bind (operation_ref n) (bt_get (operation_evaluations_by_ref (operation_evaluations ctx))) = evaluation_of ctx n"
  using evaluations_fold [of "operation_evaluations ctx" "[]"]
  by (simp add: operation_evaluations_by_ref_def evaluation_of_def bt_get_def split: option.splits)

lemma evaluation_diagnostics_errors:
  "has_errors (evaluation_diagnostics_from seen evs) \<longleftrightarrow>
     \<not> (distinct (map oe_operation_ref evs) \<and> set seen \<inter> oe_operation_ref ` set evs = {} \<and>
        (\<forall>e \<in> set evs. oe_status e \<in> {OsReady, OsSafeReadOnly}))"
proof (induction seen evs rule: evaluation_diagnostics_from.induct)
  case (2 seen e evs)
  show ?case using 2 [OF refl refl] by (cases "oe_status e") (auto simp: errors_of Let_def)
qed (simp add: errors_of)

lemma unpassed_none_iff:
  assumes "distinct (map node_id (nodes g))"
  shows "unpassed_upstream_verifiers g k = [] \<longleftrightarrow>
    (\<forall>v \<in> set (nodes g). node_kind v = GnVerifier \<and> (node_id v, k) \<in> (graph_edges g)\<^sup>+ \<longrightarrow> verifier_result v = Some VrPassed)"
proof -
  have "unpassed_upstream_verifiers g k = [] \<longleftrightarrow> set (unpassed_upstream_verifiers g k) = {}" by simp
  also have "\<dots> \<longleftrightarrow> (\<forall>v \<in> set (nodes g). (node_id v, k) \<in> (graph_edges g)\<^sup>+ \<longrightarrow> \<not> unpassed_verifier v)"
    unfolding unpassed_upstream_set unpassed_ids_def
    using nodes_by_id_get [of g] nodes_by_id_distinct [OF assms] by blast
  finally show ?thesis by (auto simp: unpassed_verifier_def)
qed

lemma step_blocked_iff:
  assumes "distinct (map node_id (nodes g))"
  shows "fst (dry_run_step g n (node_id n) i (evaluation_of ctx n) (require_operation_contracts ctx)) \<longleftrightarrow> \<not> node_clear g ctx n"
proof -
  let ?oe = "evaluation_of ctx n"
  have b: "operation_block_reason n ?oe (require_operation_contracts ctx) \<noteq> None \<longleftrightarrow>
    \<not> ((node_kind n = GnOperation \<and> require_operation_contracts ctx \<longrightarrow> ?oe \<noteq> None) \<and>
       (\<forall>e. ?oe = Some e \<longrightarrow> node_kind n = GnOperation \<longrightarrow> oe_status e \<in> {OsReady, OsSafeReadOnly}))"
    by (auto simp: operation_block_reason_def split: option.splits GraphOperationStatus.splits)
  have p: "(case Option.bind ?oe oe_claim_preflight of None \<Rightarrow> False | Some p \<Rightarrow> gcp_status p = PreflightBlocked) \<longleftrightarrow>
    \<not> (\<forall>e. ?oe = Some e \<longrightarrow> (\<forall>p. oe_claim_preflight e = Some p \<longrightarrow> gcp_status p = PreflightPassed))"
    by (cases ?oe) (auto split: option.splits intro: GraphClaimPreflightStatus.exhaust)
  have m: "(case ?oe of None \<Rightarrow> mutation_capable n | Some e \<Rightarrow> oe_mutation_capable e) = effective_mutation ctx n"
    by (simp add: effective_mutation_def)
  show ?thesis
    unfolding dry_run_step_def Let_def fst_conv b p m node_clear_def if_not_P
    using unpassed_none_iff [OF assms, of "node_id n"] by auto
qed

lemma step_status:
  "st_status (snd (dry_run_step g n k i oe req)) = (if fst (dry_run_step g n k i oe req) then StepBlocked else StepPlanned)"
  "st_node_id (snd (dry_run_step g n k i oe req)) = k"
  by (simp_all add: dry_run_step_def Let_def)

lemma node_diagnostics_errors:
  "has_errors (mutation_declaration_diagnostic n oe @ claim_preflight_diagnostic n oe @ missing_operation_diagnostic n oe req) \<Longrightarrow>
     fst (dry_run_step g n k i oe req)"
  by (auto simp: errors_of mutation_declaration_diagnostic_def claim_preflight_diagnostic_def missing_operation_diagnostic_def
      dry_run_step_def Let_def operation_block_reason_def split: option.splits if_splits)

lemma dry_run_loop_node:
  assumes "bt_get by_id k = Some n" "Option.bind (operation_ref n) (bt_get evaluations) = oe" "dry_run_step g n k i oe req = (bl, st)"
  shows "dry_run_loop g by_id evaluations req ((i, k) # l) (ds, ss, b) =
    dry_run_loop g by_id evaluations req l
      (ds @ mutation_declaration_diagnostic n oe @ claim_preflight_diagnostic n oe @ missing_operation_diagnostic n oe req,
       ss @ [st], if bl then b + 1 else b)"
  unfolding dry_run_loop.simps(2) assms(1) option.case Let_def assms(2,3) prod.case ..

lemma dry_run_loop_result:
  assumes "dry_run_loop g (nodes_by_id g) (operation_evaluations_by_ref (operation_evaluations ctx)) (require_operation_contracts ctx) l (ds, ss, b) =
      (ds', ss', b')"
    "distinct (map node_id (nodes g))" "snd ` set l \<subseteq> node_id ` set (nodes g)"
  shows "map st_node_id ss' = map st_node_id ss @ map snd l \<and>
    (b' = 0 \<and> \<not> has_errors ds' \<longleftrightarrow>
       b = 0 \<and> \<not> has_errors ds \<and> (\<forall>n \<in> set (nodes g). node_id n \<in> snd ` set l \<longrightarrow> node_clear g ctx n)) \<and>
    b' + length (filter (\<lambda>s. st_status s = StepBlocked) ss) = b + length (filter (\<lambda>s. st_status s = StepBlocked) ss')"
  using assms
proof (induction l arbitrary: ds ss b)
  case (Cons ik l)
  obtain i k where ik: "ik = (i, k)" by (cases ik)
  then obtain n where n: "n \<in> set (nodes g)" "node_id n = k" using Cons.prems(3) by auto
  let ?oe = "evaluation_of ctx n" and ?req = "require_operation_contracts ctx"
  let ?d = "mutation_declaration_diagnostic n ?oe @ claim_preflight_diagnostic n ?oe @ missing_operation_diagnostic n ?oe ?req"
  obtain bl st where s: "dry_run_step g n k i ?oe ?req = (bl, st)" by fastforce
  have k: "bt_get (nodes_by_id g) k = Some n" using nodes_by_id_distinct [OF Cons.prems(2) n(1)] n(2) by simp
  have "dry_run_loop g (nodes_by_id g) (operation_evaluations_by_ref (operation_evaluations ctx)) ?req l
      (ds @ ?d, ss @ [st], if bl then b + 1 else b) = (ds', ss', b')"
    using Cons.prems(1) unfolding ik dry_run_loop_node [OF k evaluation_lookup s] .
  note IH = Cons.IH [OF this Cons.prems(2)]
  have bl: "bl \<longleftrightarrow> \<not> node_clear g ctx n" using step_blocked_iff [OF Cons.prems(2), of n i ctx] n(2) s by simp
  have e: "has_errors ?d \<Longrightarrow> bl" using node_diagnostics_errors [of n ?oe ?req g k i] s by simp
  have st: "st_status st = (if bl then StepBlocked else StepPlanned)" "st_node_id st = k"
    using step_status [of g n k i ?oe ?req] s by simp_all
  have u: "m \<in> set (nodes g) \<Longrightarrow> node_id m = k \<Longrightarrow> m = n" for m
    using Cons.prems(2) n unfolding distinct_map inj_on_def by blast
  have q: "(\<forall>m \<in> set (nodes g). node_id m \<in> snd ` set (ik # l) \<longrightarrow> node_clear g ctx m) \<longleftrightarrow>
    \<not> bl \<and> (\<forall>m \<in> set (nodes g). node_id m \<in> snd ` set l \<longrightarrow> node_clear g ctx m)"
    unfolding ik list.set(2) image_insert snd_conv bl using u n by blast
  have "snd ` set l \<subseteq> node_id ` set (nodes g)" using Cons.prems(3) by auto
  note IH = IH [OF this]
  have "map st_node_id ss' = map st_node_id ss @ map snd (ik # l)" using conjunct1 [OF IH] st(2) by (simp add: ik)
  moreover have "b' = 0 \<and> \<not> has_errors ds' \<longleftrightarrow> b = 0 \<and> \<not> has_errors ds \<and> \<not> bl \<and>
      (\<forall>m \<in> set (nodes g). node_id m \<in> snd ` set l \<longrightarrow> node_clear g ctx m)"
    unfolding conjunct1 [OF conjunct2 [OF IH]] has_errors_simps(2) [of ds] using e by (cases bl) auto
  moreover have "b' + length (filter (\<lambda>s. st_status s = StepBlocked) ss) = b + length (filter (\<lambda>s. st_status s = StepBlocked) ss')"
    using conjunct2 [OF conjunct2 [OF IH]] st(1) by (cases bl) simp_all
  ultimately show ?case unfolding q by blast
qed simp

text \<open>
  C6. Outcome of a dry run: the dry run rejects a graph exactly when it is not well-formed, which
  includes a cycle; it plans it exactly when moreover every evaluated contract is ready, none was
  evaluated twice, and nothing holds up any node, so that a mutating operation has only passed
  verifiers upstream.  The steps are all nodes, once each, in an order that follows the edges, and
  the count of blocked nodes is the number of blocked steps.
\<close>

theorem dry_run_outcome:
  "(dr_status (dry_run_graph_with_context g ctx) = DrInvalid \<longleftrightarrow> \<not> graph_valid g) \<and>
   (dr_status (dry_run_graph_with_context g ctx) = DrPlanned \<longleftrightarrow> plan_ready g ctx) \<and>
   (let order = map st_node_id (dr_steps (dry_run_graph_with_context g ctx)) in
      distinct order \<and> topological (graph_edges g) order \<and> set order = (if graph_valid g then node_id ` set (nodes g) else {})) \<and>
   dr_blocked_node_count (dry_run_graph_with_context g ctx) =
     length (filter (\<lambda>s. st_status s = StepBlocked) (dr_steps (dry_run_graph_with_context g ctx)))"
proof (cases "graph_valid g")
  case False
  then show ?thesis by (simp add: dry_run_graph_with_context_def validate_graph_exact plan_ready_def topological_def)
next
  case True
  let ?r = "dry_run_graph_with_context g ctx" and ?evs = "operation_evaluations ctx"
  have v: "distinct (map node_id (nodes g))" "graph_edges g \<subseteq> node_id ` set (nodes g) \<times> node_id ` set (nodes g)" "acyclic (graph_edges g)"
    using True by (simp_all add: graph_valid_def)
  have o: "distinct (topological_order g)" "set (topological_order g) = node_id ` set (nodes g)" "topological (graph_edges g) (topological_order g)"
    using topological_order_cases [of g] v(3) unfolding dependencies_graph_edges [OF v(2)] topological_order_def
    by (auto split: option.splits)
  obtain ds ss b where l: "dry_run_loop g (nodes_by_id g) (operation_evaluations_by_ref ?evs) (require_operation_contracts ctx)
      (List.enumerate 0 (topological_order g)) (gvr_diagnostics (validate_graph g) @ operation_evaluation_diagnostics ?evs, [], 0) = (ds, ss, b)"
    using prod_cases3 by blast
  have r: "dr_status ?r = (if b = 0 \<and> \<not> has_errors ds then DrPlanned else DrBlocked)" "dr_steps ?r = ss" "dr_blocked_node_count ?r = b"
    using True by (simp_all add: dry_run_graph_with_context_def validate_graph_exact l)
  have s: "snd ` set (List.enumerate 0 (topological_order g)) = node_id ` set (nodes g)"
    using o(2) by (metis list.set_map map_snd_enumerate)
  note L = dry_run_loop_result [OF l v(1), unfolded s, OF subset_refl]
  have order: "map st_node_id ss = topological_order g" using conjunct1 [OF L] by simp
  have count: "b = length (filter (\<lambda>s. st_status s = StepBlocked) ss)" using conjunct2 [OF conjunct2 [OF L]] by simp
  have "\<not> has_errors (gvr_diagnostics (validate_graph g) @ operation_evaluation_diagnostics ?evs) \<longleftrightarrow>
    distinct (map oe_operation_ref ?evs) \<and> (\<forall>e \<in> set ?evs. oe_status e \<in> {OsReady, OsSafeReadOnly})"
    unfolding has_errors_simps(2) validate_graph_exact operation_evaluation_diagnostics_def evaluation_diagnostics_errors
    using True by simp
  then have ready: "b = 0 \<and> \<not> has_errors ds \<longleftrightarrow> plan_ready g ctx"
    using conjunct1 [OF conjunct2 [OF L]] True unfolding plan_ready_def by blast
  have "dr_status ?r = (if plan_ready g ctx then DrPlanned else DrBlocked)" unfolding r(1) ready ..
  then show ?thesis using True o unfolding r(2,3) Let_def order count [symmetric] by simp
qed

end
