(* ===== verification/Assurance_Case.thy ===== *)
theory Assurance_Case
  imports Diagnostics
begin

text \<open>
  Assurance cases: the contract types of \<open>src/crates/forge-core-contracts/src/assurance.rs\<close> that the
  obligation engine uses, and the validator of \<open>src/crates/forge-core-validate/src/assurance.rs\<close>.

  The validator threads the identifiers it has seen and the report; the locale below states once what a
  pass over a list of entities that registers their identifiers does, and each pass of the validator
  interprets it.  The result is the exact condition under which a case is valid.
\<close>

section \<open>Contract types\<close>

datatype UniversalAssuranceLens =
  IntendedOutcome | CriticalJourneys | SystemIntegrity | QualityAttributes | Operability | LifecycleCoverage
  | RiskAndFailure | EvidenceRepresentativeness

definition all_lenses :: "UniversalAssuranceLens list" where
  "all_lenses =
     [IntendedOutcome, CriticalJourneys, SystemIntegrity, QualityAttributes, Operability, LifecycleCoverage,
      RiskAndFailure, EvidenceRepresentativeness]"

fun lens_id :: "UniversalAssuranceLens \<Rightarrow> string" where
  "lens_id IntendedOutcome = ''intended_outcome''"
| "lens_id CriticalJourneys = ''critical_journeys''"
| "lens_id SystemIntegrity = ''system_integrity''"
| "lens_id QualityAttributes = ''quality_attributes''"
| "lens_id Operability = ''operability''"
| "lens_id LifecycleCoverage = ''lifecycle_coverage''"
| "lens_id RiskAndFailure = ''risk_and_failure''"
| "lens_id EvidenceRepresentativeness = ''evidence_representativeness''"

datatype ReadinessTarget = Explore | Execute | Release

fun target_rank :: "ReadinessTarget \<Rightarrow> nat" where
  "target_rank Explore = 0"
| "target_rank Execute = 1"
| "target_rank Release = 2"

datatype ReadinessVerdict = RvBlocked | RvReady

datatype ObligationCriticality = CrAdvisory | CrRequired | CrCritical

datatype ObligationStatus = ObPending | ObInProgress | ObSatisfied | ObBlocked

datatype AssuranceClaimStatus = AsUnknown | AsHypothesized | AsSupported | AsVerified | AsDisproven | AsWaived

definition satisfies_obligation :: "AssuranceClaimStatus \<Rightarrow> bool" where
  "satisfies_obligation s \<longleftrightarrow> s = AsVerified \<or> s = AsWaived"

datatype HumanDecisionReason =
  HrPreference | HrValueJudgment | HrMaterialCost | HrIrreversibleRisk | HrProductDirection | HrExternalAuthority

datatype CapabilityGapKind = CgAgent | CgTool | CgEnvironment | CgKnowledge | CgEvaluator | CgAuthority | CgDomainPack

datatype NextActionKind =
  NkResearch | NkExperiment | NkImplement | NkEvaluate | NkChallenge | NkAskHuman | NkAcquireCapability | NkDeclareGap | NkProceed

record IntentProposal =
  ip_id :: string
  desired_outcome :: string
  ip_constraints :: "string list"
  ip_preferences :: "string list"
  unacceptable_outcomes :: "string list"
  uncertainties :: "string list"

record ProjectSnapshot =
  ps_id :: string
  state_version :: u64
  observed_at :: string
  ps_evidence_refs :: "string list"
  phase_projection :: "string option"

record Obligation =
  ob_id :: string
  ob_description :: string
  ob_criticality :: ObligationCriticality
  ob_status :: ObligationStatus
  required_before :: ReadinessTarget
  claim_refs :: "string list"

record AssuranceWaiver =
  authorized_by :: string
  aw_reason :: string
  aw_consequences :: "string list"
  aw_expires_at :: "string option"

record AssuranceClaim =
  ac_id :: string
  ac_statement :: string
  ac_status :: AssuranceClaimStatus
  ac_evidence_refs :: "string list"
  ac_waiver :: "AssuranceWaiver option"

record DecisionAlternative =
  da_id :: string
  da_description :: string
  da_consequences :: "string list"

record DecisionRequest =
  dq_id :: string
  dq_question :: string
  dq_reason :: HumanDecisionReason
  dq_alternatives :: "DecisionAlternative list"
  dq_recommended_alternative_ref :: string
  dq_blocking :: bool
  dq_blocks_before :: ReadinessTarget

record CapabilityGap =
  cg_id :: string
  cg_kind :: CapabilityGapKind
  cg_description :: string
  affected_claim_refs :: "string list"
  cg_resolution_options :: "string list"
  cg_blocking :: bool
  cg_blocks_before :: ReadinessTarget

text \<open>The rank is a \<open>u32\<close>, kept as a number below \<open>2 ^ 32\<close>.\<close>

record NextAction =
  na_id :: string
  na_kind :: NextActionKind
  na_description :: string
  addresses_claim_refs :: "string list"
  na_rationale :: string
  na_rank :: nat

record ReadinessAssessment =
  ra_target :: ReadinessTarget
  ra_verdict :: ReadinessVerdict
  blocker_refs :: "string list"
  ra_rationale :: string

record AssuranceCase =
  case_id :: string
  case_intent :: IntentProposal
  case_project_snapshot :: ProjectSnapshot
  obligations :: "Obligation list"
  case_claims :: "AssuranceClaim list"
  decision_requests :: "DecisionRequest list"
  capability_gaps :: "CapabilityGap list"
  next_actions :: "NextAction list"
  readiness :: ReadinessAssessment

record AssuranceCaseDocument =
  acd_schema_version :: string
  assurance_case :: AssuranceCase

definition ASSURANCE_CASE_SCHEMA_VERSION :: string where
  "ASSURANCE_CASE_SCHEMA_VERSION = ''0.1''"

definition u32_max :: nat where
  "u32_max = 2 ^ 32 - 1"

text \<open>\<open>u32::try_from(n).unwrap_or(u32::MAX)\<close>\<close>

definition u32_saturating :: "nat \<Rightarrow> nat" where
  "u32_saturating n = (if n \<le> u32_max then n else u32_max)"

section \<open>The validator\<close>

type_synonym registry = "string list \<times> Diagnostic list"

definition push_all :: "Diagnostic list \<Rightarrow> registry \<Rightarrow> registry" where
  "push_all new = (\<lambda>(ids, ds). (ids, ds @ new))"

definition register_assurance_entity :: "string \<Rightarrow> string \<Rightarrow> registry \<Rightarrow> registry" where
  "register_assurance_entity eid path = (\<lambda>(ids, ds).
     if is_blank eid then (ids, ds @ [diag_error AssuranceEmptyEntityId path ''Assurance Case entity id must not be empty''])
     else if eid \<in> set ids then
       (ids, ds @ [diag_error AssuranceDuplicateEntityId path
          (''duplicate Assurance Case entity id '' @ [CHR 0x27] @ eid @ [CHR 0x27])])
     else (eid # ids, ds))"

type_synonym claim_statuses = "string \<rightharpoonup> AssuranceClaimStatus"

definition validate_assurance_claim_refs :: "claim_statuses \<Rightarrow> string list \<Rightarrow> string \<Rightarrow> Diagnostic list" where
  "validate_assurance_claim_refs statuses refs path =
     (if refs = [] then [diag_error AssuranceDanglingClaimRef path ''at least one Assurance Claim ref is required''] else []) @
     concat (map (\<lambda>r. if statuses r = None then
         [diag_error AssuranceDanglingClaimRef path (''claim ref '' @ [CHR 0x27] @ r @ [CHR 0x27] @ '' does not resolve'')]
       else []) refs)"

definition validate_claim_waiver :: "string \<Rightarrow> AssuranceClaim \<Rightarrow> Diagnostic list" where
  "validate_claim_waiver path c =
     (case (ac_status c, ac_waiver c) of
        (AsWaived, Some w) \<Rightarrow>
          if is_blank (authorized_by w) \<or> is_blank (aw_reason w) \<or> aw_consequences w = [] then
            [diag_error AssuranceWaiverInconsistent (path @ ''.waiver'') ''a waiver requires authority, reason, and explicit consequences'']
          else []
      | (AsWaived, None) \<Rightarrow>
          [diag_error AssuranceWaiverInconsistent (path @ ''.waiver'') ''a waived claim requires an explicit waiver'']
      | (_, Some _) \<Rightarrow>
          [diag_error AssuranceWaiverInconsistent (path @ ''.waiver'') ''only a claim with status waived may carry waiver authority'']
      | (_, None) \<Rightarrow> [])"

definition validate_claim :: "string \<Rightarrow> AssuranceClaim \<Rightarrow> registry \<Rightarrow> registry" where
  "validate_claim cid c st =
     (let path = ''assurance_case.'' @ cid @ ''.claims.'' @ ac_id c in
      push_all
        ((if ac_status c \<in> {AsSupported, AsVerified, AsDisproven} \<and> ac_evidence_refs c = [] then
            [diag_error AssuranceClaimEvidenceMissing (path @ ''.evidence_refs'')
               ''supported, verified, and disproven claims require evidence'']
          else []) @ validate_claim_waiver path c)
        (register_assurance_entity (ac_id c) path st))"

definition claim_statuses_of :: "AssuranceClaim list \<Rightarrow> claim_statuses" where
  "claim_statuses_of cs = fold (\<lambda>c m. m(ac_id c \<mapsto> ac_status c)) cs Map.empty"

definition validate_obligation :: "string \<Rightarrow> claim_statuses \<Rightarrow> Obligation \<Rightarrow> registry \<Rightarrow> registry" where
  "validate_obligation cid statuses ob st =
     (let path = ''assurance_case.'' @ cid @ ''.obligations.'' @ ob_id ob;
          all_claims_satisfy =
            (claim_refs ob \<noteq> [] \<and>
             list_all (\<lambda>r. case statuses r of Some s \<Rightarrow> satisfies_obligation s | None \<Rightarrow> False) (claim_refs ob))
      in
        push_all
          ((if claim_refs ob = [] then
              [diag_error AssuranceDanglingClaimRef (path @ ''.claim_refs'') ''an obligation must reference at least one Assurance Claim'']
            else []) @
           concat (map (\<lambda>r. if statuses r = None then
               [diag_error AssuranceDanglingClaimRef (path @ ''.claim_refs'')
                  (''claim ref '' @ [CHR 0x27] @ r @ [CHR 0x27] @ '' does not resolve'')]
             else []) (claim_refs ob)) @
           (if ob_status ob = ObSatisfied \<and> \<not> all_claims_satisfy then
              [diag_error AssuranceSatisfiedObligationUnsupported (path @ ''.status'')
                 ''a satisfied obligation requires every referenced claim to be verified or waived'']
            else []))
          (register_assurance_entity (ob_id ob) path st))"

definition validate_request :: "string \<Rightarrow> DecisionRequest \<Rightarrow> registry \<Rightarrow> registry" where
  "validate_request cid dq st =
     (let path = ''assurance_case.'' @ cid @ ''.decision_requests.'' @ dq_id dq in
      push_all
        (if length (dq_alternatives dq) < 2 \<or> dq_recommended_alternative_ref dq \<notin> da_id ` set (dq_alternatives dq) then
           [diag_error AssuranceDecisionRecommendationInvalid (path @ ''.recommended_alternative_ref'')
              ''a Decision Request needs at least two alternatives and a recommendation that resolves'']
         else [])
        (fold (\<lambda>a. register_assurance_entity (da_id a) (path @ ''.alternatives.'' @ da_id a)) (dq_alternatives dq)
           (register_assurance_entity (dq_id dq) path st)))"

definition validate_gap :: "string \<Rightarrow> claim_statuses \<Rightarrow> CapabilityGap \<Rightarrow> registry \<Rightarrow> registry" where
  "validate_gap cid statuses gap st =
     (let path = ''assurance_case.'' @ cid @ ''.capability_gaps.'' @ cg_id gap in
      push_all
        (validate_assurance_claim_refs statuses (affected_claim_refs gap) (path @ ''.affected_claim_refs'') @
         (if cg_resolution_options gap = [] then
            [diag_error AssuranceCapabilityGapResolutionEmpty (path @ ''.resolution_options'')
               ''a Capability Gap must offer at least one resolution option'']
          else []))
        (register_assurance_entity (cg_id gap) path st))"

fun validate_actions :: "string \<Rightarrow> claim_statuses \<Rightarrow> NextAction list \<Rightarrow> nat list \<times> registry \<Rightarrow> nat list \<times> registry" where
  "validate_actions cid statuses [] st = st"
| "validate_actions cid statuses (act # acts) (ranks, st) =
     (let path = ''assurance_case.'' @ cid @ ''.next_actions.'' @ na_id act;
          bad_rank = (na_rank act = 0 \<or> na_rank act \<in> set ranks)
      in validate_actions cid statuses acts
           (if na_rank act = 0 \<or> na_rank act \<in> set ranks then ranks else na_rank act # ranks,
            push_all
              (validate_assurance_claim_refs statuses (addresses_claim_refs act) (path @ ''.addresses_claim_refs'') @
               (if bad_rank then
                  [diag_error AssuranceNextActionRankInvalid (path @ ''.rank'') ''next-action ranks must be unique and greater than zero'']
                else []))
              (register_assurance_entity (na_id act) path st)))"

definition validate_due_assurance_blocker :: "ReadinessVerdict \<Rightarrow> string list \<Rightarrow> string \<Rightarrow> string \<Rightarrow> Diagnostic list" where
  "validate_due_assurance_blocker verdict blockers entity_id path =
     (if verdict = RvReady \<or> entity_id \<notin> set blockers then
        [diag_error AssuranceReadinessInconsistent path
           (''due blocking entity '' @ [CHR 0x27] @ entity_id @ [CHR 0x27] @ '' must block readiness and appear in blocker_refs'')]
      else [])"

definition obligation_due :: "ReadinessTarget \<Rightarrow> Obligation \<Rightarrow> bool" where
  "obligation_due target ob \<longleftrightarrow> ob_criticality ob \<noteq> CrAdvisory \<and> target_rank (required_before ob) \<le> target_rank target"

definition request_due :: "ReadinessTarget \<Rightarrow> DecisionRequest \<Rightarrow> bool" where
  "request_due target dq \<longleftrightarrow> dq_blocking dq \<and> target_rank (dq_blocks_before dq) \<le> target_rank target"

definition gap_due :: "ReadinessTarget \<Rightarrow> CapabilityGap \<Rightarrow> bool" where
  "gap_due target gap \<longleftrightarrow> cg_blocking gap \<and> target_rank (cg_blocks_before gap) \<le> target_rank target"

definition unresolved_critical :: "AssuranceCase \<Rightarrow> claim_statuses \<Rightarrow> AssuranceClaim \<Rightarrow> bool" where
  "unresolved_critical c statuses cl \<longleftrightarrow>
     ac_id cl \<in> set (blocker_refs (readiness c)) \<or>
     (case statuses (ac_id cl) of Some s \<Rightarrow> \<not> satisfies_obligation s | None \<Rightarrow> False) \<and>
     list_ex (\<lambda>ob. ob_criticality ob = CrCritical \<and>
       target_rank (required_before ob) \<le> target_rank (ra_target (readiness c)) \<and> ac_id cl \<in> set (claim_refs ob)) (obligations c)"

definition validate_assurance_readiness :: "AssuranceCase \<Rightarrow> string list \<Rightarrow> claim_statuses \<Rightarrow> Diagnostic list" where
  "validate_assurance_readiness c blocker_ids statuses =
     (let r = readiness c; blockers = blocker_refs r; base = ''assurance_case.'' @ case_id c in
      (case ra_verdict r of
         RvBlocked \<Rightarrow>
           if blockers = [] then
             [diag_error AssuranceReadinessInconsistent (base @ ''.readiness.blocker_refs'')
                ''a blocked readiness verdict requires at least one blocker ref'']
           else []
       | RvReady \<Rightarrow>
           if blockers \<noteq> [] then
             [diag_error AssuranceReadinessInconsistent (base @ ''.readiness.blocker_refs'') ''a ready verdict cannot carry blocker refs'']
           else []) @
      concat (map (\<lambda>b. if b \<notin> set blocker_ids then
          [diag_error AssuranceReadinessInconsistent (base @ ''.readiness.blocker_refs'')
             (''blocker ref '' @ [CHR 0x27] @ b @ [CHR 0x27] @ '' does not resolve'')]
        else []) blockers) @
      concat (map (\<lambda>ob. if obligation_due (ra_target r) ob \<and> ob_status ob \<noteq> ObSatisfied then
          validate_due_assurance_blocker (ra_verdict r) blockers (ob_id ob) (base @ ''.obligations.'' @ ob_id ob @ ''.status'')
        else []) (obligations c)) @
      concat (map (\<lambda>dq. if request_due (ra_target r) dq then
          validate_due_assurance_blocker (ra_verdict r) blockers (dq_id dq) (base @ ''.decision_requests.'' @ dq_id dq @ ''.blocking'')
        else []) (decision_requests c)) @
      concat (map (\<lambda>gap. if gap_due (ra_target r) gap then
          validate_due_assurance_blocker (ra_verdict r) blockers (cg_id gap) (base @ ''.capability_gaps.'' @ cg_id gap @ ''.blocking'')
        else []) (capability_gaps c)) @
      (if ra_verdict r = RvReady \<and> list_ex (unresolved_critical c statuses) (case_claims c) then
         [diag_error AssuranceReadinessInconsistent (base @ ''.readiness.verdict'')
            ''ready verdict cannot depend on an unresolved critical claim'']
       else []))"

definition require_collection :: "string \<Rightarrow> string \<Rightarrow> string \<Rightarrow> 'a list \<Rightarrow> Diagnostic list" where
  "require_collection cid name message xs =
     (if xs = [] then [diag_error AssuranceRequiredCollectionEmpty (''assurance_case.'' @ cid @ ''.'' @ name) message] else [])"

definition validate_assurance_case :: "AssuranceCaseDocument \<Rightarrow> Diagnostic list" where
  "validate_assurance_case document =
     (let c = assurance_case document; cid = case_id c;
          statuses = claim_statuses_of (case_claims c);
          start =
            (if acd_schema_version document \<noteq> ASSURANCE_CASE_SCHEMA_VERSION then
               [diag_error AssuranceUnsupportedSchemaVersion ''schema_version''
                  (''unsupported Assurance Case schema version '' @ [CHR 0x27] @ acd_schema_version document @ [CHR 0x27] @
                   ''; expected '' @ ASSURANCE_CASE_SCHEMA_VERSION)]
             else []) @
            require_collection cid ''obligations'' ''an Assurance Case must declare at least one obligation'' (obligations c) @
            require_collection cid ''claims'' ''an Assurance Case must declare at least one claim'' (case_claims c) @
            require_collection cid ''next_actions'' ''an Assurance Case must declare at least one next action'' (next_actions c);
          st0 = register_assurance_entity (ps_id (case_project_snapshot c)) ''assurance_case.project_snapshot.id''
                  (register_assurance_entity (ip_id (case_intent c)) ''assurance_case.intent.id''
                     (register_assurance_entity cid ''assurance_case.id'' ([], start)));
          st1 = fold (validate_claim cid) (case_claims c) st0;
          st2 = fold (validate_obligation cid statuses) (obligations c) st1;
          st3 = fold (validate_request cid) (decision_requests c) st2;
          st4 = fold (validate_gap cid statuses) (capability_gaps c) st3;
          (ranks, ids, ds) = validate_actions cid statuses (next_actions c) ([], st4);
          blocker_ids = map ac_id (case_claims c) @ map ob_id (obligations c) @ map dq_id (decision_requests c) @ map cg_id (capability_gaps c)
      in
        ds @
        (if ranks \<noteq> [] \<and> list_ex (\<lambda>rank. rank \<notin> set ranks) [1..<Suc (u32_saturating (length ranks))] then
           [diag_error AssuranceNextActionRankInvalid (''assurance_case.'' @ cid @ ''.next_actions'')
              ''next-action ranks must be contiguous from one'']
         else []) @
        validate_assurance_readiness c blocker_ids statuses)"

section \<open>What a pass over registered entities does\<close>

definition clean :: "registry \<Rightarrow> bool" where
  "clean st \<longleftrightarrow> \<not> has_errors (snd st)"

definition fresh :: "string list \<Rightarrow> string list \<Rightarrow> bool" where
  "fresh ids xs \<longleftrightarrow> distinct xs \<and> set xs \<inter> set ids = {} \<and> (\<forall>x \<in> set xs. \<not> is_blank x)"

lemma fresh_append: "fresh ids (xs @ ys) \<longleftrightarrow> fresh ids xs \<and> fresh (rev xs @ ids) ys"
  by (auto simp: fresh_def)

lemma fresh_Nil [simp]: "fresh ids []"
  by (simp add: fresh_def)

lemma clean_push: "clean (push_all ds st) \<longleftrightarrow> clean st \<and> \<not> has_errors ds" "fst (push_all ds st) = fst st"
  by (simp_all add: clean_def push_all_def errors_of split: prod.splits)

lemma clean_register:
  "clean (register_assurance_entity e p st) \<longleftrightarrow> clean st \<and> fresh (fst st) [e]"
  "clean (register_assurance_entity e p st) \<Longrightarrow> fst (register_assurance_entity e p st) = e # fst st"
  by (auto simp: clean_def register_assurance_entity_def fresh_def errors_of split: prod.splits if_splits)

text \<open>
  A step registers the identifiers of one entity and adds the errors of its other fields; the lemmas give
  the pass over a list.
\<close>

locale registering =
  fixes step :: "'a \<Rightarrow> registry \<Rightarrow> registry" and ids_of :: "'a \<Rightarrow> string list" and good :: "'a \<Rightarrow> bool"
  assumes step_clean: "clean (step x st) \<longleftrightarrow> clean st \<and> fresh (fst st) (ids_of x) \<and> good x"
    and step_ids: "clean (step x st) \<Longrightarrow> fst (step x st) = rev (ids_of x) @ fst st"
begin

lemma pass_clean:
  "clean (fold step xs st) \<longleftrightarrow> clean st \<and> fresh (fst st) (concat (map ids_of xs)) \<and> (\<forall>x \<in> set xs. good x)"
proof (induction xs arbitrary: st)
  case (Cons x xs)
  show ?case
  proof (cases "clean (step x st)")
    case True
    then show ?thesis using step_clean [of x st] step_ids [of x st] by (auto simp: Cons fresh_append)
  next
    case False
    then show ?thesis using step_clean [of x st] by (auto simp: Cons fresh_append)
  qed
qed simp

lemma pass_ids: "clean (fold step xs st) \<Longrightarrow> fst (fold step xs st) = rev (concat (map ids_of xs)) @ fst st"
proof (induction xs arbitrary: st)
  case (Cons x xs)
  then have "clean (step x st)" using pass_clean [of xs "step x st"] by simp
  then show ?case using Cons step_ids [of x st] by simp
qed simp

end

section \<open>The passes of the validator\<close>

definition claim_good :: "AssuranceClaim \<Rightarrow> bool" where
  "claim_good c \<longleftrightarrow>
     (ac_status c \<in> {AsSupported, AsVerified, AsDisproven} \<longrightarrow> ac_evidence_refs c \<noteq> []) \<and>
     (case ac_waiver c of
        None \<Rightarrow> ac_status c \<noteq> AsWaived
      | Some w \<Rightarrow> ac_status c = AsWaived \<and> \<not> is_blank (authorized_by w) \<and> \<not> is_blank (aw_reason w) \<and> aw_consequences w \<noteq> [])"

definition refs_good :: "claim_statuses \<Rightarrow> string list \<Rightarrow> bool" where
  "refs_good statuses refs \<longleftrightarrow> refs \<noteq> [] \<and> (\<forall>r \<in> set refs. statuses r \<noteq> None)"

definition obligation_good :: "claim_statuses \<Rightarrow> Obligation \<Rightarrow> bool" where
  "obligation_good statuses ob \<longleftrightarrow>
     refs_good statuses (claim_refs ob) \<and>
     (ob_status ob = ObSatisfied \<longrightarrow> (\<forall>r \<in> set (claim_refs ob). \<forall>s. statuses r = Some s \<longrightarrow> satisfies_obligation s))"

definition request_good :: "DecisionRequest \<Rightarrow> bool" where
  "request_good dq \<longleftrightarrow> 2 \<le> length (dq_alternatives dq) \<and> dq_recommended_alternative_ref dq \<in> da_id ` set (dq_alternatives dq)"

definition gap_good :: "claim_statuses \<Rightarrow> CapabilityGap \<Rightarrow> bool" where
  "gap_good statuses gap \<longleftrightarrow> refs_good statuses (affected_claim_refs gap) \<and> cg_resolution_options gap \<noteq> []"

lemma claim_refs_errors [errors_of]: "has_errors (validate_assurance_claim_refs statuses refs path) \<longleftrightarrow> \<not> refs_good statuses refs"
  by (auto simp: validate_assurance_claim_refs_def refs_good_def errors_of has_errors_concat)

lemma claim_waiver_errors [errors_of]:
  "has_errors (validate_claim_waiver path c) \<longleftrightarrow>
     \<not> (case ac_waiver c of
          None \<Rightarrow> ac_status c \<noteq> AsWaived
        | Some w \<Rightarrow> ac_status c = AsWaived \<and> \<not> is_blank (authorized_by w) \<and> \<not> is_blank (aw_reason w) \<and> aw_consequences w \<noteq> [])"
  by (cases "ac_status c"; cases "ac_waiver c") (simp_all add: validate_claim_waiver_def errors_of)

interpretation heads_pass: registering "\<lambda>(e, p). register_assurance_entity e p" "\<lambda>(e, p). [e]" "\<lambda>_. True"
  by unfold_locales (auto simp: clean_register)

interpretation claims_pass: registering "validate_claim cid" "\<lambda>c. [ac_id c]" claim_good for cid
  by unfold_locales (auto simp: validate_claim_def Let_def clean_push clean_register errors_of claim_good_def)

interpretation obligations_pass: registering "validate_obligation cid statuses" "\<lambda>ob. [ob_id ob]" "obligation_good statuses" for cid statuses
proof unfold_locales
  fix ob :: Obligation and st
  let ?bad = "\<lambda>p. has_errors (concat (map (\<lambda>r. if statuses r = None then
      [diag_error AssuranceDanglingClaimRef p (''claim ref '' @ [CHR 0x27] @ r @ [CHR 0x27] @ '' does not resolve'')] else []) (claim_refs ob)))"
  have b: "?bad p \<longleftrightarrow> (\<exists>r \<in> set (claim_refs ob). statuses r = None)" for p
    unfolding has_errors_concat by (auto simp: errors_of)
  have s: "list_all (\<lambda>r. case statuses r of Some s \<Rightarrow> satisfies_obligation s | None \<Rightarrow> False) (claim_refs ob) \<longleftrightarrow>
    (\<forall>r \<in> set (claim_refs ob). \<exists>s. statuses r = Some s \<and> satisfies_obligation s)"
    by (auto simp: list_all_iff split: option.splits)
  have t: "(\<forall>r \<in> set (claim_refs ob). statuses r \<noteq> None) \<Longrightarrow>
    (\<forall>r \<in> set (claim_refs ob). \<exists>s. statuses r = Some s \<and> satisfies_obligation s) \<longleftrightarrow>
    (\<forall>r \<in> set (claim_refs ob). \<forall>s. statuses r = Some s \<longrightarrow> satisfies_obligation s)" by fastforce
  show "clean (validate_obligation cid statuses ob st) \<longleftrightarrow> clean st \<and> fresh (fst st) [ob_id ob] \<and> obligation_good statuses ob"
    unfolding validate_obligation_def Let_def clean_push clean_register has_errors_simps(2) has_errors_if b s obligation_good_def refs_good_def
    using t by (cases "\<forall>r \<in> set (claim_refs ob). statuses r \<noteq> None") auto
  show "clean (validate_obligation cid statuses ob st) \<Longrightarrow> fst (validate_obligation cid statuses ob st) = rev [ob_id ob] @ fst st"
    by (auto simp: validate_obligation_def Let_def clean_push clean_register)
qed

interpretation alternatives_pass: registering "\<lambda>a :: DecisionAlternative. register_assurance_entity (da_id a) (path @ da_id a)" "\<lambda>a. [da_id a]" "\<lambda>_. True" for path
  by unfold_locales (auto simp: clean_register)

lemma register_with_alternatives:
  fixes alts :: "DecisionAlternative list"
  defines "st' e p q st \<equiv> fold (\<lambda>a. register_assurance_entity (da_id a) (q @ da_id a)) alts (register_assurance_entity e p st)"
  shows "clean (st' e p q st) \<longleftrightarrow> clean st \<and> fresh (fst st) (e # map da_id alts)"
    "clean (st' e p q st) \<Longrightarrow> fst (st' e p q st) = rev (e # map da_id alts) @ fst st"
proof -
  let ?reg = "register_assurance_entity e p st"
  have c: "concat (map (\<lambda>a. [da_id a]) alts) = map da_id alts" by (induction alts) simp_all
  have a: "clean (st' e p q st) \<longleftrightarrow> clean ?reg \<and> fresh (fst ?reg) (map da_id alts)"
    "clean (st' e p q st) \<Longrightarrow> fst (st' e p q st) = rev (map da_id alts) @ fst ?reg"
    using alternatives_pass.pass_clean [of q alts ?reg] alternatives_pass.pass_ids [of q alts ?reg]
    unfolding c st'_def by blast+
  have f: "fresh (fst st) (e # map da_id alts) \<longleftrightarrow> fresh (fst st) [e] \<and> fresh (e # fst st) (map da_id alts)"
    using fresh_append [of "fst st" "[e]" "map da_id alts"] by simp
  show "clean (st' e p q st) \<longleftrightarrow> clean st \<and> fresh (fst st) (e # map da_id alts)"
    unfolding a(1) f using clean_register [of e p st] by auto
  show "clean (st' e p q st) \<Longrightarrow> fst (st' e p q st) = rev (e # map da_id alts) @ fst st"
    using a clean_register(2) [of e p st] by auto
qed

interpretation requests_pass: registering "validate_request cid" "\<lambda>dq. dq_id dq # map da_id (dq_alternatives dq)" request_good for cid
proof unfold_locales
  fix dq :: DecisionRequest and st
  have q: "(\<lambda>a. register_assurance_entity (da_id a) (p @ ''.alternatives.'' @ da_id a)) =
    (\<lambda>a. register_assurance_entity (da_id a) ((p @ ''.alternatives.'') @ da_id a))" for p by simp
  have g: "(length (dq_alternatives dq) < 2 \<or> dq_recommended_alternative_ref dq \<notin> da_id ` set (dq_alternatives dq)) \<longleftrightarrow> \<not> request_good dq"
    by (auto simp: request_good_def)
  show "clean (validate_request cid dq st) \<longleftrightarrow> clean st \<and> fresh (fst st) (dq_id dq # map da_id (dq_alternatives dq)) \<and> request_good dq"
    unfolding validate_request_def Let_def clean_push has_errors_if q register_with_alternatives(1) g by blast
  assume "clean (validate_request cid dq st)"
  then show "fst (validate_request cid dq st) = rev (dq_id dq # map da_id (dq_alternatives dq)) @ fst st"
    unfolding validate_request_def Let_def clean_push q using register_with_alternatives(2) by blast
qed

interpretation gaps_pass: registering "validate_gap cid statuses" "\<lambda>gap. [cg_id gap]" "gap_good statuses" for cid statuses
  by unfold_locales (auto simp: validate_gap_def Let_def clean_push clean_register errors_of gap_good_def)

lemma validate_actions_result:
  "validate_actions cid statuses acts (ranks, st) = (ranks', st') \<Longrightarrow>
     (clean st' \<longleftrightarrow> clean st \<and> fresh (fst st) (map na_id acts) \<and> (\<forall>act \<in> set acts. refs_good statuses (addresses_claim_refs act)) \<and>
        distinct (map na_rank acts) \<and> (\<forall>act \<in> set acts. na_rank act \<noteq> 0 \<and> na_rank act \<notin> set ranks)) \<and>
     (clean st' \<longrightarrow> ranks' = rev (map na_rank acts) @ ranks)"
proof (induction acts arbitrary: ranks st)
  case (Cons act acts)
  define ranks1 where "ranks1 = (if na_rank act = 0 \<or> na_rank act \<in> set ranks then ranks else na_rank act # ranks)"
  obtain path ds where step: "validate_actions cid statuses (act # acts) (ranks, st) =
      validate_actions cid statuses acts (ranks1, push_all ds (register_assurance_entity (na_id act) path st))"
    and ds: "has_errors ds \<longleftrightarrow> \<not> (refs_good statuses (addresses_claim_refs act) \<and> na_rank act \<noteq> 0 \<and> na_rank act \<notin> set ranks)"
  proof
    let ?p = "''assurance_case.'' @ cid @ ''.next_actions.'' @ na_id act"
    let ?ds = "validate_assurance_claim_refs statuses (addresses_claim_refs act) (?p @ ''.addresses_claim_refs'') @
        (if na_rank act = 0 \<or> na_rank act \<in> set ranks then
           [diag_error AssuranceNextActionRankInvalid (?p @ ''.rank'') ''next-action ranks must be unique and greater than zero'']
         else [])"
    show "validate_actions cid statuses (act # acts) (ranks, st) =
        validate_actions cid statuses acts (ranks1, push_all ?ds (register_assurance_entity (na_id act) ?p st))"
      unfolding validate_actions.simps(2) Let_def ranks1_def ..
    show "has_errors ?ds \<longleftrightarrow> \<not> (refs_good statuses (addresses_claim_refs act) \<and> na_rank act \<noteq> 0 \<and> na_rank act \<notin> set ranks)"
      unfolding has_errors_simps(2) has_errors_if claim_refs_errors by simp
  qed
  define st1 where "st1 = push_all ds (register_assurance_entity (na_id act) path st)"
  have c1: "clean st1 \<longleftrightarrow> clean st \<and> fresh (fst st) [na_id act] \<and> \<not> has_errors ds" "clean st1 \<Longrightarrow> fst st1 = na_id act # fst st"
    using clean_register [of "na_id act" path st] by (auto simp: st1_def clean_push)
  have f: "fresh (fst st) (map na_id (act # acts)) \<longleftrightarrow> fresh (fst st) [na_id act] \<and> fresh (na_id act # fst st) (map na_id acts)"
    using fresh_append [of "fst st" "[na_id act]" "map na_id acts"] by simp
  have r1: "na_rank act \<noteq> 0 \<and> na_rank act \<notin> set ranks \<Longrightarrow> ranks1 = na_rank act # ranks" by (auto simp: ranks1_def)
  have eq: "validate_actions cid statuses acts (ranks1, st1) = (ranks', st')" using Cons.prems unfolding step st1_def .
  show ?case
  proof (cases "clean st1")
    case True
    then show ?thesis using Cons.IH [OF eq] c1 f ds r1 by (auto simp: image_iff)
  next
    case False
    then show ?thesis using Cons.IH [OF eq] c1 f ds by auto
  qed
qed auto

definition readiness_good :: "AssuranceCase \<Rightarrow> bool" where
  "readiness_good c \<longleftrightarrow>
     (let r = readiness c; statuses = claim_statuses_of (case_claims c) in
      (ra_verdict r = RvReady \<longleftrightarrow> blocker_refs r = []) \<and>
      set (blocker_refs r) \<subseteq>
        ac_id ` set (case_claims c) \<union> ob_id ` set (obligations c) \<union> dq_id ` set (decision_requests c) \<union> cg_id ` set (capability_gaps c) \<and>
      (\<forall>ob \<in> set (obligations c). obligation_due (ra_target r) ob \<and> ob_status ob \<noteq> ObSatisfied \<longrightarrow> ob_id ob \<in> set (blocker_refs r)) \<and>
      (\<forall>dq \<in> set (decision_requests c). request_due (ra_target r) dq \<longrightarrow> dq_id dq \<in> set (blocker_refs r)) \<and>
      (\<forall>gap \<in> set (capability_gaps c). gap_due (ra_target r) gap \<longrightarrow> cg_id gap \<in> set (blocker_refs r)) \<and>
      (ra_verdict r = RvReady \<longrightarrow> (\<forall>cl \<in> set (case_claims c). \<not> unresolved_critical c statuses cl)))"

lemma due_blocker_errors: "has_errors (validate_due_assurance_blocker v bs e p) \<longleftrightarrow> v = RvReady \<or> e \<notin> set bs"
  unfolding validate_due_assurance_blocker_def by (simp add: errors_of)

lemma concat_if_errors: "has_errors (concat (map (\<lambda>x. if P x then f x else []) xs)) \<longleftrightarrow> (\<exists>x \<in> set xs. P x \<and> has_errors (f x))"
  unfolding has_errors_concat by (auto simp: errors_of)

lemma verdict_errors:
  "has_errors (case v of RvBlocked \<Rightarrow> if b then [diag_error c1 p1 m1] else [] | RvReady \<Rightarrow> if \<not> b then [diag_error c2 p2 m2] else []) \<longleftrightarrow>
     \<not> (v = RvReady \<longleftrightarrow> b)"
  by (cases v) (simp_all add: errors_of)

lemma readiness_errors:
  "has_errors (validate_assurance_readiness c
      (map ac_id (case_claims c) @ map ob_id (obligations c) @ map dq_id (decision_requests c) @ map cg_id (capability_gaps c))
      (claim_statuses_of (case_claims c))) \<longleftrightarrow> \<not> readiness_good c"
proof -
  have one: "has_errors [diag_error k p m] \<longleftrightarrow> True" for k p m by (simp add: errors_of)
  have r: "ra_verdict (readiness c) = RvReady \<longleftrightarrow> blocker_refs (readiness c) = [] \<Longrightarrow>
     has_errors (validate_due_assurance_blocker (ra_verdict (readiness c)) (blocker_refs (readiness c)) e p) \<longleftrightarrow>
     e \<notin> set (blocker_refs (readiness c))" for e p
    by (cases "ra_verdict (readiness c)") (auto simp: due_blocker_errors)
  show ?thesis
  proof (cases "ra_verdict (readiness c) = RvReady \<longleftrightarrow> blocker_refs (readiness c) = []")
    case True
    show ?thesis
      unfolding validate_assurance_readiness_def readiness_good_def Let_def has_errors_simps(2) verdict_errors concat_if_errors has_errors_if one
        r [OF True] list_ex_iff set_append set_map subset_iff
      by (auto simp: True)
  next
    case False
    then show ?thesis unfolding validate_assurance_readiness_def readiness_good_def Let_def has_errors_simps(2) verdict_errors by blast
  qed
qed

text \<open>All identifiers of a case, in the order in which the validator registers them.\<close>

definition entity_ids :: "AssuranceCase \<Rightarrow> string list" where
  "entity_ids c =
     [case_id c, ip_id (case_intent c), ps_id (case_project_snapshot c)] @
     map ac_id (case_claims c) @ map ob_id (obligations c) @
     concat (map (\<lambda>dq. dq_id dq # map da_id (dq_alternatives dq)) (decision_requests c)) @
     map cg_id (capability_gaps c) @ map na_id (next_actions c)"

definition content_good :: "AssuranceCase \<Rightarrow> bool" where
  "content_good c \<longleftrightarrow>
     (let statuses = claim_statuses_of (case_claims c) in
      obligations c \<noteq> [] \<and> case_claims c \<noteq> [] \<and> next_actions c \<noteq> [] \<and>
      (\<forall>cl \<in> set (case_claims c). claim_good cl) \<and> (\<forall>ob \<in> set (obligations c). obligation_good statuses ob) \<and>
      (\<forall>dq \<in> set (decision_requests c). request_good dq) \<and> (\<forall>gap \<in> set (capability_gaps c). gap_good statuses gap) \<and>
      (\<forall>act \<in> set (next_actions c). refs_good statuses (addresses_claim_refs act)))"

definition ranks_good :: "NextAction list \<Rightarrow> bool" where
  "ranks_good acts \<longleftrightarrow>
     distinct (map na_rank acts) \<and> 0 \<notin> na_rank ` set acts \<and> {1..u32_saturating (length acts)} \<subseteq> na_rank ` set acts"

lemma fresh_Cons: "fresh ids (x # xs) \<longleftrightarrow> fresh ids [x] \<and> fresh (x # ids) xs"
  using fresh_append [of ids "[x]" xs] by simp

lemma concat_singletons: "concat (map (\<lambda>x. [f x]) xs) = map f xs"
  by (induction xs) simp_all

lemma require_collection_errors [errors_of]: "has_errors (require_collection cid name message xs) \<longleftrightarrow> xs = []"
  by (simp add: require_collection_def errors_of)

lemma registry_passes:
  fixes cid :: string and cls st0 statuses obs reqs gaps
  defines "st1 \<equiv> fold (validate_claim cid) cls st0" and "st4 \<equiv> \<lambda>st. fold (validate_gap cid statuses) gaps
      (fold (validate_request cid) reqs (fold (validate_obligation cid statuses) obs st))"
  shows "clean (st4 st1) \<longleftrightarrow> clean st0 \<and>
      fresh (fst st0) (map ac_id cls @ map ob_id obs @ concat (map (\<lambda>dq. dq_id dq # map da_id (dq_alternatives dq)) reqs) @ map cg_id gaps) \<and>
      (\<forall>cl \<in> set cls. claim_good cl) \<and> (\<forall>ob \<in> set obs. obligation_good statuses ob) \<and>
      (\<forall>dq \<in> set reqs. request_good dq) \<and> (\<forall>gap \<in> set gaps. gap_good statuses gap)" (is ?clean)
    and "clean (st4 st1) \<Longrightarrow> fst (st4 st1) =
      rev (map ac_id cls @ map ob_id obs @ concat (map (\<lambda>dq. dq_id dq # map da_id (dq_alternatives dq)) reqs) @ map cg_id gaps) @ fst st0"
      (is "_ \<Longrightarrow> ?ids")
proof -
  define st2 where "st2 = fold (validate_obligation cid statuses) obs st1"
  define st3 where "st3 = fold (validate_request cid) reqs st2"
  have st4: "st4 st1 = fold (validate_gap cid statuses) gaps st3" by (simp add: st4_def st3_def st2_def)
  note c1 = claims_pass.pass_clean [of cid cls st0, folded st1_def, unfolded concat_singletons]
    and i1 = claims_pass.pass_ids [of cid cls st0, folded st1_def, unfolded concat_singletons]
    and c2 = obligations_pass.pass_clean [of cid statuses obs st1, folded st2_def, unfolded concat_singletons]
    and i2 = obligations_pass.pass_ids [of cid statuses obs st1, folded st2_def, unfolded concat_singletons]
    and c3 = requests_pass.pass_clean [of cid reqs st2, folded st3_def]
    and i3 = requests_pass.pass_ids [of cid reqs st2, folded st3_def]
    and c4 = gaps_pass.pass_clean [of cid statuses gaps st3, folded st4, unfolded concat_singletons]
    and i4 = gaps_pass.pass_ids [of cid statuses gaps st3, folded st4, unfolded concat_singletons]
  show ?clean
  proof (cases "clean st1 \<and> clean st2 \<and> clean st3")
    case True
    then show ?thesis using c1 c2 c3 c4 i1 i2 i3 unfolding fresh_append by (auto simp: rev_append)
  next
    case False
    then show ?thesis using c1 c2 c3 c4 i1 i2 unfolding fresh_append by (cases "clean st1"; cases "clean st2") auto
  qed
  show "clean (st4 st1) \<Longrightarrow> ?ids" using c1 c2 c3 c4 i1 i2 i3 i4 by simp
qed

lemma ranks_contiguous:
  "acts \<noteq> [] \<Longrightarrow>
     \<not> (rev (map na_rank acts) \<noteq> [] \<and>
        list_ex (\<lambda>rank. rank \<notin> set (rev (map na_rank acts))) [1..<Suc (u32_saturating (length (rev (map na_rank acts))))]) \<longleftrightarrow>
     {1..u32_saturating (length acts)} \<subseteq> na_rank ` set acts"
  by (auto simp: list_ex_iff atLeastLessThanSuc_atLeastAtMost simp del: upt_Suc)

lemma start_errors:
  "has_errors
     ((if acd_schema_version document \<noteq> ASSURANCE_CASE_SCHEMA_VERSION then [diag_error k p m] else []) @
      require_collection cid n1 m1 xs @ require_collection cid n2 m2 ys @ require_collection cid n3 m3 zs) \<longleftrightarrow>
   \<not> (acd_schema_version document = ''0.1'' \<and> xs \<noteq> [] \<and> ys \<noteq> [] \<and> zs \<noteq> [])"
  unfolding has_errors_simps(2) has_errors_if require_collection_errors ASSURANCE_CASE_SCHEMA_VERSION_def by blast

text \<open>
  The validator accepts a case exactly when its identifiers are distinct and none is blank, its
  claims, obligations, requests, gaps and actions are sound, the ranks of the actions are one up to
  their number, and the readiness verdict agrees with what is due.
\<close>

lemma validate_assurance_case_exact:
  "\<not> has_errors (validate_assurance_case document) \<longleftrightarrow>
     acd_schema_version document = ''0.1'' \<and> fresh [] (entity_ids (assurance_case document)) \<and>
     content_good (assurance_case document) \<and> ranks_good (next_actions (assurance_case document)) \<and>
     readiness_good (assurance_case document)"
proof -
  define c where "c = assurance_case document"
  define statuses where "statuses = claim_statuses_of (case_claims c)"
  define start where "start =
            (if acd_schema_version document \<noteq> ASSURANCE_CASE_SCHEMA_VERSION then
               [diag_error AssuranceUnsupportedSchemaVersion ''schema_version''
                  (''unsupported Assurance Case schema version '' @ [CHR 0x27] @ acd_schema_version document @ [CHR 0x27] @
                   ''; expected '' @ ASSURANCE_CASE_SCHEMA_VERSION)]
             else []) @
            require_collection (case_id c) ''obligations'' ''an Assurance Case must declare at least one obligation'' (obligations c) @
            require_collection (case_id c) ''claims'' ''an Assurance Case must declare at least one claim'' (case_claims c) @
            require_collection (case_id c) ''next_actions'' ''an Assurance Case must declare at least one next action'' (next_actions c)"
  define st0 where "st0 = register_assurance_entity (ps_id (case_project_snapshot c)) ''assurance_case.project_snapshot.id''
      (register_assurance_entity (ip_id (case_intent c)) ''assurance_case.intent.id''
         (register_assurance_entity (case_id c) ''assurance_case.id'' ([], start)))"
  define st4 where "st4 = fold (validate_gap (case_id c) statuses) (capability_gaps c) (fold (validate_request (case_id c)) (decision_requests c)
      (fold (validate_obligation (case_id c) statuses) (obligations c) (fold (validate_claim (case_id c)) (case_claims c) st0)))"
  obtain ranks ids ds where acts: "validate_actions (case_id c) statuses (next_actions c) ([], st4) = (ranks, ids, ds)"
    by (metis prod_cases3)
  let ?ids3 = "[case_id c, ip_id (case_intent c), ps_id (case_project_snapshot c)]"
  have s: "clean ([], start) \<longleftrightarrow> acd_schema_version document = ''0.1'' \<and> obligations c \<noteq> [] \<and> case_claims c \<noteq> [] \<and> next_actions c \<noteq> []"
    unfolding clean_def snd_conv start_def start_errors by blast
  have c0: "clean st0 \<longleftrightarrow> clean ([], start) \<and> fresh [] ?ids3" "clean st0 \<Longrightarrow> fst st0 = rev ?ids3"
    using heads_pass.pass_clean [of "[(case_id c, ''assurance_case.id''), (ip_id (case_intent c), ''assurance_case.intent.id''),
        (ps_id (case_project_snapshot c), ''assurance_case.project_snapshot.id'')]" "([], start)"]
      heads_pass.pass_ids [of "[(case_id c, ''assurance_case.id''), (ip_id (case_intent c), ''assurance_case.intent.id''),
        (ps_id (case_project_snapshot c), ''assurance_case.project_snapshot.id'')]" "([], start)"]
    by (simp_all add: st0_def)
  note p = registry_passes [of "case_id c" statuses "capability_gaps c" "decision_requests c" "obligations c" "case_claims c" st0, folded st4_def]
  note a = validate_actions_result [OF acts]
  have v: "has_errors (validate_assurance_case document) \<longleftrightarrow> \<not> clean (ids, ds) \<or>
      (ranks \<noteq> [] \<and> list_ex (\<lambda>rank. rank \<notin> set ranks) [1..<Suc (u32_saturating (length ranks))]) \<or> \<not> readiness_good c"
    unfolding validate_assurance_case_def Let_def c_def [symmetric] statuses_def [symmetric] start_def [symmetric]
      st0_def [symmetric] st4_def [symmetric] acts prod.case has_errors_simps(2) has_errors_if
      readiness_errors [of c, folded statuses_def] clean_def snd_conv by blast
  let ?mid = "map ac_id (case_claims c) @ map ob_id (obligations c) @
      concat (map (\<lambda>dq. dq_id dq # map da_id (dq_alternatives dq)) (decision_requests c)) @ map cg_id (capability_gaps c)"
  have "entity_ids c = ?ids3 @ ?mid @ map na_id (next_actions c)" by (simp add: entity_ids_def)
  then have f: "fresh [] (entity_ids c) \<longleftrightarrow> fresh [] ?ids3 \<and> fresh (rev ?ids3) ?mid \<and> fresh (rev ?mid @ rev ?ids3) (map na_id (next_actions c))"
    using fresh_append [of "[]" ?ids3 "?mid @ map na_id (next_actions c)"] fresh_append [of "rev ?ids3" ?mid "map na_id (next_actions c)"] by simp
  have e: "clean (ids, ds) \<longleftrightarrow> acd_schema_version document = ''0.1'' \<and> fresh [] (entity_ids c) \<and> content_good c \<and>
      distinct (map na_rank (next_actions c)) \<and> 0 \<notin> na_rank ` set (next_actions c)"
  proof (cases "clean st4")
    case True
    then have "clean st0" using p(1) by blast
    then have "fst st0 = rev ?ids3" "fst st4 = rev ?mid @ rev ?ids3" using c0(2) p(2) [OF True] by auto
    then show ?thesis
      using a s c0(1) p(1) True f unfolding content_good_def statuses_def [symmetric] Let_def by auto
  next
    case False
    then have "\<not> clean (ids, ds)" using a by blast
    moreover have "acd_schema_version document = ''0.1'' \<Longrightarrow> fresh [] (entity_ids c) \<Longrightarrow> content_good c \<Longrightarrow> clean st4"
      using s c0 p(1) f unfolding content_good_def statuses_def [symmetric] Let_def by auto
    ultimately show ?thesis using False by blast
  qed
  have "clean (ids, ds) \<Longrightarrow> ranks = rev (map na_rank (next_actions c)) \<and> next_actions c \<noteq> []" using a e unfolding content_good_def Let_def by auto
  then show ?thesis
    unfolding v c_def [symmetric] ranks_good_def using e ranks_contiguous [of "next_actions c"] by blast
qed

end
