(* ===== verification/Obligation_Engine.thy ===== *)
theory Obligation_Engine
  imports Assurance_Case "HOL-Library.Product_Lexorder"
begin

text \<open>
  The obligation engine, \<open>src/crates/forge-core-decisions/src/obligation_engine.rs\<close>: validation of
  what a host agent proposes, and the derivation of an assurance case from it.  The vectors the code
  pushes to are the lists of a record; each step of the derivation gives what it pushes, in the
  order of the code, and the parts are appended.

  The lemmas show that the engine and the validator of assurance cases agree but for identifiers, and
  what a readiness verdict means for the observations of the host.
\<close>

section \<open>Input\<close>

datatype RiskLevel = RiskLow | RiskMedium | RiskHigh | RiskCritical

definition requires_early_independent_challenge :: "RiskLevel \<Rightarrow> bool" where
  "requires_early_independent_challenge r \<longleftrightarrow> r = RiskHigh \<or> r = RiskCritical"

datatype LensApplicability = LensApplicable | LensNotApplicable | LensUnknown

record LensObservation =
  lo_lens :: UniversalAssuranceLens
  applicability :: LensApplicability
  lo_status :: AssuranceClaimStatus
  lo_evidence_refs :: "string list"
  lo_waiver :: "AssuranceWaiver option"
  lo_rationale :: "string option"

datatype EpistemicRiskSignal =
  NovelDomain | MethodGap | SingleView | ArtifactOnlyProgress | LateIntegration | UnverifiedCapability | WeakProvenance | LongFeedbackGap

datatype CapabilityAvailability = CapAvailable | CapProvisional | CapMissing

record CapabilityObservation =
  co_id :: string
  co_kind :: CapabilityGapKind
  availability :: CapabilityAvailability
  co_description :: string
  co_affected_lenses :: "UniversalAssuranceLens list"
  co_resolution_options :: "string list"

record DecisionNeed =
  dn_id :: string
  dn_question :: string
  dn_reason :: HumanDecisionReason
  dn_alternatives :: "DecisionAlternative list"
  dn_recommended_alternative_ref :: string
  dn_affected_lenses :: "UniversalAssuranceLens list"
  dn_blocking :: bool
  dn_blocks_before :: ReadinessTarget

record ObligationEngineInput =
  oi_case_id :: string
  oi_intent :: IntentProposal
  oi_project_snapshot :: ProjectSnapshot
  oi_target :: ReadinessTarget
  risk_level :: RiskLevel
  lens_observations :: "LensObservation list"
  epistemic_signals :: "EpistemicRiskSignal list"
  capability_observations :: "CapabilityObservation list"
  decision_needs :: "DecisionNeed list"

record ObligationEngineInputDocument =
  oid_schema_version :: string
  obligation_engine_input :: ObligationEngineInput

definition OBLIGATION_ENGINE_INPUT_SCHEMA_VERSION :: string where
  "OBLIGATION_ENGINE_INPUT_SCHEMA_VERSION = ''0.1''"

datatype ObligationEngineIssue =
  UnsupportedSchemaVersion string
| EmptyCaseId
| EmptyDesiredOutcome
| DuplicateLensObservation UniversalAssuranceLens
| IntendedOutcomeNotApplicable
| NotApplicableWithoutRationale UniversalAssuranceLens
| EvidenceMissing UniversalAssuranceLens
| WaiverInconsistent UniversalAssuranceLens
| DuplicateEpistemicSignal EpistemicRiskSignal
| EpistemicSignalConflictsWithObservation EpistemicRiskSignal UniversalAssuranceLens
| EmptyCapabilityId
| DuplicateCapabilityId string
| CapabilityResolutionMissing string
| CapabilityAffectedLensMissing string
| EmptyDecisionId
| DuplicateDecisionId string
| DecisionAlternativesInvalid string
| DecisionAffectedLensMissing string

section \<open>Validation of the input\<close>

definition lens_is_not_applicable :: "UniversalAssuranceLens \<Rightarrow> LensObservation list \<Rightarrow> bool" where
  "lens_is_not_applicable lens obs \<longleftrightarrow> list_ex (\<lambda>x. lo_lens x = lens \<and> applicability x = LensNotApplicable) obs"

definition waiver_issue :: "LensObservation \<Rightarrow> ObligationEngineIssue list" where
  "waiver_issue x =
     (case (lo_status x, lo_waiver x) of
        (AsWaived, Some w) \<Rightarrow>
          if \<not> is_blank (authorized_by w) \<and> \<not> is_blank (aw_reason w) \<and> aw_consequences w \<noteq> [] then []
          else [WaiverInconsistent (lo_lens x)]
      | (AsWaived, None) \<Rightarrow> [WaiverInconsistent (lo_lens x)]
      | (_, Some _) \<Rightarrow> [WaiverInconsistent (lo_lens x)]
      | (_, None) \<Rightarrow> [])"

fun observation_issues :: "UniversalAssuranceLens list \<Rightarrow> LensObservation list \<Rightarrow> ObligationEngineIssue list" where
  "observation_issues seen [] = []"
| "observation_issues seen (x # xs) =
     (if lo_lens x \<in> set seen then [DuplicateLensObservation (lo_lens x)] else []) @
     (if lo_lens x = IntendedOutcome \<and> applicability x = LensNotApplicable then [IntendedOutcomeNotApplicable] else []) @
     (if applicability x = LensNotApplicable \<and> (case lo_rationale x of None \<Rightarrow> True | Some r \<Rightarrow> r = []) then
        [NotApplicableWithoutRationale (lo_lens x)]
      else []) @
     (if lo_status x \<in> {AsSupported, AsVerified, AsDisproven} \<and> lo_evidence_refs x = [] then [EvidenceMissing (lo_lens x)] else []) @
     waiver_issue x @ observation_issues (lo_lens x # seen) xs"

fun signal_issues :: "EpistemicRiskSignal list \<Rightarrow> EpistemicRiskSignal list \<Rightarrow> ObligationEngineIssue list" where
  "signal_issues seen [] = []"
| "signal_issues seen (s # ss) = (if s \<in> set seen then [DuplicateEpistemicSignal s] else []) @ signal_issues (s # seen) ss"

definition conflict_issues :: "ObligationEngineInput \<Rightarrow> ObligationEngineIssue list" where
  "conflict_issues input =
     concat (map (\<lambda>s.
       if s \<in> set (epistemic_signals input) \<and>
          list_ex (\<lambda>x. lo_lens x = EvidenceRepresentativeness \<and> satisfies_obligation (lo_status x)) (lens_observations input)
       then [EpistemicSignalConflictsWithObservation s EvidenceRepresentativeness] else [])
       [ArtifactOnlyProgress, LateIntegration, LongFeedbackGap])"

fun capability_issues :: "LensObservation list \<Rightarrow> string list \<Rightarrow> CapabilityObservation list \<Rightarrow> ObligationEngineIssue list" where
  "capability_issues obs seen [] = []"
| "capability_issues obs seen (c # cs) =
     (if is_blank (co_id c) then [EmptyCapabilityId]
      else if co_id c \<in> set seen then [DuplicateCapabilityId (co_id c)] else []) @
     (if availability c \<noteq> CapAvailable \<and> co_resolution_options c = [] then [CapabilityResolutionMissing (co_id c)] else []) @
     (if availability c \<noteq> CapAvailable \<and>
         (co_affected_lenses c = [] \<or> list_all (\<lambda>l. lens_is_not_applicable l obs) (co_affected_lenses c)) then
        [CapabilityAffectedLensMissing (co_id c)]
      else []) @
     capability_issues obs (if is_blank (co_id c) then seen else co_id c # seen) cs"

fun decision_issues :: "LensObservation list \<Rightarrow> string list \<Rightarrow> DecisionNeed list \<Rightarrow> ObligationEngineIssue list" where
  "decision_issues obs seen [] = []"
| "decision_issues obs seen (d # ds) =
     (if is_blank (dn_id d) then [EmptyDecisionId]
      else if dn_id d \<in> set seen then [DuplicateDecisionId (dn_id d)] else []) @
     (let alternatives = remdups (map da_id (dn_alternatives d)) in
      if length alternatives < 2 \<or> dn_recommended_alternative_ref d \<notin> set alternatives then [DecisionAlternativesInvalid (dn_id d)] else []) @
     (if dn_affected_lenses d = [] \<or> list_all (\<lambda>l. lens_is_not_applicable l obs) (dn_affected_lenses d) then
        [DecisionAffectedLensMissing (dn_id d)]
      else []) @
     decision_issues obs (if is_blank (dn_id d) then seen else dn_id d # seen) ds"

definition validate_input :: "ObligationEngineInputDocument \<Rightarrow> ObligationEngineIssue list" where
  "validate_input document =
     (let input = obligation_engine_input document in
      (if oid_schema_version document \<noteq> OBLIGATION_ENGINE_INPUT_SCHEMA_VERSION then
         [UnsupportedSchemaVersion (oid_schema_version document)]
       else []) @
      (if is_blank (oi_case_id input) then [EmptyCaseId] else []) @
      (if is_blank (desired_outcome (oi_intent input)) then [EmptyDesiredOutcome] else []) @
      observation_issues [] (lens_observations input) @ signal_issues [] (epistemic_signals input) @ conflict_issues input @
      capability_issues (lens_observations input) [] (capability_observations input) @
      decision_issues (lens_observations input) [] (decision_needs input))"

section \<open>Derivation\<close>

fun lens_statement :: "UniversalAssuranceLens \<Rightarrow> string" where
  "lens_statement IntendedOutcome = ''The integrated result solves the intended human problem.''"
| "lens_statement CriticalJourneys = ''Representative critical user journeys work end to end.''"
| "lens_statement SystemIntegrity = ''State, data, effects, authority, and recovery remain coherent.''"
| "lens_statement QualityAttributes = ''Applicable quality attributes meet explicit expectations.''"
| "lens_statement Operability = ''The result can be delivered, observed, diagnosed, updated, and recovered as applicable.''"
| "lens_statement LifecycleCoverage = ''Consequential before, during, and after-use lifecycle concerns are covered.''"
| "lens_statement RiskAndFailure = ''Unacceptable outcomes have credible prevention, detection, or recovery evidence.''"
| "lens_statement EvidenceRepresentativeness = ''Readiness evidence exercises the integrated result in a representative environment.''"

fun lens_action_kind :: "UniversalAssuranceLens \<Rightarrow> NextActionKind" where
  "lens_action_kind IntendedOutcome = NkResearch"
| "lens_action_kind LifecycleCoverage = NkResearch"
| "lens_action_kind RiskAndFailure = NkChallenge"
| "lens_action_kind _ = NkEvaluate"

definition lens_policy :: "UniversalAssuranceLens \<Rightarrow> RiskLevel \<Rightarrow> ObligationCriticality \<times> ReadinessTarget" where
  "lens_policy lens risk =
     (case lens of
        IntendedOutcome \<Rightarrow> (CrCritical, Execute)
      | LifecycleCoverage \<Rightarrow> (CrRequired, Execute)
      | RiskAndFailure \<Rightarrow> if requires_early_independent_challenge risk then (CrCritical, Execute) else (CrCritical, Release)
      | CriticalJourneys \<Rightarrow> (CrCritical, Release)
      | SystemIntegrity \<Rightarrow> (CrCritical, Release)
      | EvidenceRepresentativeness \<Rightarrow> (CrCritical, Release)
      | QualityAttributes \<Rightarrow> (CrRequired, Release)
      | Operability \<Rightarrow> (CrRequired, Release))"

fun obligation_status_for_claim :: "AssuranceClaimStatus \<Rightarrow> ObligationStatus" where
  "obligation_status_for_claim AsVerified = ObSatisfied"
| "obligation_status_for_claim AsWaived = ObSatisfied"
| "obligation_status_for_claim AsDisproven = ObBlocked"
| "obligation_status_for_claim _ = ObPending"

definition claim_id_for_lens :: "UniversalAssuranceLens \<Rightarrow> string" where
  "claim_id_for_lens lens = ''claim.assurance.'' @ lens_id lens"

definition obligation_id_for_lens :: "UniversalAssuranceLens \<Rightarrow> string" where
  "obligation_id_for_lens lens = ''obligation.assurance.'' @ lens_id lens"

definition action_priority :: "ObligationCriticality \<Rightarrow> ReadinessTarget \<Rightarrow> ReadinessTarget \<Rightarrow> nat" where
  "action_priority criticality before target =
     (if target_rank before \<le> target_rank target then
        (case criticality of CrCritical \<Rightarrow> 1 | CrRequired \<Rightarrow> 2 | CrAdvisory \<Rightarrow> 3)
      else 20 + target_rank before)"

record ActionDraft =
  ad_priority :: nat
  stable_key :: string
  ad_action :: NextAction

record derivation =
  dv_obligations :: "Obligation list"
  dv_claims :: "AssuranceClaim list"
  dv_gaps :: "CapabilityGap list"
  dv_requests :: "DecisionRequest list"
  dv_actions :: "ActionDraft list"

definition nothing :: derivation where
  "nothing = \<lparr>dv_obligations = [], dv_claims = [], dv_gaps = [], dv_requests = [], dv_actions = []\<rparr>"

definition followed_by :: "derivation \<Rightarrow> derivation \<Rightarrow> derivation" where
  "followed_by a b =
     \<lparr>dv_obligations = dv_obligations a @ dv_obligations b, dv_claims = dv_claims a @ dv_claims b, dv_gaps = dv_gaps a @ dv_gaps b,
      dv_requests = dv_requests a @ dv_requests b, dv_actions = dv_actions a @ dv_actions b\<rparr>"

definition all_of :: "derivation list \<Rightarrow> derivation" where
  "all_of ds = foldr followed_by ds nothing"

definition observation_map :: "LensObservation list \<Rightarrow> (UniversalAssuranceLens \<rightharpoonup> LensObservation)" where
  "observation_map obs = fold (\<lambda>x m. m(lo_lens x \<mapsto> x)) obs Map.empty"

definition ruled_out :: "(UniversalAssuranceLens \<rightharpoonup> LensObservation) \<Rightarrow> UniversalAssuranceLens \<Rightarrow> bool" where
  "ruled_out om lens \<longleftrightarrow> (case om lens of Some x \<Rightarrow> applicability x = LensNotApplicable | None \<Rightarrow> False)"

definition action_for_lens ::
  "UniversalAssuranceLens \<Rightarrow> string \<Rightarrow> ObligationCriticality \<Rightarrow> ReadinessTarget \<Rightarrow> ReadinessTarget \<Rightarrow> ActionDraft" where
  "action_for_lens lens claim_id criticality before target =
     \<lparr>ad_priority = action_priority criticality before target, stable_key = lens_id lens,
      ad_action =
        \<lparr>na_id = ''action.assurance.'' @ lens_id lens, na_kind = lens_action_kind lens,
         na_description = ''Acquire representative evidence for '' @ lens_id lens @ ''.'',
         addresses_claim_refs = [claim_id],
         na_rationale = ''The '' @ lens_id lens @ '' Assurance Claim is not yet verified or waived.'', na_rank = 0\<rparr>\<rparr>"

definition derive_lens ::
  "ObligationEngineInput \<Rightarrow> (UniversalAssuranceLens \<rightharpoonup> LensObservation) \<Rightarrow> UniversalAssuranceLens \<Rightarrow> derivation" where
  "derive_lens input om lens =
     (if ruled_out om lens then nothing
      else
        let status = (case om lens of Some x \<Rightarrow> lo_status x | None \<Rightarrow> AsUnknown);
            refs = (case om lens of Some x \<Rightarrow> lo_evidence_refs x | None \<Rightarrow> []);
            waiver = Option.bind (om lens) lo_waiver;
            (criticality, before) = lens_policy lens (risk_level input);
            claim_id = claim_id_for_lens lens
        in
          \<lparr>dv_obligations =
             [\<lparr>ob_id = obligation_id_for_lens lens, ob_description = ''Satisfy the '' @ lens_id lens @ '' assurance lens.'',
               ob_criticality = criticality, ob_status = obligation_status_for_claim status, required_before = before,
               claim_refs = [claim_id]\<rparr>],
           dv_claims =
             [\<lparr>ac_id = claim_id, ac_statement = lens_statement lens, ac_status = status, ac_evidence_refs = refs, ac_waiver = waiver\<rparr>],
           dv_gaps = [], dv_requests = [],
           dv_actions =
             (if \<not> satisfies_obligation status then [action_for_lens lens claim_id criticality before (oi_target input)] else [])\<rparr>)"

definition add_special_requirement ::
  "string \<Rightarrow> string \<Rightarrow> ObligationCriticality \<Rightarrow> ReadinessTarget \<Rightarrow> NextActionKind \<Rightarrow> ReadinessTarget \<Rightarrow> derivation" where
  "add_special_requirement suffix statement criticality before action_kind target =
     (let claim_id = ''claim.assurance.'' @ suffix in
      \<lparr>dv_obligations =
         [\<lparr>ob_id = ''obligation.assurance.'' @ suffix, ob_description = ''Satisfy the '' @ suffix @ '' assurance requirement.'',
           ob_criticality = criticality, ob_status = ObPending, required_before = before, claim_refs = [claim_id]\<rparr>],
       dv_claims =
         [\<lparr>ac_id = claim_id, ac_statement = statement, ac_status = AsUnknown, ac_evidence_refs = [], ac_waiver = None\<rparr>],
       dv_gaps = [], dv_requests = [],
       dv_actions =
         [\<lparr>ad_priority = action_priority criticality before target, stable_key = suffix,
           ad_action =
             \<lparr>na_id = ''action.assurance.'' @ suffix, na_kind = action_kind,
              na_description = ''Resolve the '' @ suffix @ '' Assurance Claim.'', addresses_claim_refs = [claim_id],
              na_rationale = ''An epistemic-risk signal introduced this requirement.'', na_rank = 0\<rparr>\<rparr>]\<rparr>)"

definition domain_competence_gap :: "ReadinessTarget \<Rightarrow> derivation" where
  "domain_competence_gap target =
     (let claim_ref = ''claim.assurance.domain_method_is_credible'' in
      \<lparr>dv_obligations = [], dv_claims = [],
       dv_gaps =
         [\<lparr>cg_id = ''gap.assurance.domain_competence'', cg_kind = CgDomainPack,
           cg_description = ''No verified domain method or Domain Pack is available.'', affected_claim_refs = [claim_ref],
           cg_resolution_options =
             [''Research multiple credible domain methods with provenance.'',
              ''Acquire a reviewed Domain Pack or specialist evaluator.''],
           cg_blocking = True, cg_blocks_before = Execute\<rparr>],
       dv_requests = [],
       dv_actions =
         [\<lparr>ad_priority = action_priority CrCritical Execute target, stable_key = ''resolve_domain_competence'',
           ad_action =
             \<lparr>na_id = ''action.assurance.resolve_domain_competence'', na_kind = NkAcquireCapability,
              na_description = ''Acquire a credible domain method, pack, or evaluator.'', addresses_claim_refs = [claim_ref],
              na_rationale = ''Shared human and agent ignorance must be managed before durable execution.'', na_rank = 0\<rparr>\<rparr>]\<rparr>)"

definition domain_gap :: "EpistemicRiskSignal list \<Rightarrow> bool" where
  "domain_gap signals \<longleftrightarrow> NovelDomain \<in> set signals \<or> MethodGap \<in> set signals \<or> WeakProvenance \<in> set signals"

definition apply_epistemic_signals :: "ObligationEngineInput \<Rightarrow> derivation" where
  "apply_epistemic_signals input =
     (let signals = epistemic_signals input; target = oi_target input in
      all_of
        [(if domain_gap signals then
            add_special_requirement ''domain_method_is_credible''
              ''The selected domain method has credible lifecycle, failure-mode, and quality coverage.''
              CrCritical Execute NkResearch target
          else nothing),
         (if domain_gap signals \<and> \<not> list_ex (\<lambda>c. co_kind c \<in> {CgDomainPack, CgKnowledge}) (capability_observations input) then
            domain_competence_gap target
          else nothing),
         (if SingleView \<in> set signals then
            add_special_requirement ''assurance_case_survives_independent_challenge''
              ''An independent challenge finds no consequential unsupported claim.'' CrCritical Release NkChallenge target
          else nothing),
         (if UnverifiedCapability \<in> set signals then
            add_special_requirement ''critical_capabilities_are_verified''
              ''Capabilities used by the plan have representative verification evidence.'' CrCritical Release NkEvaluate target
          else nothing)])"

definition affected_refs :: "(UniversalAssuranceLens \<rightharpoonup> LensObservation) \<Rightarrow> UniversalAssuranceLens list \<Rightarrow> string list" where
  "affected_refs om lenses = map claim_id_for_lens (filter (\<lambda>l. \<not> ruled_out om l) lenses)"

definition capability_blocks_before :: "CapabilityAvailability \<Rightarrow> CapabilityGapKind \<Rightarrow> ReadinessTarget" where
  "capability_blocks_before av kind =
     (case av of
        CapMissing \<Rightarrow> if kind \<in> {CgAgent, CgEvaluator} then Release else Execute
      | _ \<Rightarrow> Release)"

definition apply_capability_observation ::
  "ReadinessTarget \<Rightarrow> (UniversalAssuranceLens \<rightharpoonup> LensObservation) \<Rightarrow> CapabilityObservation \<Rightarrow> derivation" where
  "apply_capability_observation target om c =
     (if availability c = CapAvailable then nothing
      else
        let refs = affected_refs om (co_affected_lenses c); before = capability_blocks_before (availability c) (co_kind c) in
        \<lparr>dv_obligations = [], dv_claims = [],
         dv_gaps =
           [\<lparr>cg_id = ''gap.assurance.'' @ co_id c, cg_kind = co_kind c, cg_description = co_description c,
             affected_claim_refs = refs, cg_resolution_options = co_resolution_options c, cg_blocking = True, cg_blocks_before = before\<rparr>],
         dv_requests = [],
         dv_actions =
           [\<lparr>ad_priority = action_priority CrCritical before target, stable_key = ''capability.'' @ co_id c,
             ad_action =
               \<lparr>na_id = ''action.assurance.resolve.'' @ co_id c, na_kind = NkAcquireCapability,
                na_description = ''Resolve capability gap '' @ co_id c @ ''.'', addresses_claim_refs = refs,
                na_rationale = ''The current capability is missing or only provisional.'', na_rank = 0\<rparr>\<rparr>]\<rparr>)"

definition apply_decision_need ::
  "ReadinessTarget \<Rightarrow> (UniversalAssuranceLens \<rightharpoonup> LensObservation) \<Rightarrow> DecisionNeed \<Rightarrow> derivation" where
  "apply_decision_need target om d =
     \<lparr>dv_obligations = [], dv_claims = [], dv_gaps = [],
      dv_requests =
        [\<lparr>dq_id = dn_id d, dq_question = dn_question d, dq_reason = dn_reason d, dq_alternatives = dn_alternatives d,
          dq_recommended_alternative_ref = dn_recommended_alternative_ref d, dq_blocking = dn_blocking d,
          dq_blocks_before = dn_blocks_before d\<rparr>],
      dv_actions =
        [\<lparr>ad_priority = action_priority CrRequired (dn_blocks_before d) target, stable_key = ''decision.'' @ dn_id d,
          ad_action =
            \<lparr>na_id = ''action.assurance.decide.'' @ dn_id d, na_kind = NkAskHuman, na_description = dn_question d,
             addresses_claim_refs = affected_refs om (dn_affected_lenses d),
             na_rationale = ''Project evidence cannot resolve this human value or authority choice.'', na_rank = 0\<rparr>\<rparr>]\<rparr>"

definition readiness_blockers ::
  "ReadinessTarget \<Rightarrow> Obligation list \<Rightarrow> CapabilityGap list \<Rightarrow> DecisionRequest list \<Rightarrow> string list" where
  "readiness_blockers target obs gaps requests =
     remdups_adj (sort
       (map ob_id (filter (\<lambda>ob. ob_criticality ob \<noteq> CrAdvisory \<and> target_rank (required_before ob) \<le> target_rank target \<and>
                     ob_status ob \<noteq> ObSatisfied) obs) @
        map cg_id (filter (\<lambda>gap. cg_blocking gap \<and> target_rank (cg_blocks_before gap) \<le> target_rank target) gaps) @
        map dq_id (filter (\<lambda>dq. dq_blocking dq \<and> target_rank (dq_blocks_before dq) \<le> target_rank target) requests)))"

fun target_label :: "ReadinessTarget \<Rightarrow> string" where
  "target_label Explore = ''explore''"
| "target_label Execute = ''execute''"
| "target_label Release = ''release''"

fun target_debug :: "ReadinessTarget \<Rightarrow> string" where
  "target_debug Explore = ''Explore''"
| "target_debug Execute = ''Execute''"
| "target_debug Release = ''Release''"

definition readiness_rationale :: "ReadinessTarget \<Rightarrow> ReadinessVerdict \<Rightarrow> string" where
  "readiness_rationale target verdict =
     (case verdict of
        RvReady \<Rightarrow> ''No due required obligation, Decision Request, or Capability Gap blocks '' @ target_debug target @ ''.''
      | RvBlocked \<Rightarrow> ''One or more due obligations, decisions, or capabilities block '' @ target_debug target @ ''.'')"

definition proceed_action :: "ReadinessTarget \<Rightarrow> AssuranceClaim list \<Rightarrow> ActionDraft" where
  "proceed_action target claims =
     (let satisfied = map ac_id (filter (\<lambda>c. satisfies_obligation (ac_status c)) claims);
          refs = (if satisfied = [] then map ac_id (take 1 claims) else satisfied)
      in
        \<lparr>ad_priority = 0, stable_key = ''proceed'',
         ad_action =
           \<lparr>na_id = ''action.proceed.'' @ target_label target, na_kind = NkProceed,
            na_description = ''Proceed with the '' @ target_debug target @ '' readiness target.'', addresses_claim_refs = refs,
            na_rationale = ''No due required obligation, decision, or capability gap blocks the target.'', na_rank = 0\<rparr>\<rparr>)"

definition rank_actions :: "ActionDraft list \<Rightarrow> NextAction list" where
  "rank_actions drafts =
     map (\<lambda>(index, draft). (ad_action draft)\<lparr>na_rank := u32_saturating (index + 1)\<rparr>)
       (List.enumerate 0 (sort_key (\<lambda>draft. (ad_priority draft, stable_key draft)) drafts))"

definition derive_all :: "ObligationEngineInput \<Rightarrow> derivation" where
  "derive_all input =
     (let om = observation_map (lens_observations input) in
      all_of
        (map (derive_lens input om) all_lenses @ [apply_epistemic_signals input] @
         map (apply_capability_observation (oi_target input) om) (capability_observations input) @
         map (apply_decision_need (oi_target input) om) (decision_needs input)))"

definition derive_assurance_case :: "ObligationEngineInputDocument \<Rightarrow> ObligationEngineIssue list + AssuranceCaseDocument" where
  "derive_assurance_case document =
     (if validate_input document \<noteq> [] then Inl (validate_input document)
      else
        let input = obligation_engine_input document;
            d = derive_all input;
            blockers = readiness_blockers (oi_target input) (dv_obligations d) (dv_gaps d) (dv_requests d);
            verdict = (if blockers = [] then RvReady else RvBlocked);
            drafts = dv_actions d @ (if verdict = RvReady then [proceed_action (oi_target input) (dv_claims d)] else [])
        in Inr
          \<lparr>acd_schema_version = ASSURANCE_CASE_SCHEMA_VERSION,
           assurance_case =
             \<lparr>case_id = oi_case_id input, case_intent = oi_intent input, case_project_snapshot = oi_project_snapshot input,
              obligations = dv_obligations d, case_claims = dv_claims d, decision_requests = dv_requests d,
              capability_gaps = dv_gaps d, next_actions = rank_actions drafts,
              readiness =
                \<lparr>ra_target = oi_target input, ra_verdict = verdict, blocker_refs = blockers,
                 ra_rationale = readiness_rationale (oi_target input) verdict\<rparr>\<rparr>\<rparr>)"

section \<open>What accepted input satisfies\<close>

definition observation_good :: "LensObservation \<Rightarrow> bool" where
  "observation_good x \<longleftrightarrow>
     \<not> (lo_lens x = IntendedOutcome \<and> applicability x = LensNotApplicable) \<and>
     (applicability x = LensNotApplicable \<longrightarrow> (\<exists>r. lo_rationale x = Some r \<and> r \<noteq> [])) \<and>
     (lo_status x \<in> {AsSupported, AsVerified, AsDisproven} \<longrightarrow> lo_evidence_refs x \<noteq> []) \<and>
     (case lo_waiver x of
        None \<Rightarrow> lo_status x \<noteq> AsWaived
      | Some w \<Rightarrow> lo_status x = AsWaived \<and> \<not> is_blank (authorized_by w) \<and> \<not> is_blank (aw_reason w) \<and> aw_consequences w \<noteq> [])"

lemma waiver_issue_None:
  "waiver_issue x = [] \<longleftrightarrow>
     (case lo_waiver x of
        None \<Rightarrow> lo_status x \<noteq> AsWaived
      | Some w \<Rightarrow> lo_status x = AsWaived \<and> \<not> is_blank (authorized_by w) \<and> \<not> is_blank (aw_reason w) \<and> aw_consequences w \<noteq> [])"
  by (cases "lo_status x"; cases "lo_waiver x") (simp_all add: waiver_issue_def)

lemma observation_issues_None:
  "observation_issues seen xs = [] \<longleftrightarrow>
     distinct (map lo_lens xs) \<and> set seen \<inter> lo_lens ` set xs = {} \<and> (\<forall>x \<in> set xs. observation_good x)"
proof (induction seen xs rule: observation_issues.induct)
  case (2 seen x xs)
  have "(case lo_rationale x of None \<Rightarrow> True | Some r \<Rightarrow> r = []) \<longleftrightarrow> \<not> (\<exists>r. lo_rationale x = Some r \<and> r \<noteq> [])"
    by (auto split: option.splits)
  then have "observation_issues seen (x # xs) = [] \<longleftrightarrow> lo_lens x \<notin> set seen \<and> observation_good x \<and> observation_issues (lo_lens x # seen) xs = []"
    by (auto simp: observation_good_def waiver_issue_None)
  then show ?case unfolding 2 by auto
qed simp

lemma capability_issues_None:
  "capability_issues obs seen cs = [] \<Longrightarrow> c \<in> set cs \<Longrightarrow> availability c \<noteq> CapAvailable \<Longrightarrow>
     co_resolution_options c \<noteq> [] \<and> (\<exists>l \<in> set (co_affected_lenses c). \<not> lens_is_not_applicable l obs)"
  by (induction obs seen cs rule: capability_issues.induct) (auto simp: list_all_iff split: if_splits)

lemma decision_issues_None:
  "decision_issues obs seen ds = [] \<Longrightarrow> d \<in> set ds \<Longrightarrow>
     2 \<le> length (dn_alternatives d) \<and> dn_recommended_alternative_ref d \<in> da_id ` set (dn_alternatives d) \<and>
     (\<exists>l \<in> set (dn_affected_lenses d). \<not> lens_is_not_applicable l obs)"
proof (induction obs seen ds rule: decision_issues.induct)
  case (2 obs seen e ds)
  have l: "length (remdups (map da_id (dn_alternatives e))) \<le> length (dn_alternatives e)"
    by (metis length_map length_remdups_leq)
  show ?case
  proof (cases "d = e")
    case True
    then show ?thesis using 2(2) l by (auto simp: Let_def list_all_iff split: if_splits)
  next
    case False
    then show ?thesis using 2 by (auto split: if_splits)
  qed
qed simp

lemma observation_map_fold:
  "distinct (map lo_lens xs) \<Longrightarrow>
     fold (\<lambda>x m. m(lo_lens x \<mapsto> x)) xs m l = (case find (\<lambda>x. lo_lens x = l) xs of Some x \<Rightarrow> Some x | None \<Rightarrow> m l)"
proof (induction xs arbitrary: m)
  case (Cons x xs)
  have "lo_lens x = l \<Longrightarrow> find (\<lambda>y. lo_lens y = l) xs = None" using Cons.prems by (auto simp: find_None_iff image_iff)
  then show ?case using Cons by (auto split: option.splits)
qed simp

lemma observation_map_Some:
  assumes "distinct (map lo_lens obs)"
  shows "observation_map obs l = Some x \<longleftrightarrow> x \<in> set obs \<and> lo_lens x = l"
proof -
  have "observation_map obs l = find (\<lambda>x. lo_lens x = l) obs"
    using observation_map_fold [OF assms, of Map.empty l] by (simp add: observation_map_def split: option.splits)
  moreover have "find (\<lambda>x. lo_lens x = l) obs = Some x \<longleftrightarrow> x \<in> set obs \<and> lo_lens x = l"
    using assms by (induction obs) (auto simp: image_iff)
  ultimately show ?thesis by simp
qed

lemma ruled_out_iff: "distinct (map lo_lens obs) \<Longrightarrow> ruled_out (observation_map obs) l \<longleftrightarrow> lens_is_not_applicable l obs"
proof -
  assume d: "distinct (map lo_lens obs)"
  have "ruled_out (observation_map obs) l \<longleftrightarrow> (\<exists>x. observation_map obs l = Some x \<and> applicability x = LensNotApplicable)"
    by (simp add: ruled_out_def split: option.splits)
  then show ?thesis unfolding observation_map_Some [OF d] by (auto simp: lens_is_not_applicable_def list_ex_iff)
qed

lemma accepted_input:
  assumes "validate_input document = []"
  defines "input \<equiv> obligation_engine_input document"
  shows "distinct (map lo_lens (lens_observations input))" "\<forall>x \<in> set (lens_observations input). observation_good x"
    "capability_issues (lens_observations input) [] (capability_observations input) = []"
    "decision_issues (lens_observations input) [] (decision_needs input) = []"
    "\<not> is_blank (oi_case_id input)" "conflict_issues input = []"
  using assms(1) by (auto simp: validate_input_def Let_def observation_issues_None input_def split: if_splits)

section \<open>The parts of a derivation\<close>

lemma all_of_fields:
  "dv_obligations (all_of ds) = concat (map dv_obligations ds)" "dv_claims (all_of ds) = concat (map dv_claims ds)"
  "dv_gaps (all_of ds) = concat (map dv_gaps ds)" "dv_requests (all_of ds) = concat (map dv_requests ds)"
  "dv_actions (all_of ds) = concat (map dv_actions ds)"
  by (induction ds) (simp_all add: all_of_def followed_by_def nothing_def)

lemma nothing_fields [simp]:
  "dv_obligations nothing = []" "dv_claims nothing = []" "dv_gaps nothing = []" "dv_requests nothing = []" "dv_actions nothing = []"
  by (simp_all add: nothing_def)

text \<open>
  A part is sound for the statuses of the claims when everything it adds satisfies the validator, and it
  adds an action with everything that may block.
\<close>

definition part_good :: "claim_statuses \<Rightarrow> derivation \<Rightarrow> bool" where
  "part_good S d \<longleftrightarrow>
     (\<forall>cl \<in> set (dv_claims d). claim_good cl) \<and> (\<forall>ob \<in> set (dv_obligations d). obligation_good S ob) \<and>
     (\<forall>dq \<in> set (dv_requests d). request_good dq) \<and> (\<forall>gap \<in> set (dv_gaps d). gap_good S gap) \<and>
     (\<forall>a \<in> set (dv_actions d). refs_good S (addresses_claim_refs (ad_action a))) \<and>
     ((\<exists>ob \<in> set (dv_obligations d). ob_status ob \<noteq> ObSatisfied) \<or> dv_gaps d \<noteq> [] \<or> dv_requests d \<noteq> [] \<longrightarrow> dv_actions d \<noteq> [])"

lemma part_good_all_of: "(\<forall>d \<in> set ds. part_good S d) \<Longrightarrow> part_good S (all_of ds)"
  unfolding part_good_def all_of_fields by (simp add: ball_Un) blast

lemma part_good_nothing [simp]: "part_good S nothing"
  by (simp add: part_good_def)

lemma part_good_special:
  assumes "S (''claim.assurance.'' @ suffix) = Some AsUnknown"
  shows "part_good S (add_special_requirement suffix statement criticality before kind target)"
  using assms by (simp add: part_good_def add_special_requirement_def Let_def claim_good_def obligation_good_def refs_good_def)

lemma obligation_status_satisfied: "obligation_status_for_claim s = ObSatisfied \<longleftrightarrow> satisfies_obligation s"
  by (cases s) (simp_all add: satisfies_obligation_def)

definition lens_status :: "(UniversalAssuranceLens \<rightharpoonup> LensObservation) \<Rightarrow> UniversalAssuranceLens \<Rightarrow> AssuranceClaimStatus" where
  "lens_status om lens = (case om lens of Some x \<Rightarrow> lo_status x | None \<Rightarrow> AsUnknown)"

lemma derive_lens_fields:
  assumes "\<not> ruled_out om lens"
  shows "\<exists>cl. dv_claims (derive_lens input om lens) = [cl] \<and> ac_id cl = claim_id_for_lens lens \<and> ac_status cl = lens_status om lens \<and>
      ac_evidence_refs cl = (case om lens of Some x \<Rightarrow> lo_evidence_refs x | None \<Rightarrow> []) \<and> ac_waiver cl = Option.bind (om lens) lo_waiver"
    "\<exists>ob. dv_obligations (derive_lens input om lens) = [ob] \<and> ob_id ob = obligation_id_for_lens lens \<and> claim_refs ob = [claim_id_for_lens lens] \<and>
      ob_status ob = obligation_status_for_claim (lens_status om lens) \<and>
      (ob_criticality ob, required_before ob) = lens_policy lens (risk_level input)"
    "dv_gaps (derive_lens input om lens) = []" "dv_requests (derive_lens input om lens) = []"
    "dv_actions (derive_lens input om lens) =
      (if satisfies_obligation (lens_status om lens) then []
       else [action_for_lens lens (claim_id_for_lens lens) (fst (lens_policy lens (risk_level input))) (snd (lens_policy lens (risk_level input)))
               (oi_target input)])"
  using assms by (simp_all add: derive_lens_def lens_status_def case_prod_beta Let_def)

lemma part_good_lens:
  assumes obs: "distinct (map lo_lens obs)" "\<forall>x \<in> set obs. observation_good x"
    and S: "\<forall>cl \<in> set (dv_claims (derive_lens input (observation_map obs) lens)). S (ac_id cl) = Some (ac_status cl)"
  shows "part_good S (derive_lens input (observation_map obs) lens)"
proof (cases "ruled_out (observation_map obs) lens")
  case True
  then show ?thesis by (simp add: derive_lens_def)
next
  case False
  let ?om = "observation_map obs" and ?d = "derive_lens input (observation_map obs) lens"
  note f = derive_lens_fields [OF False, of input]
  obtain cl where cl: "dv_claims ?d = [cl]" "ac_id cl = claim_id_for_lens lens" "ac_status cl = lens_status ?om lens"
    "ac_evidence_refs cl = (case ?om lens of Some x \<Rightarrow> lo_evidence_refs x | None \<Rightarrow> [])" "ac_waiver cl = Option.bind (?om lens) lo_waiver"
    using f(1) by blast
  obtain ob where ob: "dv_obligations ?d = [ob]" "claim_refs ob = [claim_id_for_lens lens]"
    "ob_status ob = obligation_status_for_claim (lens_status ?om lens)" using f(2) by blast
  have S': "S (claim_id_for_lens lens) = Some (lens_status ?om lens)" using S cl by simp
  have "?om lens = Some x \<Longrightarrow> observation_good x" for x using obs observation_map_Some by blast
  then have "claim_good cl"
    unfolding claim_good_def cl(3-5) lens_status_def by (cases "?om lens") (auto simp: observation_good_def split: option.splits)
  moreover have "obligation_good S ob" using S' ob obligation_status_satisfied by (simp add: obligation_good_def refs_good_def)
  moreover have "refs_good S (addresses_claim_refs (ad_action (action_for_lens lens (claim_id_for_lens lens) cr before target)))" for cr before target
    using S' by (simp add: refs_good_def action_for_lens_def)
  ultimately show ?thesis unfolding part_good_def cl(1) ob(1) f(3-5) using ob(3) obligation_status_satisfied by simp
qed

lemma refs_good_affected:
  assumes "\<forall>l. \<not> ruled_out om l \<longrightarrow> S (claim_id_for_lens l) \<noteq> None" "\<exists>l \<in> set ls. \<not> ruled_out om l"
  shows "refs_good S (affected_refs om ls)"
  using assms by (auto simp: refs_good_def affected_refs_def filter_empty_conv)

lemma part_good_capability:
  assumes "\<forall>l. \<not> ruled_out om l \<longrightarrow> S (claim_id_for_lens l) \<noteq> None"
    "availability c \<noteq> CapAvailable \<Longrightarrow> co_resolution_options c \<noteq> [] \<and> (\<exists>l \<in> set (co_affected_lenses c). \<not> ruled_out om l)"
  shows "part_good S (apply_capability_observation target om c)"
proof (cases "availability c = CapAvailable")
  case False
  then have "refs_good S (affected_refs om (co_affected_lenses c))" "co_resolution_options c \<noteq> []"
    using refs_good_affected assms by auto
  then show ?thesis using False by (simp add: apply_capability_observation_def Let_def part_good_def gap_good_def)
qed (simp add: apply_capability_observation_def)

lemma part_good_decision:
  assumes "\<forall>l. \<not> ruled_out om l \<longrightarrow> S (claim_id_for_lens l) \<noteq> None" "\<exists>l \<in> set (dn_affected_lenses d). \<not> ruled_out om l"
    "2 \<le> length (dn_alternatives d)" "dn_recommended_alternative_ref d \<in> da_id ` set (dn_alternatives d)"
  shows "part_good S (apply_decision_need target om d)"
  using refs_good_affected [OF assms(1,2)] assms(3,4) by (simp add: apply_decision_need_def part_good_def request_good_def)

definition special_suffixes :: "EpistemicRiskSignal list \<Rightarrow> string list" where
  "special_suffixes signals =
     (if domain_gap signals then [''domain_method_is_credible''] else []) @
     (if SingleView \<in> set signals then [''assurance_case_survives_independent_challenge''] else []) @
     (if UnverifiedCapability \<in> set signals then [''critical_capabilities_are_verified''] else [])"

lemma special_claims:
  "dv_claims (add_special_requirement s m cr before kind target) =
     [\<lparr>ac_id = ''claim.assurance.'' @ s, ac_statement = m, ac_status = AsUnknown, ac_evidence_refs = [], ac_waiver = None\<rparr>]"
  "dv_claims (domain_competence_gap target) = []"
  by (simp_all add: add_special_requirement_def domain_competence_gap_def Let_def)

lemma signal_claims:
  "map (\<lambda>cl. (ac_id cl, ac_status cl)) (dv_claims (apply_epistemic_signals input)) =
     map (\<lambda>s. (''claim.assurance.'' @ s, AsUnknown)) (special_suffixes (epistemic_signals input))"
  unfolding apply_epistemic_signals_def Let_def all_of_fields special_suffixes_def by (simp add: special_claims)

lemma part_good_domain_competence:
  "S ''claim.assurance.domain_method_is_credible'' \<noteq> None \<Longrightarrow> part_good S (domain_competence_gap target)"
  by (simp add: part_good_def domain_competence_gap_def Let_def gap_good_def refs_good_def)

lemma part_good_signals:
  assumes S: "\<forall>cl \<in> set (dv_claims (apply_epistemic_signals input)). S (ac_id cl) = Some (ac_status cl)"
  shows "part_good S (apply_epistemic_signals input)"
proof -
  have s: "S (''claim.assurance.'' @ s) = Some AsUnknown" if "s \<in> set (special_suffixes (epistemic_signals input))" for s
  proof -
    have "(''claim.assurance.'' @ s, AsUnknown) \<in> set (map (\<lambda>cl. (ac_id cl, ac_status cl)) (dv_claims (apply_epistemic_signals input)))"
      unfolding signal_claims using that by auto
    then show ?thesis using S by auto
  qed
  have d: "domain_gap (epistemic_signals input) \<Longrightarrow> S (''claim.assurance.'' @ ''domain_method_is_credible'') = Some AsUnknown"
    by (rule s) (simp add: special_suffixes_def)
  have c: "SingleView \<in> set (epistemic_signals input) \<Longrightarrow>
    S (''claim.assurance.'' @ ''assurance_case_survives_independent_challenge'') = Some AsUnknown"
    by (rule s) (simp add: special_suffixes_def)
  have u: "UnverifiedCapability \<in> set (epistemic_signals input) \<Longrightarrow>
    S (''claim.assurance.'' @ ''critical_capabilities_are_verified'') = Some AsUnknown"
    by (rule s) (simp add: special_suffixes_def)
  have "domain_gap (epistemic_signals input) \<Longrightarrow> part_good S (domain_competence_gap target)" for target
    using part_good_domain_competence [of S target] d by simp
  then show ?thesis
    unfolding apply_epistemic_signals_def Let_def
    using part_good_special [of S, OF d] part_good_special [of S, OF c] part_good_special [of S, OF u]
    by (intro part_good_all_of) auto
qed

section \<open>The derived case\<close>

lemma claim_statuses_fold:
  "distinct (map ac_id cs) \<Longrightarrow> cl \<in> set cs \<Longrightarrow> fold (\<lambda>c m. m(ac_id c \<mapsto> ac_status c)) cs m (ac_id cl) = Some (ac_status cl)"
proof (induction cs arbitrary: m)
  case (Cons c cs)
  have keep: "k \<notin> ac_id ` set cs \<Longrightarrow> fold (\<lambda>c m. m(ac_id c \<mapsto> ac_status c)) cs m k = m k" for k and m :: claim_statuses
    by (induction cs arbitrary: m) auto
  show ?case using Cons keep [of "ac_id cl"] by (cases "cl = c") (auto simp del: fun_upd_apply simp: fun_upd_same)
qed simp

lemma claim_statuses_of_in: "distinct (map ac_id cs) \<Longrightarrow> cl \<in> set cs \<Longrightarrow> claim_statuses_of cs (ac_id cl) = Some (ac_status cl)"
  unfolding claim_statuses_of_def by (rule claim_statuses_fold)

lemma all_lenses_UNIV: "set all_lenses = UNIV"
  unfolding all_lenses_def by (auto, metis UniversalAssuranceLens.exhaust)

lemma derive_all_good:
  assumes v: "validate_input document = []" and "input = obligation_engine_input document"
    and d: "distinct (map ac_id (dv_claims (derive_all input)))"
  shows "part_good (claim_statuses_of (dv_claims (derive_all input))) (derive_all input)" "dv_claims (derive_all input) \<noteq> []"
    "dv_obligations (derive_all input) \<noteq> []"
proof -
  define om where "om = observation_map (lens_observations input)"
  define S where "S = claim_statuses_of (dv_claims (derive_all input))"
  note ok = accepted_input [OF v, folded assms(2)]
  define parts where "parts = map (derive_lens input om) all_lenses @ [apply_epistemic_signals input] @
         map (apply_capability_observation (oi_target input) om) (capability_observations input) @
         map (apply_decision_need (oi_target input) om) (decision_needs input)"
  have parts: "derive_all input = all_of parts" by (simp add: derive_all_def om_def parts_def Let_def)
  have S: "\<forall>cl \<in> set (dv_claims p). S (ac_id cl) = Some (ac_status cl)" if "p \<in> set parts" for p
    unfolding S_def using claim_statuses_of_in [OF d] that by (auto simp: parts all_of_fields)
  have lens: "p \<in> set parts" if "p = derive_lens input om l" for p l using that all_lenses_UNIV by (auto simp: parts_def)
  have known: "S (claim_id_for_lens l) \<noteq> None" if "\<not> ruled_out om l" for l
    using derive_lens_fields(1) [OF that, of input] S [OF lens [OF refl], of l] by auto
  have ro: "ruled_out om l \<longleftrightarrow> lens_is_not_applicable l (lens_observations input)" for l
    unfolding om_def by (rule ruled_out_iff [OF ok(1)])
  have "part_good S p" if p: "p \<in> set parts" for p
  proof -
    consider (lens) l where "p = derive_lens input om l" | (sig) "p = apply_epistemic_signals input"
      | (cap) c where "c \<in> set (capability_observations input)" "p = apply_capability_observation (oi_target input) om c"
      | (dec) n where "n \<in> set (decision_needs input)" "p = apply_decision_need (oi_target input) om n"
      using p by (auto simp: parts_def)
    then show ?thesis
    proof cases
      case lens
      then show ?thesis using part_good_lens [OF ok(1,2)] S [OF p] unfolding om_def by blast
    next
      case sig
      then show ?thesis using part_good_signals S [OF p] by blast
    next
      case cap
      then show ?thesis using part_good_capability [of om S c] known capability_issues_None [OF ok(3) cap(1)] unfolding ro by blast
    next
      case dec
      then show ?thesis using part_good_decision [of om S n] known decision_issues_None [OF ok(4) dec(1)] unfolding ro by blast
    qed
  qed
  then show "part_good (claim_statuses_of (dv_claims (derive_all input))) (derive_all input)"
    using part_good_all_of [of parts S] unfolding S_def parts by blast
  have "\<not> ruled_out om IntendedOutcome"
    using ok(1,2) unfolding ro by (auto simp: lens_is_not_applicable_def list_ex_iff observation_good_def)
  then have "dv_claims (derive_lens input om IntendedOutcome) \<noteq> []" "dv_obligations (derive_lens input om IntendedOutcome) \<noteq> []"
    using derive_lens_fields(1,2) [of om IntendedOutcome input] by auto
  then show "dv_claims (derive_all input) \<noteq> []" "dv_obligations (derive_all input) \<noteq> []"
    unfolding parts all_of_fields using lens [OF refl] by auto
qed

lemma rank_actions_ranks: "map na_rank (rank_actions drafts) = map (\<lambda>i. u32_saturating (Suc i)) [0..<length drafts]"
proof -
  have "map na_rank (rank_actions drafts) =
      map (\<lambda>p. u32_saturating (Suc (fst p))) (List.enumerate 0 (sort_key (\<lambda>d. (ad_priority d, stable_key d)) drafts))"
    by (simp add: rank_actions_def case_prod_beta)
  also have "\<dots> = map (\<lambda>i. u32_saturating (Suc i)) (map fst (List.enumerate 0 (sort_key (\<lambda>d. (ad_priority d, stable_key d)) drafts)))"
    by (simp only: map_map comp_def)
  finally show ?thesis unfolding map_fst_enumerate by simp
qed

lemma ranks_good_iff: "ranks_good (rank_actions drafts) \<longleftrightarrow> length drafts \<le> u32_max"
proof
  let ?rs = "map (\<lambda>i. u32_saturating (Suc i)) [0..<length drafts]"
  have l: "length (rank_actions drafts) = length drafts" by (simp add: rank_actions_def)
  assume "ranks_good (rank_actions drafts)"
  then have "distinct ?rs" unfolding ranks_good_def rank_actions_ranks by blast
  moreover have "set ?rs \<subseteq> {1..u32_max}" by (auto simp: u32_saturating_def u32_max_def)
  ultimately show "length drafts \<le> u32_max"
    using card_mono [of "{1..u32_max}" "set ?rs"] distinct_card [of ?rs] by simp
next
  let ?rs = "map (\<lambda>i. u32_saturating (Suc i)) [0..<length drafts]"
  have l: "length (rank_actions drafts) = length drafts" by (simp add: rank_actions_def)
  assume a: "length drafts \<le> u32_max"
  then have r: "?rs = map Suc [0..<length drafts]" by (auto simp: u32_saturating_def)
  have "na_rank ` set (rank_actions drafts) = set (map Suc [0..<length drafts])"
    using rank_actions_ranks [of drafts, unfolded r] by (metis list.set_map)
  also have "\<dots> = {1..length drafts}" by (auto simp: image_iff Suc_le_eq dest!: less_imp_Suc_add)
  finally show "ranks_good (rank_actions drafts)"
    unfolding ranks_good_def rank_actions_ranks r l using a by (simp add: distinct_map u32_saturating_def)
qed

lemma readiness_blockers_set:
  "set (readiness_blockers target obs gaps requests) =
     ob_id ` {ob \<in> set obs. obligation_due target ob \<and> ob_status ob \<noteq> ObSatisfied} \<union>
     cg_id ` {gap \<in> set gaps. gap_due target gap} \<union> dq_id ` {dq \<in> set requests. request_due target dq}"
  by (auto simp: readiness_blockers_def obligation_due_def gap_due_def request_due_def)

definition drafts_of :: "ObligationEngineInput \<Rightarrow> ActionDraft list" where
  "drafts_of input =
     (let d = derive_all input in
      dv_actions d @
      (if readiness_blockers (oi_target input) (dv_obligations d) (dv_gaps d) (dv_requests d) = []
       then [proceed_action (oi_target input) (dv_claims d)] else []))"

lemma derived_fields:
  assumes "derive_assurance_case document = Inr out"
  defines "input \<equiv> obligation_engine_input document" and "c \<equiv> assurance_case out"
  shows "validate_input document = []" "acd_schema_version out = ''0.1''"
    "obligations c = dv_obligations (derive_all input)" "case_claims c = dv_claims (derive_all input)"
    "decision_requests c = dv_requests (derive_all input)" "capability_gaps c = dv_gaps (derive_all input)"
    "next_actions c = rank_actions (drafts_of input)" "ra_target (readiness c) = oi_target input"
    "blocker_refs (readiness c) =
       readiness_blockers (oi_target input) (dv_obligations (derive_all input)) (dv_gaps (derive_all input)) (dv_requests (derive_all input))"
    "ra_verdict (readiness c) = RvReady \<longleftrightarrow> blocker_refs (readiness c) = []"
  using assms(1)
  by (auto simp: derive_assurance_case_def Let_def input_def c_def drafts_of_def ASSURANCE_CASE_SCHEMA_VERSION_def split: if_splits)

lemma proceed_refs_good:
  assumes "claims \<noteq> []" "\<forall>cl \<in> set claims. S (ac_id cl) \<noteq> None"
  shows "refs_good S (addresses_claim_refs (ad_action (proceed_action target claims)))"
proof -
  obtain c cs where c: "claims = c # cs" using assms(1) by (cases claims) auto
  show ?thesis using assms(2)
    by (auto simp: proceed_action_def Let_def refs_good_def c filter_empty_conv split: if_splits)
qed

lemma rank_actions_refs:
  "addresses_claim_refs ` set (rank_actions drafts) = (\<lambda>d. addresses_claim_refs (ad_action d)) ` set drafts"
proof -
  have "map addresses_claim_refs (rank_actions drafts) =
      map (\<lambda>d. addresses_claim_refs (ad_action d)) (map snd (List.enumerate 0 (sort_key (\<lambda>d. (ad_priority d, stable_key d)) drafts)))"
    by (simp add: rank_actions_def case_prod_beta comp_def del: map_snd_enumerate)
  then have "addresses_claim_refs ` set (rank_actions drafts) =
      (\<lambda>d. addresses_claim_refs (ad_action d)) ` set (sort_key (\<lambda>d. (ad_priority d, stable_key d)) drafts)"
    unfolding map_snd_enumerate by (metis list.set_map)
  then show ?thesis by simp
qed

lemma derived_content:
  assumes out: "derive_assurance_case document = Inr out" and d: "distinct (map ac_id (case_claims (assurance_case out)))"
  shows "content_good (assurance_case out)" "readiness_good (assurance_case out)"
proof -
  define input where "input = obligation_engine_input document"
  define c where "c = assurance_case out"
  note f = derived_fields [OF out, folded input_def c_def]
  define S where "S = claim_statuses_of (case_claims c)"
  have g: "part_good S (derive_all input)" and ne: "case_claims c \<noteq> []" "obligations c \<noteq> []"
    using derive_all_good [OF f(1) input_def] d f(3,4) unfolding S_def c_def by auto
  have S: "cl \<in> set (case_claims c) \<Longrightarrow> S (ac_id cl) = Some (ac_status cl)" for cl
    unfolding S_def using claim_statuses_of_in d unfolding c_def by blast
  have acts: "drafts_of input \<noteq> []" "\<forall>a \<in> set (drafts_of input). refs_good S (addresses_claim_refs (ad_action a))"
  proof -
    have "readiness_blockers (oi_target input) (dv_obligations (derive_all input)) (dv_gaps (derive_all input)) (dv_requests (derive_all input)) = []"
      if "dv_actions (derive_all input) = []"
    proof -
      have "dv_gaps (derive_all input) = []" "dv_requests (derive_all input) = []" "\<forall>ob \<in> set (dv_obligations (derive_all input)). ob_status ob = ObSatisfied"
        using g that unfolding part_good_def by blast+
      then have "set (readiness_blockers (oi_target input) (dv_obligations (derive_all input)) (dv_gaps (derive_all input))
          (dv_requests (derive_all input))) = {}"
        unfolding readiness_blockers_set by auto
      then show ?thesis by simp
    qed
    then show "drafts_of input \<noteq> []" by (auto simp: drafts_of_def Let_def)
    show "\<forall>a \<in> set (drafts_of input). refs_good S (addresses_claim_refs (ad_action a))"
      using g proceed_refs_good [OF ne(1), of S] S f(4) unfolding part_good_def drafts_of_def Let_def by auto
  qed
  have "\<forall>act \<in> set (next_actions c). refs_good S (addresses_claim_refs act)"
  proof
    fix act assume "act \<in> set (next_actions c)"
    then have "addresses_claim_refs act \<in> (\<lambda>d. addresses_claim_refs (ad_action d)) ` set (drafts_of input)"
      using rank_actions_refs [of "drafts_of input"] unfolding f(7) by blast
    then show "refs_good S (addresses_claim_refs act)" using acts(2) by auto
  qed
  moreover have "next_actions c \<noteq> []"
    using acts(1) rank_actions_ranks [of "drafts_of input"] unfolding f(7) by (metis length_0_conv length_map length_upt minus_nat.diff_0)
  ultimately show "content_good (assurance_case out)"
    using g ne unfolding content_good_def c_def [symmetric] Let_def S_def part_good_def f(3-6) by blast
  have "\<not> unresolved_critical c S cl" if r: "blocker_refs (readiness c) = []" and cl: "cl \<in> set (case_claims c)" for cl
  proof
    assume "unresolved_critical c S cl"
    then obtain ob where ob: "ob \<in> set (obligations c)" "ob_criticality ob = CrCritical" "\<not> satisfies_obligation (ac_status cl)"
      "target_rank (required_before ob) \<le> target_rank (ra_target (readiness c))" "ac_id cl \<in> set (claim_refs ob)"
      using r S [OF cl] by (auto simp: unresolved_critical_def list_ex_iff)
    have "ob_status ob = ObSatisfied"
      using r ob(1,2,4) readiness_blockers_set [of "oi_target input" "dv_obligations (derive_all input)" "dv_gaps (derive_all input)" "dv_requests (derive_all input)"]
      unfolding f(3,8,9) by (auto simp: obligation_due_def)
    then show False using g ob S [OF cl] unfolding part_good_def f(3) obligation_good_def by blast
  qed
  then show "readiness_good (assurance_case out)"
    unfolding readiness_good_def c_def [symmetric] S_def [symmetric] Let_def f(10) f(3) f(5) f(6) f(8) f(9) readiness_blockers_set
    by blast
qed

lemma derived_valid_iff:
  assumes "derive_assurance_case document = Inr out"
  shows "\<not> has_errors (validate_assurance_case out) \<longleftrightarrow>
    fresh [] (entity_ids (assurance_case out)) \<and> length (next_actions (assurance_case out)) \<le> u32_max"
proof -
  note f = derived_fields [OF assms]
  have "length (next_actions (assurance_case out)) = length (drafts_of (obligation_engine_input document))"
    unfolding f(7) by (simp add: rank_actions_def)
  moreover have "fresh [] (entity_ids (assurance_case out)) \<Longrightarrow> distinct (map ac_id (case_claims (assurance_case out)))"
    by (simp add: fresh_def entity_ids_def)
  ultimately show ?thesis
    unfolding validate_assurance_case_exact f(2) f(7) ranks_good_iff using derived_content [OF assms] by auto
qed

text \<open>What a host must have observed of a lens for it not to block.\<close>

definition lens_settled :: "ObligationEngineInput \<Rightarrow> UniversalAssuranceLens \<Rightarrow> bool" where
  "lens_settled input lens \<longleftrightarrow>
     (\<exists>x \<in> set (lens_observations input). lo_lens x = lens \<and>
        (lens \<noteq> IntendedOutcome \<and> applicability x = LensNotApplicable \<and> (\<exists>r. lo_rationale x = Some r \<and> r \<noteq> []) \<or>
         lo_status x = AsVerified \<and> lo_evidence_refs x \<noteq> [] \<or>
         lo_status x = AsWaived \<and> (\<exists>w. lo_waiver x = Some w \<and> \<not> is_blank (authorized_by w) \<and> \<not> is_blank (aw_reason w) \<and> aw_consequences w \<noteq> [])))"

definition signals_settled :: "ObligationEngineInput \<Rightarrow> bool" where
  "signals_settled input \<longleftrightarrow>
     (oi_target input \<noteq> Explore \<longrightarrow> \<not> domain_gap (epistemic_signals input)) \<and>
     (oi_target input = Release \<longrightarrow> SingleView \<notin> set (epistemic_signals input) \<and> UnverifiedCapability \<notin> set (epistemic_signals input))"

lemma observation_settles:
  "observation_good x \<Longrightarrow>
     (lo_lens x \<noteq> IntendedOutcome \<and> applicability x = LensNotApplicable \<and> (\<exists>r. lo_rationale x = Some r \<and> r \<noteq> []) \<or>
      lo_status x = AsVerified \<and> lo_evidence_refs x \<noteq> [] \<or>
      lo_status x = AsWaived \<and> (\<exists>w. lo_waiver x = Some w \<and> \<not> is_blank (authorized_by w) \<and> \<not> is_blank (aw_reason w) \<and> aw_consequences w \<noteq> [])) \<longleftrightarrow>
     applicability x = LensNotApplicable \<or> satisfies_obligation (lo_status x)"
  by (cases "lo_waiver x"; cases "lo_status x") (auto simp: observation_good_def satisfies_obligation_def)

lemma lens_obligation_due:
  assumes ok: "distinct (map lo_lens (lens_observations input))" "\<forall>x \<in> set (lens_observations input). observation_good x"
  shows "(\<exists>ob \<in> set (dv_obligations (derive_lens input (observation_map (lens_observations input)) lens)).
      obligation_due target ob \<and> ob_status ob \<noteq> ObSatisfied) \<longleftrightarrow>
    target_rank (snd (lens_policy lens (risk_level input))) \<le> target_rank target \<and> \<not> lens_settled input lens"
proof -
  let ?om = "observation_map (lens_observations input)"
  have good: "observation_good x" if "?om lens = Some x" for x using that ok observation_map_Some by blast
  have "lens_settled input lens \<longleftrightarrow>
      (\<exists>x \<in> set (lens_observations input). lo_lens x = lens \<and> (applicability x = LensNotApplicable \<or> satisfies_obligation (lo_status x)))"
    unfolding lens_settled_def by (rule bex_cong [OF refl]) (use ok(2) in \<open>simp add: observation_settles [symmetric] cong: conj_cong\<close>)
  then have settled: "lens_settled input lens \<longleftrightarrow> (\<exists>x. ?om lens = Some x \<and> (applicability x = LensNotApplicable \<or> satisfies_obligation (lo_status x)))"
    unfolding observation_map_Some [OF ok(1)] by blast
  show ?thesis
  proof (cases "ruled_out ?om lens")
    case True
    then show ?thesis unfolding settled by (auto simp: derive_lens_def ruled_out_def split: option.splits)
  next
    case False
    from derive_lens_fields(2) [OF False, of input] obtain ob where ob: "dv_obligations (derive_lens input ?om lens) = [ob]"
      "ob_status ob = obligation_status_for_claim (lens_status ?om lens)"
      "(ob_criticality ob, required_before ob) = lens_policy lens (risk_level input)" by blast
    have "ob_criticality ob \<noteq> CrAdvisory"
      using ob(3) by (auto simp: lens_policy_def split: UniversalAssuranceLens.splits if_splits)
    moreover have "required_before ob = snd (lens_policy lens (risk_level input))" using ob(3) by (metis snd_conv)
    moreover have "ob_status ob = ObSatisfied \<longleftrightarrow> lens_settled input lens"
      unfolding ob(2) settled obligation_status_satisfied lens_status_def
      using False by (auto simp: ruled_out_def satisfies_obligation_def split: option.splits)
    ultimately show ?thesis unfolding ob(1) obligation_due_def by auto
  qed
qed

lemma target_rank_le: "target_rank Execute \<le> target_rank t \<longleftrightarrow> t \<noteq> Explore" "target_rank Release \<le> target_rank t \<longleftrightarrow> t = Release"
  by (cases t; simp)+

text \<open>Whether a part of the derivation blocks a target.\<close>

definition blocks_target :: "ReadinessTarget \<Rightarrow> derivation \<Rightarrow> bool" where
  "blocks_target t d \<longleftrightarrow>
     (\<exists>ob \<in> set (dv_obligations d). obligation_due t ob \<and> ob_status ob \<noteq> ObSatisfied) \<or>
     (\<exists>gap \<in> set (dv_gaps d). gap_due t gap) \<or> (\<exists>dq \<in> set (dv_requests d). request_due t dq)"

lemma blocks_followed_by: "blocks_target t (followed_by a b) \<longleftrightarrow> blocks_target t a \<or> blocks_target t b"
  unfolding blocks_target_def followed_by_def by (simp add: bex_Un) blast

lemma blocks_nothing [simp]: "\<not> blocks_target t nothing"
  by (simp add: blocks_target_def)

lemma blocks_all_of: "blocks_target t (all_of ds) \<longleftrightarrow> (\<exists>d \<in> set ds. blocks_target t d)"
  by (induction ds) (simp_all add: all_of_def blocks_followed_by)

lemma blocks_special:
  "blocks_target t (add_special_requirement s m CrCritical before kind t') \<longleftrightarrow> target_rank before \<le> target_rank t"
  by (simp add: blocks_target_def add_special_requirement_def Let_def obligation_due_def)

lemma blocks_domain_competence: "blocks_target t (domain_competence_gap t') \<longleftrightarrow> t \<noteq> Explore"
  using target_rank_le(1) [of t] by (simp add: blocks_target_def domain_competence_gap_def Let_def gap_due_def)

lemma blocks_capability:
  "blocks_target t (apply_capability_observation t' om c) \<longleftrightarrow>
     availability c \<noteq> CapAvailable \<and> target_rank (capability_blocks_before (availability c) (co_kind c)) \<le> target_rank t"
  by (simp add: blocks_target_def apply_capability_observation_def Let_def gap_due_def)

lemma blocks_decision:
  "blocks_target t (apply_decision_need t' om n) \<longleftrightarrow> dn_blocking n \<and> target_rank (dn_blocks_before n) \<le> target_rank t"
  by (simp add: blocks_target_def apply_decision_need_def request_due_def)

lemma blocks_lens:
  assumes "distinct (map lo_lens (lens_observations input))" "\<forall>x \<in> set (lens_observations input). observation_good x"
  shows "blocks_target t (derive_lens input (observation_map (lens_observations input)) lens) \<longleftrightarrow>
    target_rank (snd (lens_policy lens (risk_level input))) \<le> target_rank t \<and> \<not> lens_settled input lens"
proof -
  let ?d = "derive_lens input (observation_map (lens_observations input)) lens"
  have "dv_gaps ?d = []" "dv_requests ?d = []"
    using derive_lens_fields(3,4) [of "observation_map (lens_observations input)" lens input]
    by (cases "ruled_out (observation_map (lens_observations input)) lens"; simp add: derive_lens_def)+
  then show ?thesis unfolding blocks_target_def lens_obligation_due [OF assms] by simp
qed

lemma blocks_signals: "blocks_target (oi_target input) (apply_epistemic_signals input) \<longleftrightarrow> \<not> signals_settled input"
  unfolding apply_epistemic_signals_def Let_def blocks_all_of signals_settled_def
  using target_rank_le [of "oi_target input"] blocks_special blocks_domain_competence by auto

definition readiness_earned :: "ObligationEngineInput \<Rightarrow> bool" where
  "readiness_earned input \<longleftrightarrow>
     (\<forall>lens. target_rank (snd (lens_policy lens (risk_level input))) \<le> target_rank (oi_target input) \<longrightarrow> lens_settled input lens) \<and>
     signals_settled input \<and>
     (\<forall>c \<in> set (capability_observations input). availability c = CapAvailable \<or>
        target_rank (oi_target input) < target_rank (capability_blocks_before (availability c) (co_kind c))) \<and>
     (\<forall>n \<in> set (decision_needs input). dn_blocking n \<longrightarrow> target_rank (oi_target input) < target_rank (dn_blocks_before n))"

lemma ready_iff_earned:
  assumes "derive_assurance_case document = Inr out" and input: "input = obligation_engine_input document"
  shows "ra_verdict (readiness (assurance_case out)) = RvReady \<longleftrightarrow> readiness_earned input"
proof -
  note f = derived_fields [OF assms(1), folded input]
  note ok = accepted_input [OF f(1), folded input]
  let ?om = "observation_map (lens_observations input)" and ?t = "oi_target input"
  have l: "(\<exists>d \<in> set (map (derive_lens input ?om) all_lenses). blocks_target ?t d) \<longleftrightarrow>
      \<not> (\<forall>lens. target_rank (snd (lens_policy lens (risk_level input))) \<le> target_rank ?t \<longrightarrow> lens_settled input lens)"
    using blocks_lens [OF ok(1,2)] all_lenses_UNIV by simp
  have "ra_verdict (readiness (assurance_case out)) = RvReady \<longleftrightarrow> set (blocker_refs (readiness (assurance_case out))) = {}"
    unfolding f(10) by simp
  also have "\<dots> \<longleftrightarrow> \<not> blocks_target ?t (derive_all input)" unfolding f(9) readiness_blockers_set blocks_target_def by blast
  also have "\<dots> \<longleftrightarrow> readiness_earned input"
    unfolding derive_all_def Let_def blocks_all_of set_append bex_Un l readiness_earned_def
    by (auto simp: blocks_signals blocks_capability blocks_decision simp flip: not_le)
  finally show ?thesis .
qed

section \<open>Properties\<close>

definition sample_decision :: "string \<Rightarrow> DecisionNeed" where
  "sample_decision name =
     \<lparr>dn_id = name, dn_question = ''Go on?'', dn_reason = HrPreference,
      dn_alternatives =
        [\<lparr>da_id = ''yes'', da_description = ''go on'', da_consequences = []\<rparr>,
         \<lparr>da_id = ''no'', da_description = ''stop'', da_consequences = []\<rparr>],
      dn_recommended_alternative_ref = ''yes'', dn_affected_lenses = [IntendedOutcome], dn_blocking = False, dn_blocks_before = Explore\<rparr>"

definition sample_document :: ObligationEngineInputDocument where
  "sample_document =
     \<lparr>oid_schema_version = ''0.1'',
      obligation_engine_input =
        \<lparr>oi_case_id = ''case'',
         oi_intent = \<lparr>ip_id = ''intent'', desired_outcome = ''a tool'', ip_constraints = [], ip_preferences = [], unacceptable_outcomes = [], uncertainties = []\<rparr>,
         oi_project_snapshot = \<lparr>ps_id = ''snapshot'', state_version = 1, observed_at = ''now'', ps_evidence_refs = [], phase_projection = None\<rparr>,
         oi_target = Explore, risk_level = RiskLow, lens_observations = [], epistemic_signals = [], capability_observations = [],
         decision_needs = [sample_decision ''first'', sample_decision ''second'']\<rparr>\<rparr>"

lemma sample_blank: "\<not> is_blank ''case''" "\<not> is_blank ''a tool''" "\<not> is_blank ''first''" "\<not> is_blank ''second''"
  by code_simp+

lemma sample_accepted: "validate_input sample_document = []"
  unfolding validate_input_def Let_def sample_document_def sample_decision_def
  by (simp add: sample_blank OBLIGATION_ENGINE_INPUT_SCHEMA_VERSION_def conflict_issues_def lens_is_not_applicable_def)

lemma derive_all_requests:
  "map (\<lambda>dq. dq_id dq # map da_id (dq_alternatives dq)) (dv_requests (derive_all input)) =
     map (\<lambda>n. dn_id n # map da_id (dn_alternatives n)) (decision_needs input)"
proof -
  have l: "dv_requests (derive_lens input om lens) = []" for om lens
    using derive_lens_fields(4) [of om lens input] by (cases "ruled_out om lens") (simp_all add: derive_lens_def)
  have s: "dv_requests (apply_epistemic_signals input) = []"
    by (simp add: apply_epistemic_signals_def Let_def all_of_fields add_special_requirement_def domain_competence_gap_def)
  have c: "dv_requests (apply_capability_observation t om c) = []" for t om c by (simp add: apply_capability_observation_def Let_def)
  have "concat (map (\<lambda>x. map g (dv_requests (apply_decision_need t om x))) ns) =
      map (\<lambda>n. g (hd (dv_requests (apply_decision_need t om n)))) ns" for t om ns and g :: "DecisionRequest \<Rightarrow> string list"
    by (induction ns) (simp_all add: apply_decision_need_def)
  then show ?thesis
    by (simp add: derive_all_def Let_def all_of_fields l s c comp_def map_concat) (simp add: apply_decision_need_def)
qed

text \<open>
  C38. The engine and the validator of assurance cases agree but for identifiers: a derived case passes the
  validator exactly when its identifiers are distinct, none is blank, and it has no more actions
  than a rank can count.  The engine does not check the identifiers of the intent, the snapshot and
  the alternatives, so it also answers cases that the validator rejects.
\<close>

theorem derived_case_validates_iff:
  assumes "derive_assurance_case document = Inr out"
  shows "\<not> has_errors (validate_assurance_case out) \<longleftrightarrow>
    distinct (entity_ids (assurance_case out)) \<and> (\<forall>e \<in> set (entity_ids (assurance_case out)). \<not> is_blank e) \<and>
    length (next_actions (assurance_case out)) \<le> u32_max"
  using derived_valid_iff [OF assms] by (simp add: fresh_def)

theorem derived_case_validates_iff_witness:
  "\<exists>out. derive_assurance_case sample_document = Inr out \<and> has_errors (validate_assurance_case out)"
proof -
  obtain out where out: "derive_assurance_case sample_document = Inr out"
    using sample_accepted by (simp add: derive_assurance_case_def Let_def)
  have "concat (map (\<lambda>dq. dq_id dq # map da_id (dq_alternatives dq)) (decision_requests (assurance_case out))) =
      [''first'', ''yes'', ''no'', ''second'', ''yes'', ''no'']"
    unfolding derived_fields(5) [OF out] derive_all_requests by (simp add: sample_document_def sample_decision_def)
  then have "\<not> distinct (entity_ids (assurance_case out))" unfolding entity_ids_def by simp
  then show ?thesis using derived_case_validates_iff [OF out] out by blast
qed

text \<open>
  C5. Readiness is earned: a case derived from accepted input is ready for its target exactly when every
  lens due by then was observed as verified with evidence, waived with authority, reason and
  consequences, or (the intended outcome excepted) not applicable with a rationale, no epistemic
  signal demands more, no capability is missing or provisional past its time, and no blocking
  decision is due.
\<close>

theorem readiness_is_earned:
  assumes "derive_assurance_case document = Inr out"
  shows "ra_verdict (readiness (assurance_case out)) = RvReady \<longleftrightarrow> readiness_earned (obligation_engine_input document)"
  by (rule ready_iff_earned [OF assms refl])

theorem readiness_is_earned_witness:
  "\<exists>out. derive_assurance_case sample_document = Inr out \<and> ra_verdict (readiness (assurance_case out)) = RvReady"
proof -
  obtain out where out: "derive_assurance_case sample_document = Inr out"
    using sample_accepted by (simp add: derive_assurance_case_def Let_def)
  have "snd (lens_policy lens RiskLow) \<noteq> Explore" for lens by (cases lens) (simp_all add: lens_policy_def)
  then have "target_rank (snd (lens_policy lens RiskLow)) \<noteq> 0" for lens by (metis target_rank.elims zero_neq_numeral zero_neq_one)
  then have "readiness_earned (obligation_engine_input sample_document)"
    unfolding readiness_earned_def signals_settled_def by (simp add: sample_document_def sample_decision_def del: neq0_conv)
  then show ?thesis using readiness_is_earned [OF out] out by blast
qed

end
