(* ===== verification/Pack_Registry.thy ===== *)
theory Pack_Registry
  imports Ordered_Map
begin

text \<open>
  The contract types of domain packs and of their registry
  (\<open>src/crates/forge-core-contracts/src/domain_pack.rs\<close> and \<open>domain_pack_resolution.rs\<close>), and the check
  of a registry's artifact metadata (\<open>domain_pack_remote_acquisition.rs\<close>).  Fields that the resolver
  does not read are kept together as one text, their canonical JSON, in the fields named \<open>rest\<close>.

  The lemma shows exactly which registries pass the check.
\<close>

section \<open>Packs\<close>

record DomainPackCoordinate =
  co_publisher :: string
  co_name :: string

record DomainPackIdentity =
  pid_publisher :: string
  pid_name :: string
  pid_namespace :: string
  pid_version :: string

record DomainPackVersionReference =
  vr_publisher :: string
  vr_name :: string
  vr_version :: string

record DomainPackArtifactBinding =
  artifact_ref :: string
  raw_sha256 :: string
  canonical_sha256 :: string

record DomainPackContentBinding =
  content_ref :: string
  cb_raw_sha256 :: string
  cb_canonical_sha256 :: string

record DomainPackDependency =
  dep_pack :: DomainPackCoordinate
  dep_version_requirement :: string
  dep_required_content_digest :: "string option"

datatype DomainPackConflictReason =
  SemanticIncompatibility | NamespaceOwnership | EvaluatorIncompatibility | AdapterIncompatibility | LifecycleIncompatibility

record DomainPackConflict =
  pc_pack :: DomainPackCoordinate
  pc_version_requirement :: string
  pc_reason :: DomainPackConflictReason
  pc_explanation :: string

record DomainPackCompatibility =
  pack_schema_requirement :: string
  forge_core_requirement :: string

record DomainPackProvenance =
  license_text :: DomainPackArtifactBinding
  provenance_rest :: string

record DomainPackManifest =
  mf_identity :: DomainPackIdentity
  mf_compatibility :: DomainPackCompatibility
  mf_provenance :: DomainPackProvenance
  mf_content :: DomainPackContentBinding
  mf_dependencies :: "DomainPackDependency list"
  mf_conflicts :: "DomainPackConflict list"
  mf_rest :: string

record DomainPackManifestDocument =
  mfd_schema_version :: string
  domain_pack_manifest :: DomainPackManifest

record DomainPackContent =
  ct_pack :: DomainPackVersionReference
  ct_rest :: string

record DomainPackContentDocument =
  ctd_schema_version :: string
  domain_pack_content :: DomainPackContent

record DomainPackCandidateInput =
  in_manifest_binding :: DomainPackArtifactBinding
  in_manifest :: DomainPackManifestDocument
  in_content :: DomainPackContentDocument

record DomainPackPackageBinding =
  package_ref :: string
  pb_package_digest :: string
  pb_manifest :: DomainPackArtifactBinding
  pb_content :: DomainPackContentBinding
  pb_license :: DomainPackArtifactBinding
  pb_fixtures :: "DomainPackArtifactBinding list"

record DomainPackResolutionCandidate =
  cand_input :: DomainPackCandidateInput
  cand_package :: DomainPackPackageBinding
  cand_registry_record_digest :: "string option"

section \<open>The registry\<close>

datatype DomainPackRemoteArtifactKind = RkManifest | RkContent | RkLicense | RkFixture

datatype DomainPackRemoteArtifactMediaType = ApplicationYaml | ApplicationJson | TextPlain | ApplicationOctetStream

record DomainPackRemoteArtifactDescriptor =
  rd_kind :: DomainPackRemoteArtifactKind
  rd_binding :: DomainPackArtifactBinding
  object_path :: string
  byte_length :: u64
  media_type :: DomainPackRemoteArtifactMediaType

record DomainPackRegistryArtifactSet =
  as_manifest :: DomainPackRemoteArtifactDescriptor
  as_content :: DomainPackRemoteArtifactDescriptor
  as_license :: DomainPackRemoteArtifactDescriptor
  as_fixtures :: "DomainPackRemoteArtifactDescriptor list"

record DomainPackRegistryPackageRecord =
  rr_identity :: DomainPackIdentity
  rr_package_digest :: string
  rr_manifest_digest :: string
  rr_content_digest :: string
  rr_license_digest :: string
  rr_fixture_digests :: "string list"
  rr_artifacts :: DomainPackRegistryArtifactSet
  rr_namespace_grant_id :: string
  rr_publisher_credential_id :: string
  rr_publisher_signature_hex :: string
  rr_record_digest :: string

datatype DomainPackRegistryMirrorTransport = Https string | OperatorProvisionedLocal string

record DomainPackRegistryMirror =
  mirror_id :: string
  mirror_priority :: "16 word"
  mirror_transport :: DomainPackRegistryMirrorTransport

datatype DomainPackCredentialStatus = CredentialActive | CredentialRevoked

record DomainPackPublisherCredential =
  cr_credential_id :: string
  cr_publisher :: string
  cr_public_key_hex :: string
  cr_status :: DomainPackCredentialStatus
  cr_valid_from_unix :: u64
  cr_valid_until_unix :: u64

record DomainPackNamespaceGrant =
  gr_grant_id :: string
  gr_publisher :: string
  gr_namespace_prefix :: string
  gr_valid_from_unix :: u64
  gr_valid_until_unix :: u64

datatype DomainPackRevocationReason = KeyCompromise | ProvenanceFailure | PackageTamper | OperatorPolicy | SupersededUnsafe

record DomainPackPackageRevocation =
  rv_record_digest :: string
  rv_reason :: DomainPackRevocationReason
  rv_explanation :: string
  rv_revoked_at_unix :: u64

datatype DomainPackRegistryTrustRole = RegistrySigner | RegistryRevoker

record DomainPackRegistrySignature =
  sg_signer_key_id :: string
  sg_role :: DomainPackRegistryTrustRole
  sg_signature_hex :: string

record DomainPackSupplyChainRegistry =
  registry_id :: string
  registry_version :: string
  audience :: string
  generation :: u64
  previous_snapshot_digest :: "string option"
  issued_at_unix :: u64
  expires_at_unix :: u64
  publisher_credentials :: "DomainPackPublisherCredential list"
  namespace_grants :: "DomainPackNamespaceGrant list"
  mirrors :: "DomainPackRegistryMirror list"
  packages :: "DomainPackRegistryPackageRecord list"
  revocations :: "DomainPackPackageRevocation list"
  snapshot_digest :: string
  signatures :: "DomainPackRegistrySignature list"

record DomainPackSupplyChainRegistryDocument =
  rgd_schema_version :: string
  domain_pack_supply_chain_registry :: DomainPackSupplyChainRegistry

section \<open>Identifiers and digests\<close>

definition valid_id :: "string \<Rightarrow> bool" where
  "valid_id v \<longleftrightarrow>
     v \<noteq> [] \<and> length v \<le> 256 \<and> list_all (\<lambda>c. (of_char c :: nat) < 128) v \<and>
     hd v \<notin> {CHR ''.'', CHR ''-''} \<and> last v \<notin> {CHR ''.'', CHR ''-''} \<and>
     list_all (\<lambda>c. is_ascii_alphanumeric c \<or> c = CHR ''.'' \<or> c = CHR ''_'' \<or> c = CHR ''-'') v"

definition valid_digest :: "string \<Rightarrow> bool" where
  "valid_digest v \<longleftrightarrow>
     length v = 71 \<and> starts_with v ''sha256:'' \<and>
     list_all (\<lambda>c. is_digit c \<or> 97 \<le> (of_char c :: nat) \<and> (of_char c :: nat) \<le> 102) (drop 7 v)"

section \<open>The check of the artifact metadata\<close>

datatype DomainPackRemoteAcquisitionContractError =
  RemoteUnsupportedSchemaVersion string
| RemoteInvalidDigest string
| RemoteInvalidIdentifier string
| RemoteInvalidLocation string
| RemoteInvalidCachePolicy string
| RemoteDuplicateMirror string
| RemoteDuplicateArtifact string
| RemoteUnknownMirror string
| ArtifactDescriptorSetMismatch string
| OfflineLocalHeadRequired
| OfflineLocalHeadMismatch
| OfflineLocalHeadExpired
| InvalidOutcomeBlocks
| RemoteCanonicalization string
| RemoteDigestMismatch string

type_synonym remote_check = "DomainPackRemoteAcquisitionContractError option"

text \<open>A sequence of checks with the operator \<open>?\<close>: the first error, if there is one.\<close>

fun first_error :: "'e option list \<Rightarrow> 'e option" where
  "first_error [] = None"
| "first_error (None # checks) = first_error checks"
| "first_error (Some e # checks) = Some e"

definition required_id :: "string \<Rightarrow> string \<Rightarrow> remote_check" where
  "required_id v path = (if is_blank v then Some (RemoteInvalidIdentifier path) else None)"

definition require_digest :: "string \<Rightarrow> string \<Rightarrow> remote_check" where
  "require_digest v path =
     (if length v = 71 \<and> starts_with v ''sha256:'' \<and>
         list_all (\<lambda>c. is_digit c \<or> 97 \<le> (of_char c :: nat) \<and> (of_char c :: nat) \<le> 102) (drop 7 v)
      then None else Some (RemoteInvalidDigest path))"

definition is_ascii_control :: "char \<Rightarrow> bool" where
  "is_ascii_control c \<longleftrightarrow> (of_char c :: nat) < 32 \<or> (of_char c :: nat) = 127"

definition dotted_component :: "string \<Rightarrow> bool" where
  "dotted_component part \<longleftrightarrow> part = [] \<or> part = ''.'' \<or> part = ''..''"

definition validate_https_base_url :: "string \<Rightarrow> string \<Rightarrow> remote_check" where
  "validate_https_base_url v path =
     (if \<not> starts_with v ''https://'' then Some (RemoteInvalidLocation path)
      else let remainder = drop 8 v; parts = split_on (\<lambda>c. c = CHR ''/'') remainder
      in if remainder = [] \<or> list_ex is_ascii_control v \<or> list_ex (\<lambda>c. c \<in> {CHR ''@'', CHR ''#'', CHR ''?'', CHR 0x5C}) v
         then Some (RemoteInvalidLocation path)
         else if hd parts = [] \<or> list_ex dotted_component (tl parts) then Some (RemoteInvalidLocation path)
         else None)"

definition validate_mirror_transport :: "DomainPackRegistryMirrorTransport \<Rightarrow> string \<Rightarrow> remote_check" where
  "validate_mirror_transport transport path =
     (case transport of
        Https base_url \<Rightarrow> validate_https_base_url base_url (path @ ''.base_url'')
      | OperatorProvisionedLocal location_id \<Rightarrow> required_id location_id (path @ ''.location_id''))"

definition validate_repo_path :: "string \<Rightarrow> string \<Rightarrow> remote_check" where
  "validate_repo_path p field =
     (if p = [] \<or> starts_with p ''/'' \<or> starts_with p [CHR 0x5C] \<or> CHR 0x5C \<in> set p \<or> list_ex is_ascii_control p \<or>
         list_ex dotted_component (split_on (\<lambda>c. c = CHR ''/'') p)
      then Some (RemoteInvalidLocation field) else None)"

definition validate_content_addressed_object_path :: "string \<Rightarrow> string \<Rightarrow> string \<Rightarrow> remote_check" where
  "validate_content_addressed_object_path p raw field =
     first_error
       [validate_repo_path p field, require_digest raw field,
        if p \<noteq> ''objects/sha256/'' @ drop 7 raw then Some (RemoteInvalidLocation field) else None]"

definition validate_artifact_descriptor :: "DomainPackRemoteArtifactDescriptor \<Rightarrow> string \<Rightarrow> remote_check" where
  "validate_artifact_descriptor d path =
     first_error
       [validate_repo_path (artifact_ref (rd_binding d)) (path @ ''.binding.artifact_ref''),
        require_digest (raw_sha256 (rd_binding d)) (path @ ''.binding.raw_sha256''),
        require_digest (canonical_sha256 (rd_binding d)) (path @ ''.binding.canonical_sha256''),
        validate_content_addressed_object_path (object_path d) (raw_sha256 (rd_binding d)) (path @ ''.object_path'')]"

definition package_descriptors :: "DomainPackRegistryArtifactSet \<Rightarrow> DomainPackRemoteArtifactDescriptor list" where
  "package_descriptors a = [as_manifest a, as_content a, as_license a] @ as_fixtures a"

text \<open>The loop over the descriptors, with the references and the object paths seen so far.\<close>

fun validate_descriptors ::
  "string \<Rightarrow> nat \<Rightarrow> string list \<Rightarrow> string list \<Rightarrow> DomainPackRemoteArtifactDescriptor list \<Rightarrow> remote_check" where
  "validate_descriptors path i logical_refs object_paths [] = None"
| "validate_descriptors path i logical_refs object_paths (d # ds) =
     first_error
       [validate_artifact_descriptor d (path @ ''['' @ show_nat i @ '']''),
        if artifact_ref (rd_binding d) \<in> set logical_refs then Some (RemoteDuplicateArtifact (path @ ''.binding.artifact_ref'')) else None,
        if object_path d \<in> set object_paths then Some (RemoteDuplicateArtifact (path @ ''.object_path'')) else None,
        validate_descriptors path (Suc i) (bs_insert (artifact_ref (rd_binding d)) logical_refs)
          (bs_insert (object_path d) object_paths) ds]"

definition MAX_DOMAIN_PACK_REMOTE_ARTIFACTS_PER_PACKAGE :: nat where
  "MAX_DOMAIN_PACK_REMOTE_ARTIFACTS_PER_PACKAGE = 256"

definition MAX_DOMAIN_PACK_REMOTE_MIRRORS :: nat where
  "MAX_DOMAIN_PACK_REMOTE_MIRRORS = 32"

definition validate_artifact_set ::
  "DomainPackRegistryArtifactSet \<Rightarrow> DomainPackRegistryPackageRecord \<Rightarrow> string \<Rightarrow> remote_check" where
  "validate_artifact_set a r path =
     first_error
       [if length (package_descriptors a) > MAX_DOMAIN_PACK_REMOTE_ARTIFACTS_PER_PACKAGE
        then Some (ArtifactDescriptorSetMismatch path) else None,
        if rd_kind (as_manifest a) \<noteq> RkManifest \<or> rd_kind (as_content a) \<noteq> RkContent \<or> rd_kind (as_license a) \<noteq> RkLicense \<or>
           list_ex (\<lambda>f. rd_kind f \<noteq> RkFixture) (as_fixtures a)
        then Some (ArtifactDescriptorSetMismatch path) else None,
        validate_descriptors path 0 [] [] (package_descriptors a),
        if rr_manifest_digest r \<noteq> raw_sha256 (rd_binding (as_manifest a)) \<or>
           rr_content_digest r \<noteq> raw_sha256 (rd_binding (as_content a)) \<or>
           rr_license_digest r \<noteq> raw_sha256 (rd_binding (as_license a)) \<or>
           length (rr_fixture_digests r) \<noteq> length (as_fixtures a) \<or>
           list_ex (\<lambda>(digest, f). digest \<noteq> raw_sha256 (rd_binding f)) (zip (rr_fixture_digests r) (as_fixtures a))
        then Some (ArtifactDescriptorSetMismatch path) else None]"

fun validate_mirrors :: "nat \<Rightarrow> string list \<Rightarrow> DomainPackRegistryMirror list \<Rightarrow> remote_check" where
  "validate_mirrors i seen [] = None"
| "validate_mirrors i seen (m # ms) =
     (let path = ''domain_pack_supply_chain_registry.mirrors['' @ show_nat i @ '']'' in
      first_error
        [required_id (mirror_id m) (path @ ''.mirror_id''),
         if mirror_id m \<in> set seen then Some (RemoteDuplicateMirror (mirror_id m)) else None,
         validate_mirror_transport (mirror_transport m) (path @ ''.transport''),
         validate_mirrors (Suc i) (bs_insert (mirror_id m) seen) ms])"

definition validate_package_record :: "nat \<Rightarrow> DomainPackRegistryPackageRecord \<Rightarrow> remote_check" where
  "validate_package_record i r =
     (let path = ''domain_pack_supply_chain_registry.packages['' @ show_nat i @ '']'' in
      first_error
        ([require_digest (rr_package_digest r) (path @ ''.package_digest''),
          require_digest (rr_manifest_digest r) (path @ ''.manifest_digest''),
          require_digest (rr_content_digest r) (path @ ''.content_digest''),
          require_digest (rr_license_digest r) (path @ ''.license_digest''),
          require_digest (rr_record_digest r) (path @ ''.record_digest'')] @
         map (\<lambda>(j, digest). require_digest digest (path @ ''.fixture_digests['' @ show_nat j @ '']''))
           (enumerate 0 (rr_fixture_digests r)) @
         [validate_artifact_set (rr_artifacts r) r (path @ ''.artifacts'')]))"

definition validate_remote_acquisition_metadata :: "DomainPackSupplyChainRegistryDocument \<Rightarrow> remote_check" where
  "validate_remote_acquisition_metadata doc =
     (let registry = domain_pack_supply_chain_registry doc in
      first_error
        ([if length (mirrors registry) > MAX_DOMAIN_PACK_REMOTE_MIRRORS
          then Some (RemoteInvalidLocation ''domain_pack_supply_chain_registry.mirrors'') else None,
          validate_mirrors 0 [] (mirrors registry)] @
         map (\<lambda>(i, r). validate_package_record i r) (enumerate 0 (packages registry))))"

section \<open>What the check accepts\<close>

named_theorems check_none \<open>when a check finds no error\<close>

lemma first_error_None [check_none]: "first_error checks = None \<longleftrightarrow> (\<forall>c \<in> set checks. c = None)"
  by (induction checks rule: first_error.induct) auto

lemma require_digest_None [check_none]: "require_digest v path = None \<longleftrightarrow> valid_digest v"
  by (simp add: require_digest_def valid_digest_def)

lemma required_id_None [check_none]: "required_id v path = None \<longleftrightarrow> \<not> is_blank v"
  by (simp add: required_id_def)

text \<open>A relative path without empty, dot or control components.\<close>

definition clean_relative :: "string \<Rightarrow> bool" where
  "clean_relative p \<longleftrightarrow>
     CHR 0x5C \<notin> set p \<and> \<not> list_ex is_ascii_control p \<and> \<not> list_ex dotted_component (split_on (\<lambda>c. c = CHR ''/'') p)"

lemma validate_repo_path_None [check_none]: "validate_repo_path p field = None \<longleftrightarrow> clean_relative p"
proof -
  have "dotted_component (hd (split_on (\<lambda>c. c = CHR ''/'') p))" if "p = [] \<or> starts_with p ''/''"
    using that by (cases p) (auto simp: dotted_component_def starts_with_def)
  then have "list_ex dotted_component (split_on (\<lambda>c. c = CHR ''/'') p)" if "p = [] \<or> starts_with p ''/''"
    using that hd_in_set [OF split_on_not_Nil, of "\<lambda>c. c = CHR ''/''" p] unfolding list_ex_iff by blast
  moreover have "starts_with p [CHR 0x5C] \<Longrightarrow> CHR 0x5C \<in> set p" by (cases p) (auto simp: starts_with_def)
  ultimately show ?thesis by (auto simp: validate_repo_path_def clean_relative_def)
qed

definition transport_ok :: "DomainPackRegistryMirrorTransport \<Rightarrow> bool" where
  "transport_ok transport \<longleftrightarrow> validate_mirror_transport transport [] = None"

lemma validate_mirror_transport_None [check_none]: "validate_mirror_transport transport path = None \<longleftrightarrow> transport_ok transport"
  by (auto simp: validate_mirror_transport_def transport_ok_def validate_https_base_url_def required_id_def Let_def
      split: DomainPackRegistryMirrorTransport.splits)

definition descriptor_ok :: "DomainPackRemoteArtifactDescriptor \<Rightarrow> bool" where
  "descriptor_ok d \<longleftrightarrow>
     clean_relative (artifact_ref (rd_binding d)) \<and> valid_digest (raw_sha256 (rd_binding d)) \<and>
     valid_digest (canonical_sha256 (rd_binding d)) \<and> clean_relative (object_path d) \<and>
     object_path d = ''objects/sha256/'' @ drop 7 (raw_sha256 (rd_binding d))"

lemma validate_artifact_descriptor_None [check_none]: "validate_artifact_descriptor d path = None \<longleftrightarrow> descriptor_ok d"
  by (auto simp: validate_artifact_descriptor_def validate_content_addressed_object_path_def check_none descriptor_ok_def)

lemma validate_descriptors_None:
  "validate_descriptors path i refs objs ds = None \<longleftrightarrow>
     (\<forall>d \<in> set ds. descriptor_ok d) \<and> distinct (map (artifact_ref \<circ> rd_binding) ds) \<and> distinct (map object_path ds) \<and>
     (\<forall>d \<in> set ds. artifact_ref (rd_binding d) \<notin> set refs \<and> object_path d \<notin> set objs)"
  by (induction ds arbitrary: i refs objs) (auto simp: check_none image_iff)

lemma validate_mirrors_None:
  "validate_mirrors i seen ms = None \<longleftrightarrow>
     (\<forall>m \<in> set ms. \<not> is_blank (mirror_id m) \<and> transport_ok (mirror_transport m) \<and> mirror_id m \<notin> set seen) \<and>
     distinct (map mirror_id ms)"
  by (induction ms arbitrary: i seen) (auto simp: check_none Let_def image_iff)

lemma list_ex_zip_neq:
  "length xs = length ys \<Longrightarrow> list_ex (\<lambda>(x, y). x \<noteq> f y) (zip xs ys) \<longleftrightarrow> xs \<noteq> map f ys"
  by (induction xs ys rule: list_induct2) auto

definition artifacts_ok :: "DomainPackRegistryPackageRecord \<Rightarrow> bool" where
  "artifacts_ok r \<longleftrightarrow>
     (let a = rr_artifacts r; ds = package_descriptors a in
      length ds \<le> 256 \<and> map rd_kind ds = [RkManifest, RkContent, RkLicense] @ replicate (length (as_fixtures a)) RkFixture \<and>
      (\<forall>d \<in> set ds. descriptor_ok d) \<and> distinct (map (artifact_ref \<circ> rd_binding) ds) \<and>
      distinct (map (raw_sha256 \<circ> rd_binding) ds) \<and>
      map (raw_sha256 \<circ> rd_binding) ds = [rr_manifest_digest r, rr_content_digest r, rr_license_digest r] @ rr_fixture_digests r)"

lemma digest_hex_inj: "valid_digest a \<Longrightarrow> valid_digest b \<Longrightarrow> drop 7 a = drop 7 b \<Longrightarrow> a = b"
proof -
  assume "valid_digest a" "valid_digest b" and d: "drop 7 a = drop 7 b"
  then have "take 7 a = take 7 b" by (simp add: valid_digest_def starts_with_def numeral_eq_Suc)
  then show "a = b" using d by (metis append_take_drop_id)
qed

lemma object_paths_distinct:
  assumes "\<forall>d \<in> set ds. descriptor_ok d"
  shows "distinct (map object_path ds) \<longleftrightarrow> distinct (map (raw_sha256 \<circ> rd_binding) ds)"
proof -
  have "inj_on object_path (set ds) \<longleftrightarrow> inj_on (raw_sha256 \<circ> rd_binding) (set ds)"
    using assms digest_hex_inj unfolding inj_on_def descriptor_ok_def comp_def by (metis same_append_eq)
  then show ?thesis by (simp add: distinct_map)
qed

lemma all_kind_replicate: "map rd_kind fs = replicate (length fs) k \<longleftrightarrow> \<not> list_ex (\<lambda>f. rd_kind f \<noteq> k) fs"
  by (induction fs) auto

lemma first_error_artifact_set:
  "first_error [if A then Some e else None, if K then Some e else None, check, if M then Some e else None] = None \<longleftrightarrow>
     \<not> A \<and> \<not> K \<and> check = None \<and> \<not> M"
  by (simp add: check_none)

lemma fixture_digests_match:
  "length xs \<noteq> length fs \<or> list_ex (\<lambda>(x, f). x \<noteq> raw_sha256 (rd_binding f)) (zip xs fs) \<longleftrightarrow> map (raw_sha256 \<circ> rd_binding) fs \<noteq> xs"
  using list_ex_zip_neq [of xs fs "raw_sha256 \<circ> rd_binding"] by (cases "length xs = length fs") (auto simp: comp_def)

lemma descriptor_kinds:
  "map rd_kind (package_descriptors a) = [RkManifest, RkContent, RkLicense] @ replicate (length (as_fixtures a)) RkFixture \<longleftrightarrow>
     \<not> (rd_kind (as_manifest a) \<noteq> RkManifest \<or> rd_kind (as_content a) \<noteq> RkContent \<or> rd_kind (as_license a) \<noteq> RkLicense \<or>
       list_ex (\<lambda>f. rd_kind f \<noteq> RkFixture) (as_fixtures a))"
  by (auto simp: package_descriptors_def all_kind_replicate)

lemma descriptor_digests:
  "map (raw_sha256 \<circ> rd_binding) (package_descriptors a) = [m, c, l] @ fs \<longleftrightarrow>
     \<not> (m \<noteq> raw_sha256 (rd_binding (as_manifest a)) \<or> c \<noteq> raw_sha256 (rd_binding (as_content a)) \<or>
       l \<noteq> raw_sha256 (rd_binding (as_license a)) \<or> map (raw_sha256 \<circ> rd_binding) (as_fixtures a) \<noteq> fs)"
  by (auto simp: package_descriptors_def)

lemma validate_artifact_set_None [check_none]:
  "validate_artifact_set (rr_artifacts r) r path = None \<longleftrightarrow> artifacts_ok r"
  unfolding validate_artifact_set_def artifacts_ok_def Let_def first_error_artifact_set descriptor_kinds descriptor_digests
    MAX_DOMAIN_PACK_REMOTE_ARTIFACTS_PER_PACKAGE_def fixture_digests_match validate_descriptors_None
  using object_paths_distinct [of "package_descriptors (rr_artifacts r)"]
  by (cases "Ball (set (package_descriptors (rr_artifacts r))) descriptor_ok") (simp_all add: not_less conj_commute conj_left_commute del: ball_simps)

lemma all_enumerate: "(\<forall>p \<in> set (enumerate 0 xs). P (snd p)) \<longleftrightarrow> (\<forall>x \<in> set xs. P x)"
proof -
  have "snd ` set (enumerate 0 xs) = set xs" unfolding set_map [symmetric] by simp
  then show ?thesis using ball_simps(9) [of snd "set (enumerate 0 xs)" P] by simp
qed

lemma validate_package_record_None [check_none]:
  "validate_package_record i r = None \<longleftrightarrow>
     valid_digest (rr_package_digest r) \<and> valid_digest (rr_record_digest r) \<and> artifacts_ok r"
proof -
  have v: "valid_digest (raw_sha256 (rd_binding x))" if "artifacts_ok r" "x \<in> set (package_descriptors (rr_artifacts r))" for x
    using that unfolding artifacts_ok_def Let_def descriptor_ok_def by blast
  have e: "[rr_manifest_digest r, rr_content_digest r, rr_license_digest r] @ rr_fixture_digests r =
      map (raw_sha256 \<circ> rd_binding) (package_descriptors (rr_artifacts r))" if "artifacts_ok r"
    using that unfolding artifacts_ok_def Let_def by presburger
  have "list_all valid_digest ([rr_manifest_digest r, rr_content_digest r, rr_license_digest r] @ rr_fixture_digests r)"
    if "artifacts_ok r" unfolding e [OF that] using v [OF that] by (simp add: list_all_iff)
  then have d: "artifacts_ok r \<Longrightarrow> valid_digest (rr_manifest_digest r) \<and> valid_digest (rr_content_digest r) \<and>
      valid_digest (rr_license_digest r) \<and> (\<forall>x \<in> set (rr_fixture_digests r). valid_digest x)"
    by (simp add: list_all_iff)
  have "validate_package_record i r = None \<longleftrightarrow>
      valid_digest (rr_package_digest r) \<and> valid_digest (rr_manifest_digest r) \<and> valid_digest (rr_content_digest r) \<and>
      valid_digest (rr_license_digest r) \<and> valid_digest (rr_record_digest r) \<and>
      artifacts_ok r \<and> (\<forall>x \<in> set (rr_fixture_digests r). valid_digest x)"
    by (simp add: validate_package_record_def Let_def check_none split_beta ball_Un all_enumerate [where P = valid_digest])
  with d show ?thesis by (cases "artifacts_ok r") simp_all
qed

text \<open>
  The registries that pass: at most 32 mirrors with distinct identifiers and clean locations, and for every
  package well-formed digests and at most 256 artifacts in their places, with distinct references, each
  stored under the path its own digest gives, no two with the same digest.
\<close>

lemma validate_remote_acquisition_metadata_None:
  "validate_remote_acquisition_metadata doc = None \<longleftrightarrow>
     (let registry = domain_pack_supply_chain_registry doc in
      length (mirrors registry) \<le> 32 \<and> distinct (map mirror_id (mirrors registry)) \<and>
      (\<forall>m \<in> set (mirrors registry). \<not> is_blank (mirror_id m) \<and> transport_ok (mirror_transport m)) \<and>
      (\<forall>r \<in> set (packages registry). valid_digest (rr_package_digest r) \<and> valid_digest (rr_record_digest r) \<and> artifacts_ok r))"
  by (auto simp: validate_remote_acquisition_metadata_def Let_def check_none validate_mirrors_None split_beta ball_Un
      MAX_DOMAIN_PACK_REMOTE_MIRRORS_def
      all_enumerate [where P = "\<lambda>r. valid_digest (rr_package_digest r) \<and> valid_digest (rr_record_digest r) \<and> artifacts_ok r"])

end
