(* ===== verification/Pack_Search.thy ===== *)
theory Pack_Search
  imports Pack_Registry Ordered_Kahn
begin

text \<open>
  The selection of domain packs, the middle of
  \<open>src/crates/forge-core-decisions/src/domain_pack_resolution.rs\<close>: a search with backtracking over the admitted
  versions of every coordinate that is asked for, bounded by a number of states, with its tests for
  conflicts and cycles.

  The crate \<open>semver\<close> and the digests are not part of the repository: they are the fields of
  \<open>pack_env\<close>, over an ordered type of versions and a type of version requirements.

  The lemmas show that the search is sound and complete: it returns a selection that satisfies every
  requirement, without conflicts and cycles, and unless it runs out of states it fails only when there is
  no such selection.  The search is a total function: every call selects one more of the coordinates that
  have candidates.
\<close>

section \<open>The environment\<close>

record ('v, 'r) pack_env =
  parse_version :: "string \<Rightarrow> 'v option"
  version_text :: "'v \<Rightarrow> string"
  pre_is_empty :: "'v \<Rightarrow> bool"
  parse_req :: "string \<Rightarrow> 'r option"
  req_matches :: "'r \<Rightarrow> 'v \<Rightarrow> bool"
  comparators_pre_empty :: "'r \<Rightarrow> bool list"
  candidate_digest :: "DomainPackResolutionCandidate \<Rightarrow> string option"

datatype DomainPackResolutionIssueCode =
  UnsupportedSchemaVersion
| InvalidIdentity
| InvalidDigest
| InvalidVersionRequirement
| RegistryDigestMismatch
| RegistryRecordMissing
| RegistryRecordMismatch
| RegistryExpired
| RegistrySignatureInvalid
| PublisherSignatureInvalid
| NamespaceNotGranted
| RevokedPackage
| ExplicitlyUntrustedIssue
| DuplicateVersionEquivocation
| MissingRoot
| MissingDependency
| IncompatibleDependency
| DependencyCycle
| DeclaredConflict
| PrereleaseNotExplicit
| CurrentLockMismatch
| ResourceLimitExceeded
| CompositionBlocked

record 'v Admitted =
  ad_candidate_index :: nat
  ad_candidate :: DomainPackResolutionCandidate
  ad_record :: DomainPackRegistryPackageRecord
  ad_version :: 'v

record 'r Constraint =
  cn_requirement :: 'r
  cn_required_content_digest :: "string option"

record SearchFailure =
  sf_code :: "DomainPackResolutionIssueCode option"
  sf_path :: string
  sf_message :: string
  resource_exhausted :: bool

record 'v SearchContext =
  sc_candidates :: "'v Admitted list btree_map"
  sc_locked :: "string btree_map"
  sc_upgrade_targets :: "string list"
  sc_root_coordinates :: "string list"

type_synonym 'r constraints = "'r Constraint list btree_map"
type_synonym 'v selection = "'v Admitted btree_map"

definition MAX_DOMAIN_PACK_RESOLUTION_SEARCH_STATES :: nat where
  "MAX_DOMAIN_PACK_RESOLUTION_SEARCH_STATES = 10000"

section \<open>Sorting\<close>

text \<open>\<open>slice::sort_by\<close>, a stable sort; the comparison is given as its test for not greater.\<close>

fun insort_by :: "('a \<Rightarrow> 'a \<Rightarrow> bool) \<Rightarrow> 'a \<Rightarrow> 'a list \<Rightarrow> 'a list" where
  "insort_by le x [] = [x]"
| "insort_by le x (y # ys) = (if le x y then x # y # ys else y # insort_by le x ys)"

definition sort_by :: "('a \<Rightarrow> 'a \<Rightarrow> bool) \<Rightarrow> 'a list \<Rightarrow> 'a list" where
  "sort_by le xs = foldr (insort_by le) xs []"

section \<open>Keys and tests\<close>

definition candidate_identity :: "DomainPackResolutionCandidate \<Rightarrow> DomainPackIdentity" where
  "candidate_identity c = mf_identity (domain_pack_manifest (in_manifest (cand_input c)))"

definition coordinate_key_parts :: "string \<Rightarrow> string \<Rightarrow> string" where
  "coordinate_key_parts publisher name = publisher @ ''::'' @ name"

definition coordinate_key :: "DomainPackCoordinate \<Rightarrow> string" where
  "coordinate_key c = coordinate_key_parts (co_publisher c) (co_name c)"

definition candidate_order_key :: "('v, 'r) pack_env \<Rightarrow> DomainPackResolutionCandidate \<Rightarrow> string" where
  "candidate_order_key env c = (case candidate_digest env c of Some d \<Rightarrow> d | None \<Rightarrow> [])"

abbreviation pack_dependencies :: "'v Admitted \<Rightarrow> DomainPackDependency list" where
  "pack_dependencies a \<equiv> mf_dependencies (domain_pack_manifest (in_manifest (cand_input (ad_candidate a))))"

abbreviation pack_conflicts :: "'v Admitted \<Rightarrow> DomainPackConflict list" where
  "pack_conflicts a \<equiv> mf_conflicts (domain_pack_manifest (in_manifest (cand_input (ad_candidate a))))"

definition requirement_explicitly_allows_prerelease :: "('v, 'r) pack_env \<Rightarrow> 'r \<Rightarrow> bool" where
  "requirement_explicitly_allows_prerelease env r \<longleftrightarrow> list_ex (\<lambda>e. \<not> e) (comparators_pre_empty env r)"

definition satisfies :: "('v, 'r) pack_env \<Rightarrow> 'v Admitted \<Rightarrow> 'r Constraint list \<Rightarrow> bool" where
  "satisfies env a cs \<longleftrightarrow>
     list_all (\<lambda>c.
       req_matches env (cn_requirement c) (ad_version a) \<and>
       (case cn_required_content_digest c of
          None \<Rightarrow> True
        | Some d \<Rightarrow> d = cb_canonical_sha256 (pb_content (cand_package (ad_candidate a)))) \<and>
       (pre_is_empty env (ad_version a) \<or> requirement_explicitly_allows_prerelease env (cn_requirement c))) cs"

definition order_choices ::
  "('v :: linorder, 'r) pack_env \<Rightarrow> 'v SearchContext \<Rightarrow> string \<Rightarrow> 'v Admitted list \<Rightarrow> 'v Admitted list" where
  "order_choices env ctx key choices =
     (let locked_version = (if key \<notin> set (sc_upgrade_targets ctx) then bt_get (sc_locked ctx) key else None);
          locked = (\<lambda>a. case locked_version of None \<Rightarrow> False | Some v \<Rightarrow> version_text env (ad_version a) = v)
      in sort_by (\<lambda>l r.
           locked l \<and> \<not> locked r \<or>
           locked l = locked r \<and>
             (ad_version r < ad_version l \<or>
              ad_version r = ad_version l \<and>
                candidate_order_key env (ad_candidate l) \<le> candidate_order_key env (ad_candidate r))) choices)"

definition conflicts_with_selected :: "('v, 'r) pack_env \<Rightarrow> 'v Admitted \<Rightarrow> 'v selection \<Rightarrow> bool" where
  "conflicts_with_selected env a selected \<longleftrightarrow>
     list_ex (\<lambda>c.
       case bt_get selected (coordinate_key (pc_pack c)) of
         None \<Rightarrow> False
       | Some other \<Rightarrow>
           (case parse_req env (pc_version_requirement c) of
              None \<Rightarrow> False
            | Some r \<Rightarrow> req_matches env r (ad_version other))) (pack_conflicts a)"

definition selected_conflict :: "('v, 'r) pack_env \<Rightarrow> 'v selection \<Rightarrow> bool" where
  "selected_conflict env selected \<longleftrightarrow> list_ex (\<lambda>a. conflicts_with_selected env a selected) (bt_values selected)"

section \<open>Cycles\<close>

text \<open>The keys of a selection that are not on the path of a visit.\<close>

definition unvisited_keys :: "'v selection \<Rightarrow> string list \<Rightarrow> nat" where
  "unvisited_keys selected visiting = card (fst ` set selected - set visiting)"

lemma unvisited_keys_visit:
  assumes "bt_get selected key = Some a" "key \<notin> set visiting"
  shows "unvisited_keys selected (bs_insert key visiting) < unvisited_keys selected visiting"
proof -
  have "key \<in> fst ` set selected" using assms(1) by (force simp: bt_get_def dest: map_of_SomeD)
  then show ?thesis using assms(2) unfolding unvisited_keys_def by (intro psubset_card_mono) auto
qed

text \<open>
  The depth-first visit of \<open>graph_has_cycle\<close>.  A call that returns false has removed from \<open>visiting\<close> exactly
  what it inserted, and a call that returns true ends the search, so \<open>visiting\<close> is passed down and only
  \<open>visited\<close> is threaded through the calls.
\<close>

function visit ::
  "'v selection \<Rightarrow> string list \<Rightarrow> string list \<Rightarrow> string \<Rightarrow> bool \<times> string list"
and visit_dependencies ::
  "'v selection \<Rightarrow> string list \<Rightarrow> string list \<Rightarrow> DomainPackDependency list \<Rightarrow> bool \<times> string list" where
  "visit selected visiting visited key =
     (if key \<in> set visited then (False, visited)
      else if key \<in> set visiting then (True, visited)
      else
        (case (case bt_get selected key of
                 None \<Rightarrow> (False, visited)
               | Some a \<Rightarrow> visit_dependencies selected (bs_insert key visiting) visited (pack_dependencies a)) of
           (True, visited') \<Rightarrow> (True, visited')
         | (False, visited') \<Rightarrow> (False, bs_insert key visited')))"
| "visit_dependencies selected visiting visited [] = (False, visited)"
| "visit_dependencies selected visiting visited (d # ds) =
     (case visit selected visiting visited (coordinate_key (dep_pack d)) of
        (True, visited') \<Rightarrow> (True, visited')
      | (False, visited') \<Rightarrow> visit_dependencies selected visiting visited' ds)"
  by pat_completeness auto

termination
proof (relation "measures [\<lambda>x. case x of Inl (s, p, v, k) \<Rightarrow> unvisited_keys s p | Inr (s, p, v, ds) \<Rightarrow> unvisited_keys s p,
    \<lambda>x. case x of Inl (s, p, v, k) \<Rightarrow> 0 | Inr (s, p, v, ds) \<Rightarrow> length ds]", goal_cases)
  case (2 selected visiting visited key a)
  then show ?case using unvisited_keys_visit by fastforce
qed auto

declare visit.simps [simp del]

fun visit_keys :: "'v selection \<Rightarrow> string list \<Rightarrow> string list \<Rightarrow> bool" where
  "visit_keys selected visited [] = False"
| "visit_keys selected visited (key # keys) =
     (case visit selected [] visited key of
        (True, visited') \<Rightarrow> True
      | (False, visited') \<Rightarrow> visit_keys selected visited' keys)"

definition graph_has_cycle :: "'v selection \<Rightarrow> bool" where
  "graph_has_cycle selected = visit_keys selected [] (map fst selected)"

section \<open>The search\<close>

definition missing_failure :: "'v SearchContext \<Rightarrow> string \<Rightarrow> SearchFailure" where
  "missing_failure ctx key =
     (let root = key \<in> set (sc_root_coordinates ctx) in
      \<lparr> sf_code = Some (if root then MissingRoot else MissingDependency),
        sf_path = ''selection.'' @ key,
        sf_message = (if root then ''no admitted candidate satisfies the root''
          else ''no admitted candidate satisfies the dependency''),
        resource_exhausted = False \<rparr>)"

definition selection_failure :: "DomainPackResolutionIssueCode \<Rightarrow> string \<Rightarrow> string \<Rightarrow> SearchFailure" where
  "selection_failure code path message =
     \<lparr> sf_code = Some code, sf_path = path, sf_message = message, resource_exhausted = False \<rparr>"

text \<open>\<open>entry(key).or_default().push(value)\<close>.\<close>

definition bt_push :: "string \<Rightarrow> 'a \<Rightarrow> 'a list btree_map \<Rightarrow> 'a list btree_map" where
  "bt_push k x m = bt_insert k ((case bt_get m k of Some xs \<Rightarrow> xs | None \<Rightarrow> []) @ [x]) m"

fun push_dependencies ::
  "('v, 'r) pack_env \<Rightarrow> string \<Rightarrow> DomainPackDependency list \<Rightarrow> 'r constraints \<Rightarrow> SearchFailure + 'r constraints" where
  "push_dependencies env key [] constraints = Inr constraints"
| "push_dependencies env key (d # ds) constraints =
     (case parse_req env (dep_version_requirement d) of
        None \<Rightarrow>
          Inl (selection_failure InvalidVersionRequirement (''selection.'' @ key @ ''.dependencies'')
            ''dependency requirement is invalid'')
      | Some r \<Rightarrow>
          push_dependencies env key ds
            (bt_push (coordinate_key (dep_pack d))
               \<lparr> cn_requirement = r, cn_required_content_digest = dep_required_content_digest d \<rparr> constraints))"

text \<open>One pass of the loop over the choices, up to the recursive call.\<close>

definition extend_selection ::
  "('v, 'r) pack_env \<Rightarrow> string \<Rightarrow> 'v Admitted \<Rightarrow> 'r constraints \<Rightarrow> 'v selection \<Rightarrow>
     SearchFailure + 'r constraints \<times> 'v selection" where
  "extend_selection env key choice constraints selected =
     (if conflicts_with_selected env choice selected
      then Inl (selection_failure DeclaredConflict (''selection.'' @ key)
        ''candidate declares a conflict with the selected graph'')
      else
        (let next_selected = bt_insert key choice selected in
         if selected_conflict env next_selected
         then Inl (selection_failure DeclaredConflict (''selection.'' @ key)
           ''selected graph contains a declared conflict'')
         else
           (case push_dependencies env key (pack_dependencies choice) constraints of
              Inl failure \<Rightarrow> Inl failure
            | Inr next_constraints \<Rightarrow>
                if list_ex (\<lambda>(k, a).
                     case bt_get next_constraints k of None \<Rightarrow> False | Some cs \<Rightarrow> \<not> satisfies env a cs) next_selected
                then Inl (selection_failure IncompatibleDependency (''selection.'' @ key)
                  ''candidate makes an already selected dependency incompatible'')
                else Inr (next_constraints, next_selected))))"

text \<open>The loop over the choices; \<open>descend\<close> is the recursive call of \<open>search\<close>, with the number of states used.\<close>

fun try_choices ::
  "(nat \<Rightarrow> 'r constraints \<Rightarrow> 'v selection \<Rightarrow> nat \<times> (SearchFailure + 'v selection)) \<Rightarrow>
     ('v, 'r) pack_env \<Rightarrow> 'v SearchContext \<Rightarrow> string \<Rightarrow> 'r constraints \<Rightarrow> 'v selection \<Rightarrow>
     nat \<Rightarrow> SearchFailure option \<Rightarrow> 'v Admitted list \<Rightarrow> nat \<times> (SearchFailure + 'v selection)" where
  "try_choices descend env ctx key constraints selected states last_failure [] =
     (states, Inl (case last_failure of Some f \<Rightarrow> f | None \<Rightarrow> missing_failure ctx key))"
| "try_choices descend env ctx key constraints selected states last_failure (choice # choices) =
     (case extend_selection env key choice constraints selected of
        Inl f \<Rightarrow> try_choices descend env ctx key constraints selected states (Some f) choices
      | Inr (next_constraints, next_selected) \<Rightarrow>
          (case descend states next_constraints next_selected of
             (states', Inr solution) \<Rightarrow> (states', Inr solution)
           | (states', Inl f) \<Rightarrow>
               if resource_exhausted f then (states', Inl f)
               else try_choices descend env ctx key constraints selected states' (Some f) choices))"

lemma try_choices_cong [fundef_cong]:
  assumes "env = env'" "ctx = ctx'" "key = key'" "constraints = constraints'" "selected = selected'" "states = states'"
    "last_failure = last_failure'" "choices = choices'"
    and "\<And>choice st c s. choice \<in> set choices' \<Longrightarrow> extend_selection env' key' choice constraints' selected' = Inr (c, s) \<Longrightarrow>
      f st c s = g st c s"
  shows "try_choices f env ctx key constraints selected states last_failure choices =
    try_choices g env' ctx' key' constraints' selected' states' last_failure' choices'"
  unfolding assms(1-8) using assms(9)
proof (induction choices' arbitrary: states' last_failure')
  case (Cons a choices)
  have "f st c s = g st c s" if "extend_selection env' key' a constraints' selected' = Inr (c, s)" for st c s
    by (rule Cons.prems [OF _ that]) simp
  moreover have "try_choices f env' ctx' key' constraints' selected' st lf choices =
      try_choices g env' ctx' key' constraints' selected' st lf choices" for st lf
    by (rule Cons.IH, rule Cons.prems) simp_all
  ultimately show ?case by (cases "extend_selection env' key' a constraints' selected'") (auto split: prod.splits sum.splits)
qed simp

lemma extend_selection_selected:
  "extend_selection env key choice constraints selected = Inr (c, s) \<Longrightarrow> s = bt_insert key choice selected"
  by (auto simp: extend_selection_def Let_def split: if_splits sum.splits)

function search ::
  "('v :: linorder, 'r) pack_env \<Rightarrow> 'v SearchContext \<Rightarrow> nat \<Rightarrow> 'r constraints \<Rightarrow> 'v selection \<Rightarrow>
     nat \<times> (SearchFailure + 'v selection)" where
  "search env ctx states constraints selected =
     (if states \<ge> MAX_DOMAIN_PACK_RESOLUTION_SEARCH_STATES
      then (states, Inl \<lparr> sf_code = Some ResourceLimitExceeded, sf_path = ''resolution.search_states'',
        sf_message = ''deterministic search exhausted 10000 states'', resource_exhausted = True \<rparr>)
      else
        (case find (\<lambda>key. bt_get selected key = None) (map fst constraints) of
           Some key \<Rightarrow>
             (case bt_get (sc_candidates ctx) key of
                None \<Rightarrow> (Suc states, Inl (missing_failure ctx key))
              | Some universe \<Rightarrow>
                  (let choices = filter (\<lambda>a. satisfies env a (case bt_get constraints key of Some cs \<Rightarrow> cs | None \<Rightarrow> [])) universe in
                   if choices = [] then (Suc states, Inl (missing_failure ctx key))
                   else
                     try_choices (search env ctx) env ctx key constraints selected (Suc states) None
                       (order_choices env ctx key choices)))
         | None \<Rightarrow>
             (Suc states,
              if selected_conflict env selected
              then Inl (selection_failure DeclaredConflict ''selection'' ''selected graph contains a declared conflict'')
              else if graph_has_cycle selected
              then Inl (selection_failure DependencyCycle ''selection'' ''selected dependency graph contains a cycle'')
              else Inr selected)))"
  by pat_completeness auto
termination
proof (relation "measure (\<lambda>(env, ctx, states, constraints, selected). card (fst ` set (sc_candidates ctx) - fst ` set selected))", goal_cases)
  case (2 env ctx states constraints selected key universe choices choice st c s)
  have k: "key \<notin> fst ` set selected" "key \<in> fst ` set (sc_candidates ctx)"
    using 2(2,3) by (auto dest!: find_SomeD simp: bt_get_def map_of_eq_None_iff dest: map_of_SomeD) (force dest: map_of_SomeD)
  have "s = bt_insert key choice selected" using 2 by (auto dest: extend_selection_selected)
  then have "fst ` set s = insert key (fst ` set selected)" by (simp add: set_keys_bt_insert)
  then have "fst ` set (sc_candidates ctx) - fst ` set s \<subset> fst ` set (sc_candidates ctx) - fst ` set selected" using k by blast
  then have "card (fst ` set (sc_candidates ctx) - fst ` set s) < card (fst ` set (sc_candidates ctx) - fst ` set selected)"
    by (rule psubset_card_mono [rotated]) simp
  then show ?case by simp
qed simp

declare search.simps [simp del]

section \<open>The sort keeps its elements\<close>

lemma set_insort_by [simp]: "set (insort_by le x xs) = insert x (set xs)"
  by (induction xs) auto

lemma length_insort_by [simp]: "length (insort_by le x xs) = Suc (length xs)"
  by (induction xs) auto

lemma set_sort_by [simp]: "set (sort_by le xs) = set xs"
  unfolding sort_by_def by (induction xs) auto

lemma length_sort_by [simp]: "length (sort_by le xs) = length xs"
  unfolding sort_by_def by (induction xs) auto

lemma set_order_choices [simp]: "set (order_choices env ctx key choices) = set choices"
  by (simp add: order_choices_def Let_def)

section \<open>The test for cycles is exact\<close>

text \<open>The dependencies of a selection, from a pack to the ones that need it.\<close>

definition pack_edges :: "(string \<Rightarrow> 'v Admitted option) \<Rightarrow> (string \<times> string) set" where
  "pack_edges \<sigma> = {(coordinate_key (dep_pack d), k) |d k a. \<sigma> k = Some a \<and> d \<in> set (pack_dependencies a)}"

text \<open>
  The nodes that are finished: closed under dependencies, on no cycle, and apart from the path that is being
  visited.
\<close>

definition visit_inv :: "(string \<times> string) set \<Rightarrow> string list \<Rightarrow> string list \<Rightarrow> bool" where
  "visit_inv R visiting visited \<longleftrightarrow>
     R `` set visited \<subseteq> set visited \<and> (\<forall>v \<in> set visited. (v, v) \<notin> R\<^sup>+) \<and> set visited \<inter> set visiting = {}"

lemma visit_inv_finish:
  assumes inv: "visit_inv R (bs_insert key visiting) visited" and deps: "R `` {key} \<subseteq> set visited" and key: "key \<notin> set visiting"
  shows "visit_inv R visiting (bs_insert key visited)"
proof -
  have closed: "R `` set visited \<subseteq> set visited" and k: "key \<notin> set visited" using inv by (auto simp: visit_inv_def)
  have "(key, key) \<notin> R\<^sup>+"
  proof
    assume "(key, key) \<in> R\<^sup>+"
    then obtain w where "(key, w) \<in> R" "(w, key) \<in> R\<^sup>*" by (meson tranclD)
    then show False using Image_closed_trancl [OF closed] deps k by auto
  qed
  then show ?thesis using inv deps key by (auto simp: visit_inv_def)
qed

lemma visit_correct:
  fixes selected :: "'v selection"
  defines "R \<equiv> (pack_edges (bt_get selected))\<inverse>"
  shows "visit_inv R visiting visited \<Longrightarrow> (\<And>p. p \<in> set visiting \<Longrightarrow> (p, key) \<in> R\<^sup>+) \<Longrightarrow>
      visit selected visiting visited key = (cyc, visited') \<Longrightarrow>
      (if cyc then \<not> acyclic R else set visited \<subseteq> set visited' \<and> key \<in> set visited' \<and> visit_inv R visiting visited')"
    and "visit_inv R visiting visited \<Longrightarrow> (\<And>p d. p \<in> set visiting \<Longrightarrow> d \<in> set ds \<Longrightarrow> (p, coordinate_key (dep_pack d)) \<in> R\<^sup>+) \<Longrightarrow>
      visit_dependencies selected visiting visited ds = (cyc, visited') \<Longrightarrow>
      (if cyc then \<not> acyclic R else set visited \<subseteq> set visited' \<and> (\<forall>d \<in> set ds. coordinate_key (dep_pack d) \<in> set visited') \<and> visit_inv R visiting visited')"
  unfolding R_def
proof (induction selected visiting visited key and selected visiting visited ds arbitrary: cyc visited' and cyc visited' rule: visit_visit_dependencies.induct)
  case (1 selected visiting visited key)
  let ?R = "(pack_edges (bt_get selected))\<inverse>"
  show ?case
  proof (cases "key \<in> set visited \<or> key \<in> set visiting")
    case True
    then show ?thesis using 1(2-4) by (auto simp: acyclic_def visit.simps split: if_splits)
  next
    case False
    show ?thesis
    proof (cases "bt_get selected key")
      case None
      then have "?R `` {key} = {}" by (auto simp: pack_edges_def)
      moreover have "visit_inv ?R (bs_insert key visiting) visited" using 1(2) False by (auto simp: visit_inv_def)
      ultimately have "visit_inv ?R visiting (bs_insert key visited)" using False by (intro visit_inv_finish) auto
      then show ?thesis using 1(4) False None by (auto simp: visit.simps)
    next
      case (Some a)
      obtain c v where v: "visit_dependencies selected (bs_insert key visiting) visited (pack_dependencies a) = (c, v)" by fastforce
      have "visit_inv ?R (bs_insert key visiting) visited" using 1(2) False by (auto simp: visit_inv_def)
      moreover have e: "?R `` {key} = (\<lambda>d. coordinate_key (dep_pack d)) ` set (pack_dependencies a)" using Some by (auto simp: pack_edges_def)
      have "(p, coordinate_key (dep_pack d)) \<in> ?R\<^sup>+" if "p \<in> set (bs_insert key visiting)" "d \<in> set (pack_dependencies a)" for p d
      proof -
        have "(key, coordinate_key (dep_pack d)) \<in> ?R" using e that(2) by blast
        then show ?thesis using that(1) 1(3) [of p] by (cases "p = key") (auto intro: trancl_into_trancl)
      qed
      ultimately have ih: "if c then \<not> acyclic ?R else set visited \<subseteq> set v \<and>
          (\<forall>d \<in> set (pack_dependencies a). coordinate_key (dep_pack d) \<in> set v) \<and> visit_inv ?R (bs_insert key visiting) v"
        using 1(1) [OF _ _ Some _ _ v] False by blast
      have r: "(cyc, visited') = (if c then (True, v) else (False, bs_insert key v))"
        using 1(4) False Some v by (auto simp: visit.simps split: bool.splits)
      show ?thesis
      proof (cases c)
        case False
        then have "visit_inv ?R visiting (bs_insert key v)"
          using ih e \<open>\<not> (key \<in> set visited \<or> key \<in> set visiting)\<close> by (intro visit_inv_finish) auto
        then show ?thesis using r ih False by auto
      qed (use r ih in auto)
    qed
  qed
next
  case (3 selected visiting visited d ds)
  obtain c v where v: "visit selected visiting visited (coordinate_key (dep_pack d)) = (c, v)" by fastforce
  then have "if c then \<not> acyclic ((pack_edges (bt_get selected))\<inverse>) else set visited \<subseteq> set v \<and> coordinate_key (dep_pack d) \<in> set v \<and>
      visit_inv ((pack_edges (bt_get selected))\<inverse>) visiting v"
    using 3(1) [OF 3(3) _ v] 3(4) by simp
  then show ?case using 3(2) [OF v [symmetric]] 3(4,5) v by (cases c) (auto split: if_splits)
qed auto

lemma visit_keys_correct:
  "visit_inv ((pack_edges (bt_get selected))\<inverse>) [] visited \<Longrightarrow>
   if visit_keys selected visited keys then \<not> acyclic (pack_edges (bt_get selected))
   else \<forall>k \<in> set keys \<union> set visited. (k, k) \<notin> ((pack_edges (bt_get selected))\<inverse>)\<^sup>+"
proof (induction keys arbitrary: visited)
  case (Cons k keys)
  obtain c v where v: "visit selected [] visited k = (c, v)" by fastforce
  show ?case
  proof (cases c)
    case True
    then show ?thesis using visit_correct(1) [OF Cons.prems _ v] v by simp
  next
    case False
    then have "set visited \<subseteq> set v" "k \<in> set v" "visit_inv ((pack_edges (bt_get selected))\<inverse>) [] v"
      using visit_correct(1) [OF Cons.prems _ v] by auto
    then show ?thesis using Cons.IH [of v] v False by (auto split: if_splits)
  qed
qed (auto simp: visit_inv_def)

lemma graph_has_cycle_iff: "graph_has_cycle selected \<longleftrightarrow> \<not> acyclic (pack_edges (bt_get selected))"
proof -
  let ?E = "pack_edges (bt_get selected)"
  have "visit_inv (?E\<inverse>) [] []" by (simp add: visit_inv_def)
  note c = visit_keys_correct [OF this, of "map fst selected"]
  have "acyclic ?E" if "\<forall>k \<in> set (map fst selected). (k, k) \<notin> (?E\<inverse>)\<^sup>+"
  proof -
    have "x \<in> set (map fst selected)" if "(x, x) \<in> ?E\<^sup>+" for x
    proof -
      from that obtain y where "(y, x) \<in> ?E" by (meson tranclD2)
      then show ?thesis unfolding bt_keys by (auto simp: pack_edges_def)
    qed
    then show ?thesis using that by (auto simp: acyclic_def trancl_converse)
  qed
  then show ?thesis using c unfolding graph_has_cycle_def by (auto split: if_splits)
qed

section \<open>What a selection has to satisfy\<close>

definition meets :: "('v, 'r) pack_env \<Rightarrow> 'v Admitted \<Rightarrow> 'r Constraint \<Rightarrow> bool" where
  "meets env a c \<longleftrightarrow>
     req_matches env (cn_requirement c) (ad_version a) \<and>
     (\<forall>d. cn_required_content_digest c = Some d \<longrightarrow> d = cb_canonical_sha256 (pb_content (cand_package (ad_candidate a)))) \<and>
     (pre_is_empty env (ad_version a) \<or> requirement_explicitly_allows_prerelease env (cn_requirement c))"

lemma satisfies_meets: "satisfies env a cs \<longleftrightarrow> (\<forall>c \<in> set cs. meets env a c)"
  by (auto simp: satisfies_def meets_def list_all_iff split: option.splits)

text \<open>A dependency that is met, and a declared conflict that is hit, in a selection.\<close>

definition dependency_met :: "('v, 'r) pack_env \<Rightarrow> (string \<Rightarrow> 'v Admitted option) \<Rightarrow> DomainPackDependency \<Rightarrow> bool" where
  "dependency_met env \<sigma> d \<longleftrightarrow>
     (\<exists>r b. parse_req env (dep_version_requirement d) = Some r \<and> \<sigma> (coordinate_key (dep_pack d)) = Some b \<and>
        meets env b \<lparr> cn_requirement = r, cn_required_content_digest = dep_required_content_digest d \<rparr>)"

definition conflict_hit :: "('v, 'r) pack_env \<Rightarrow> (string \<Rightarrow> 'v Admitted option) \<Rightarrow> DomainPackConflict \<Rightarrow> bool" where
  "conflict_hit env \<sigma> c \<longleftrightarrow>
     (\<exists>r b. parse_req env (pc_version_requirement c) = Some r \<and> \<sigma> (coordinate_key (pc_pack c)) = Some b \<and>
        req_matches env r (ad_version b))"

definition constrained :: "('v, 'r) pack_env \<Rightarrow> 'r constraints \<Rightarrow> (string \<Rightarrow> 'v Admitted option) \<Rightarrow> bool" where
  "constrained env constraints \<sigma> \<longleftrightarrow>
     (\<forall>k cs. bt_get constraints k = Some cs \<longrightarrow> (\<exists>a. \<sigma> k = Some a \<and> satisfies env a cs))"

text \<open>
  A resolution: every pack comes from the candidates of its coordinate, the constraints hold, every
  dependency is met, no declared conflict is hit, and the dependencies are acyclic.
\<close>

definition resolution ::
  "('v, 'r) pack_env \<Rightarrow> 'v Admitted list btree_map \<Rightarrow> 'r constraints \<Rightarrow> (string \<Rightarrow> 'v Admitted option) \<Rightarrow> bool" where
  "resolution env candidates constraints \<sigma> \<longleftrightarrow>
     (\<forall>k a. \<sigma> k = Some a \<longrightarrow> (\<exists>universe. bt_get candidates k = Some universe \<and> a \<in> set universe)) \<and>
     constrained env constraints \<sigma> \<and>
     (\<forall>k a. \<sigma> k = Some a \<longrightarrow>
        (\<forall>d \<in> set (pack_dependencies a). dependency_met env \<sigma> d) \<and>
        (\<forall>c \<in> set (pack_conflicts a). \<not> conflict_hit env \<sigma> c)) \<and>
     acyclic (pack_edges \<sigma>)"

lemma conflicts_with_selected_iff:
  "conflicts_with_selected env a selected \<longleftrightarrow> (\<exists>c \<in> set (pack_conflicts a). conflict_hit env (bt_get selected) c)"
proof -
  have "(case bt_get selected (coordinate_key (pc_pack c)) of None \<Rightarrow> False
      | Some other \<Rightarrow> (case parse_req env (pc_version_requirement c) of None \<Rightarrow> False | Some r \<Rightarrow> req_matches env r (ad_version other)))
      \<longleftrightarrow> conflict_hit env (bt_get selected) c" for c
    unfolding conflict_hit_def by (auto split: option.splits)
  then show ?thesis unfolding conflicts_with_selected_def list_ex_iff by simp
qed

lemma selected_conflict_iff:
  "bt_sorted selected \<Longrightarrow> selected_conflict env selected \<longleftrightarrow>
     (\<exists>k a. bt_get selected k = Some a \<and> (\<exists>c \<in> set (pack_conflicts a). conflict_hit env (bt_get selected) c))"
  unfolding selected_conflict_def list_ex_iff conflicts_with_selected_iff Bex_def in_bt_values by blast

lemma conflict_hit_mono: "conflict_hit env \<sigma> c \<Longrightarrow> \<sigma> \<subseteq>\<^sub>m \<tau> \<Longrightarrow> conflict_hit env \<tau> c"
  by (force simp: conflict_hit_def map_le_def dom_def)

lemma pack_edges_mono: "\<sigma> \<subseteq>\<^sub>m \<tau> \<Longrightarrow> pack_edges \<sigma> \<subseteq> pack_edges \<tau>"
  by (force simp: pack_edges_def map_le_def dom_def)

section \<open>Constraints\<close>

lemma bt_get_push:
  "bt_get (bt_push k x m) = (bt_get m)(k \<mapsto> (case bt_get m k of Some xs \<Rightarrow> xs | None \<Rightarrow> []) @ [x])"
  by (simp add: bt_push_def bt_get_insert)

lemma all_map_upd:
  "(\<forall>j y. (f(k \<mapsto> v)) j = Some y \<longrightarrow> P j y) \<longleftrightarrow> P k v \<and> (\<forall>j y. j \<noteq> k \<longrightarrow> f j = Some y \<longrightarrow> P j y)"
  by auto

lemma all_map_split:
  "(\<forall>j y. f j = Some y \<longrightarrow> P j y) \<longleftrightarrow> (\<forall>y. f k = Some y \<longrightarrow> P k y) \<and> (\<forall>j y. j \<noteq> k \<longrightarrow> f j = Some y \<longrightarrow> P j y)"
  by metis

lemma constrained_push:
  "constrained env (bt_push k x m) \<sigma> \<longleftrightarrow> constrained env m \<sigma> \<and> (\<exists>a. \<sigma> k = Some a \<and> meets env a x)"
proof -
  let ?xs = "(case bt_get m k of Some xs \<Rightarrow> xs | None \<Rightarrow> []) @ [x]"
  have s: "satisfies env a ?xs \<longleftrightarrow> (\<forall>cs. bt_get m k = Some cs \<longrightarrow> satisfies env a cs) \<and> meets env a x" for a
    by (cases "bt_get m k") (auto simp: satisfies_meets)
  have "constrained env (bt_push k x m) \<sigma> \<longleftrightarrow>
      (\<exists>a. \<sigma> k = Some a \<and> satisfies env a ?xs) \<and>
      (\<forall>j cs. j \<noteq> k \<longrightarrow> bt_get m j = Some cs \<longrightarrow> (\<exists>a. \<sigma> j = Some a \<and> satisfies env a cs))"
    unfolding constrained_def bt_get_push by (rule all_map_upd)
  also have "\<dots> \<longleftrightarrow> ((\<forall>cs. bt_get m k = Some cs \<longrightarrow> (\<exists>a. \<sigma> k = Some a \<and> satisfies env a cs)) \<and>
      (\<forall>j cs. j \<noteq> k \<longrightarrow> bt_get m j = Some cs \<longrightarrow> (\<exists>a. \<sigma> j = Some a \<and> satisfies env a cs))) \<and>
      (\<exists>a. \<sigma> k = Some a \<and> meets env a x)"
    unfolding s by (cases "\<sigma> k") (simp, simp only: option.inject simp_thms ex_simps, argo)
  also have "\<dots> \<longleftrightarrow> constrained env m \<sigma> \<and> (\<exists>a. \<sigma> k = Some a \<and> meets env a x)"
    unfolding constrained_def all_map_split [of "bt_get m" _ k] ..
  finally show ?thesis .
qed

lemma push_dependencies_constrained:
  "push_dependencies env key ds m = Inr m' \<Longrightarrow>
     constrained env m' \<sigma> \<longleftrightarrow> constrained env m \<sigma> \<and> (\<forall>d \<in> set ds. dependency_met env \<sigma> d)"
  by (induction ds arbitrary: m) (auto simp: constrained_push dependency_met_def split: option.splits)

lemma push_dependencies_Inl: "push_dependencies env key ds m = Inl f \<Longrightarrow> \<exists>d \<in> set ds. parse_req env (dep_version_requirement d) = None"
  by (induction ds arbitrary: m) (auto split: option.splits)

lemma push_dependencies_keys:
  "push_dependencies env key ds m = Inr m' \<Longrightarrow>
     dom (bt_get m') = dom (bt_get m) \<union> (\<lambda>d. coordinate_key (dep_pack d)) ` set ds"
  by (induction ds arbitrary: m) (auto simp: bt_get_push split: option.splits)

section \<open>The search is sound and complete\<close>

text \<open>
  The constraints of a search are the ones it started from and those of the dependencies selected so
  far; a partial selection meets the constraints on its own coordinates.
\<close>

definition partly_constrained :: "('v, 'r) pack_env \<Rightarrow> 'r constraints \<Rightarrow> (string \<Rightarrow> 'v Admitted option) \<Rightarrow> bool" where
  "partly_constrained env constraints \<sigma> \<longleftrightarrow>
     (\<forall>k cs a. bt_get constraints k = Some cs \<longrightarrow> \<sigma> k = Some a \<longrightarrow> satisfies env a cs)"

definition search_inv ::
  "('v, 'r) pack_env \<Rightarrow> 'v Admitted list btree_map \<Rightarrow> 'r constraints \<Rightarrow> 'r constraints \<Rightarrow> 'v selection \<Rightarrow> bool" where
  "search_inv env candidates roots constraints selected \<longleftrightarrow>
     bt_sorted selected \<and>
     (\<forall>k a. bt_get selected k = Some a \<longrightarrow> (\<exists>universe. bt_get candidates k = Some universe \<and> a \<in> set universe)) \<and>
     partly_constrained env constraints (bt_get selected) \<and>
     \<not> selected_conflict env selected \<and>
     (\<forall>\<sigma>. constrained env constraints \<sigma> \<longleftrightarrow>
        constrained env roots \<sigma> \<and> (\<forall>k a. bt_get selected k = Some a \<longrightarrow> (\<forall>d \<in> set (pack_dependencies a). dependency_met env \<sigma> d))) \<and>
     dom (bt_get selected) \<subseteq> dom (bt_get constraints) \<and>
     dom (bt_get constraints) = dom (bt_get roots) \<union> Domain (pack_edges (bt_get selected))"

text \<open>What the search decides: a solution, or that there is none beyond the selection made so far.\<close>

definition decides ::
  "('v, 'r) pack_env \<Rightarrow> 'v Admitted list btree_map \<Rightarrow> 'r constraints \<Rightarrow> 'v selection \<Rightarrow> SearchFailure + 'v selection \<Rightarrow> bool" where
  "decides env candidates roots selected result =
     (case result of
        Inr solution \<Rightarrow>
          bt_sorted solution \<and> resolution env candidates roots (bt_get solution) \<and>
          dom (bt_get solution) = dom (bt_get roots) \<union> Domain (pack_edges (bt_get solution))
      | Inl failure \<Rightarrow>
          \<not> resource_exhausted failure \<longrightarrow>
          (\<forall>\<sigma>. resolution env candidates roots \<sigma> \<longrightarrow> \<not> bt_get selected \<subseteq>\<^sub>m \<sigma>))"

lemma search_invD:
  assumes "search_inv env candidates roots constraints selected"
  shows "bt_sorted selected"
    and "bt_get selected k = Some a \<Longrightarrow> \<exists>universe. bt_get candidates k = Some universe \<and> a \<in> set universe"
    and "partly_constrained env constraints (bt_get selected)"
    and "bt_get selected k = Some a \<Longrightarrow> c \<in> set (pack_conflicts a) \<Longrightarrow> \<not> conflict_hit env (bt_get selected) c"
    and "constrained env constraints \<sigma> \<longleftrightarrow> constrained env roots \<sigma> \<and>
      (\<forall>k a. bt_get selected k = Some a \<longrightarrow> (\<forall>d \<in> set (pack_dependencies a). dependency_met env \<sigma> d))"
    and "dom (bt_get selected) \<subseteq> dom (bt_get constraints)"
    and "dom (bt_get constraints) = dom (bt_get roots) \<union> Domain (pack_edges (bt_get selected))"
proof -
  note i = assms [unfolded search_inv_def]
  from i show s: "bt_sorted selected" by (rule conjunct1)
  from i show "partly_constrained env constraints (bt_get selected)" by (elim conjE)
  from i have "\<not> selected_conflict env selected" by (elim conjE)
  then show "bt_get selected k = Some a \<Longrightarrow> c \<in> set (pack_conflicts a) \<Longrightarrow> \<not> conflict_hit env (bt_get selected) c"
    unfolding selected_conflict_iff [OF s] by blast
  from i show "bt_get selected k = Some a \<Longrightarrow> \<exists>universe. bt_get candidates k = Some universe \<and> a \<in> set universe" by (elim conjE) blast
  from i show "constrained env constraints \<sigma> \<longleftrightarrow> constrained env roots \<sigma> \<and>
      (\<forall>k a. bt_get selected k = Some a \<longrightarrow> (\<forall>d \<in> set (pack_dependencies a). dependency_met env \<sigma> d))" by (elim conjE) (erule spec)
  from i show "dom (bt_get selected) \<subseteq> dom (bt_get constraints)" by (elim conjE)
  from i show "dom (bt_get constraints) = dom (bt_get roots) \<union> Domain (pack_edges (bt_get selected))" by (elim conjE)
qed

lemma search_leaf:
  assumes inv: "search_inv env candidates roots constraints selected" and all: "dom (bt_get constraints) \<subseteq> dom (bt_get selected)"
    and ac: "acyclic (pack_edges (bt_get selected))"
  shows "decides env candidates roots selected (Inr selected)"
proof -
  note i = search_invD [OF inv]
  have "constrained env constraints (bt_get selected)"
    unfolding constrained_def
  proof (intro allI impI)
    fix k cs assume k: "bt_get constraints k = Some cs"
    then obtain a where "bt_get selected k = Some a" using all by blast
    then show "\<exists>a. bt_get selected k = Some a \<and> satisfies env a cs" using i(3) k unfolding partly_constrained_def by blast
  qed
  note c = this [unfolded i(5)]
  have "resolution env candidates roots (bt_get selected)"
    unfolding resolution_def using c i(2,4) ac by (intro conjI allI impI ballI) blast+
  moreover have "dom (bt_get selected) = dom (bt_get roots) \<union> Domain (pack_edges (bt_get selected))" using i(6) all unfolding i(7) by (rule subset_antisym)
  ultimately show ?thesis using i(1) unfolding decides_def by simp
qed

text \<open>One choice: extending a selection keeps the invariant, and a choice is dropped only if no resolution has it.\<close>

lemma map_le_upd: "f \<subseteq>\<^sub>m \<sigma> \<Longrightarrow> \<sigma> k = Some a \<Longrightarrow> f(k \<mapsto> a) \<subseteq>\<^sub>m \<sigma>"
  by (auto simp: map_le_def)

lemma Domain_pack_edges: "Domain (pack_edges f) = (\<Union>a \<in> ran f. (\<lambda>d. coordinate_key (dep_pack d)) ` set (pack_dependencies a))"
  by (force simp: pack_edges_def ran_def)

lemma Domain_pack_edges_upd:
  "f key = None \<Longrightarrow> Domain (pack_edges (f(key \<mapsto> a))) =
     Domain (pack_edges f) \<union> (\<lambda>d. coordinate_key (dep_pack d)) ` set (pack_dependencies a)"
  unfolding Domain_pack_edges by (simp add: Un_commute)

lemma bt_get_in_set: "bt_sorted m \<Longrightarrow> (k, v) \<in> set m \<longleftrightarrow> bt_get m k = Some v"
  using bt_sorted_distinct [of m] by (simp add: bt_get_def)

lemma extend_selection_eq:
  "extend_selection env key choice constraints selected = Inr (c, s) \<longleftrightarrow>
     \<not> conflicts_with_selected env choice selected \<and> s = bt_insert key choice selected \<and> \<not> selected_conflict env s \<and>
     push_dependencies env key (pack_dependencies choice) constraints = Inr c \<and>
     \<not> list_ex (\<lambda>(k, a). case bt_get c k of None \<Rightarrow> False | Some cs \<Rightarrow> \<not> satisfies env a cs) s"
  unfolding extend_selection_def Let_def
  by (cases "push_dependencies env key (pack_dependencies choice) constraints"; simp; blast?)

lemma extend_selection_Inr:
  assumes "extend_selection env key choice constraints selected = Inr (c, s)"
  shows "s = bt_insert key choice selected" "\<not> selected_conflict env s"
    "push_dependencies env key (pack_dependencies choice) constraints = Inr c"
    "\<And>k a cs. (k, a) \<in> set s \<Longrightarrow> bt_get c k = Some cs \<Longrightarrow> satisfies env a cs"
proof -
  note e = assms [unfolded extend_selection_eq]
  from e show "s = bt_insert key choice selected" "\<not> selected_conflict env s"
    "push_dependencies env key (pack_dependencies choice) constraints = Inr c" by blast+
  from e show "\<And>k a cs. (k, a) \<in> set s \<Longrightarrow> bt_get c k = Some cs \<Longrightarrow> satisfies env a cs"
    by (fastforce simp: list_ex_iff)
qed

lemma extend_inv:
  assumes inv: "search_inv env candidates roots constraints selected" and k: "bt_get selected key = None" "key \<in> dom (bt_get constraints)"
    and u: "bt_get candidates key = Some universe" "choice \<in> set universe"
    and e: "extend_selection env key choice constraints selected = Inr (c, s)"
  shows "search_inv env candidates roots c s"
proof -
  note i = search_invD [OF inv] and x = extend_selection_Inr [OF e]
  have s: "bt_sorted s" unfolding x(1) by (rule bt_sorted_insert [OF i(1)])
  have g: "bt_get s = (bt_get selected)(key \<mapsto> choice)" unfolding x(1) by (rule bt_get_insert)
  have nk: "j \<noteq> key" if "bt_get selected j = Some a" for j a using that k(1) by auto
  have "\<exists>universe. bt_get candidates j = Some universe \<and> a \<in> set universe" if "bt_get s j = Some a" for j a
    using that i(2) u unfolding g by (auto split: if_splits)
  moreover have "partly_constrained env c (bt_get s)"
    unfolding partly_constrained_def using x(4) bt_get_in_set [OF s] by blast
  moreover have "constrained env c \<sigma> \<longleftrightarrow> constrained env roots \<sigma> \<and>
      (\<forall>k a. bt_get s k = Some a \<longrightarrow> (\<forall>d \<in> set (pack_dependencies a). dependency_met env \<sigma> d))" for \<sigma>
    unfolding push_dependencies_constrained [OF x(3)] i(5) g all_map_upd using nk by blast
  moreover have "dom (bt_get s) \<subseteq> dom (bt_get c)"
    unfolding g push_dependencies_keys [OF x(3)] using k(2) i(6) by auto
  moreover have "dom (bt_get c) = dom (bt_get roots) \<union> Domain (pack_edges (bt_get s))"
    unfolding g push_dependencies_keys [OF x(3)] i(7) Domain_pack_edges_upd [where f = "bt_get selected", OF k(1)] by (rule Un_assoc)
  ultimately show ?thesis unfolding search_inv_def using s x(2) by (intro conjI allI impI)
qed

lemma resolution_constrained:
  assumes "search_inv env candidates roots constraints selected" "resolution env candidates roots \<sigma>" "bt_get selected \<subseteq>\<^sub>m \<sigma>"
  shows "constrained env constraints \<sigma>"
proof -
  have "dependency_met env \<sigma> d" if "bt_get selected k = Some a" "d \<in> set (pack_dependencies a)" for k a d
  proof -
    have "\<sigma> k = Some a" using that(1) assms(3) by (metis domI map_le_def)
    then show ?thesis using assms(2) that(2) unfolding resolution_def by blast
  qed
  then show ?thesis unfolding search_invD(5) [OF assms(1)] using assms(2) unfolding resolution_def by blast
qed

lemma extend_refutes:
  assumes inv: "search_inv env candidates roots constraints selected" and r: "resolution env candidates roots \<sigma>" "bt_get selected \<subseteq>\<^sub>m \<sigma>"
    and key: "\<sigma> key = Some choice"
  shows "\<exists>c s. extend_selection env key choice constraints selected = Inr (c, s) \<and> bt_get s \<subseteq>\<^sub>m \<sigma>"
proof -
  let ?s = "bt_insert key choice selected"
  have s: "bt_sorted ?s" by (rule bt_sorted_insert [OF search_invD(1) [OF inv]])
  have le: "bt_get ?s \<subseteq>\<^sub>m \<sigma>" unfolding bt_get_insert by (rule map_le_upd [OF r(2) key])
  have nc: "\<not> conflict_hit env \<sigma> c" if "\<sigma> k = Some a" "c \<in> set (pack_conflicts a)" for k a c
    using r(1) that unfolding resolution_def by blast
  have met: "dependency_met env \<sigma> d" if "d \<in> set (pack_dependencies choice)" for d
    using r(1) key that unfolding resolution_def by blast
  have 1: "\<not> conflicts_with_selected env choice selected"
    unfolding conflicts_with_selected_iff using nc [OF key] conflict_hit_mono [OF _ r(2)] by blast
  have 2: "\<not> selected_conflict env ?s"
    unfolding selected_conflict_iff [OF s]
  proof
    assume "\<exists>k a. bt_get ?s k = Some a \<and> (\<exists>c \<in> set (pack_conflicts a). conflict_hit env (bt_get ?s) c)"
    then obtain k a c where h: "bt_get ?s k = Some a" "c \<in> set (pack_conflicts a)" "conflict_hit env (bt_get ?s) c" by blast
    then have "\<sigma> k = Some a" using le by (metis domI map_le_def)
    from nc [OF this h(2)] conflict_hit_mono [OF h(3) le] show False ..
  qed
  obtain c where c: "push_dependencies env key (pack_dependencies choice) constraints = Inr c"
    using met push_dependencies_Inl [of env key "pack_dependencies choice" constraints]
    by (cases "push_dependencies env key (pack_dependencies choice) constraints") (fastforce simp: dependency_met_def)+
  have "constrained env c \<sigma>"
    unfolding push_dependencies_constrained [OF c] using resolution_constrained [OF inv r] met by blast
  then have "satisfies env a cs" if "(k, a) \<in> set ?s" "bt_get c k = Some cs" for k a cs
  proof -
    have "\<sigma> k = Some a" using that(1) le unfolding bt_get_in_set [OF s] by (metis domI map_le_def)
    then show ?thesis using \<open>constrained env c \<sigma>\<close> that(2) unfolding constrained_def by fastforce
  qed
  then have "\<not> list_ex (\<lambda>(k, a). case bt_get c k of None \<Rightarrow> False | Some cs \<Rightarrow> \<not> satisfies env a cs) ?s"
    by (auto simp: list_ex_iff split: option.splits)
  then have "extend_selection env key choice constraints selected = Inr (c, ?s)" unfolding extend_selection_eq using 1 2 c by blast
  then show ?thesis using le by blast
qed

lemma try_choices_decides:
  assumes inv: "search_inv env candidates roots constraints selected" and k: "bt_get selected key = None"
    and descend: "\<And>choice st c s. choice \<in> set choices \<Longrightarrow> extend_selection env key choice constraints selected = Inr (c, s) \<Longrightarrow>
      decides env candidates roots s (snd (descend st c s))"
  shows "case snd (try_choices descend env ctx key constraints selected st last_failure choices) of
      Inr solution \<Rightarrow> decides env candidates roots selected (Inr solution)
    | Inl failure \<Rightarrow> \<not> resource_exhausted failure \<longrightarrow>
        (\<forall>\<sigma>. resolution env candidates roots \<sigma> \<longrightarrow> bt_get selected \<subseteq>\<^sub>m \<sigma> \<longrightarrow> (\<forall>choice \<in> set choices. \<sigma> key \<noteq> Some choice))"
  using descend
proof (induction choices arbitrary: st last_failure)
  case (Cons choice choices)
  let ?rest = "\<lambda>st lf. try_choices descend env ctx key constraints selected st lf choices"
  have ih: "case snd (?rest st lf) of
      Inr solution \<Rightarrow> decides env candidates roots selected (Inr solution)
    | Inl failure \<Rightarrow> \<not> resource_exhausted failure \<longrightarrow>
        (\<forall>\<sigma>. resolution env candidates roots \<sigma> \<longrightarrow> bt_get selected \<subseteq>\<^sub>m \<sigma> \<longrightarrow> (\<forall>choice \<in> set choices. \<sigma> key \<noteq> Some choice))" for st lf
    by (rule Cons.IH, rule Cons.prems) simp_all
  show ?case
  proof (cases "extend_selection env key choice constraints selected")
    case (Inl f)
    then have "\<sigma> key \<noteq> Some choice" if "resolution env candidates roots \<sigma>" "bt_get selected \<subseteq>\<^sub>m \<sigma>" for \<sigma>
      using extend_refutes [OF inv that, of key choice] by auto
    then show ?thesis using ih [of st "Some f"] Inl by (auto split: sum.splits)
  next
    case (Inr p)
    obtain c s where p: "p = (c, s)" by fastforce
    obtain st' r where d: "descend st c s = (st', r)" by fastforce
    have dec: "decides env candidates roots s r" using Cons.prems [of choice c s st] Inr p d by simp
    show ?thesis
    proof (cases r)
      case (Inr solution)
      then show ?thesis using \<open>extend_selection env key choice constraints selected = Inr p\<close> p d dec by (simp add: decides_def)
    next
      case (Inl f)
      have "\<sigma> key \<noteq> Some choice" if "\<not> resource_exhausted f" "resolution env candidates roots \<sigma>" "bt_get selected \<subseteq>\<^sub>m \<sigma>" for \<sigma>
        using extend_refutes [OF inv that(2,3), of key choice] dec that(1,2) \<open>extend_selection env key choice constraints selected = Inr p\<close> p
        unfolding Inl decides_def by auto
      then show ?thesis
        using ih [of st' "Some f"] \<open>extend_selection env key choice constraints selected = Inr p\<close> p d Inl by (auto split: sum.splits)
    qed
  qed
qed (auto split: option.splits)

abbreviation constraints_at :: "'r constraints \<Rightarrow> string \<Rightarrow> 'r Constraint list" where
  "constraints_at constraints key \<equiv> (case bt_get constraints key of Some cs \<Rightarrow> cs | None \<Rightarrow> [])"

lemma unsatisfied_refutes:
  assumes "search_inv env candidates roots constraints selected" "key \<in> dom (bt_get constraints)"
    and "\<And>\<sigma> a. resolution env candidates roots \<sigma> \<Longrightarrow> bt_get selected \<subseteq>\<^sub>m \<sigma> \<Longrightarrow> \<sigma> key = Some a \<Longrightarrow>
      satisfies env a (constraints_at constraints key) \<Longrightarrow> \<not> resource_exhausted f \<Longrightarrow> False"
  shows "decides env candidates roots selected (Inl f)"
  using resolution_constrained [OF assms(1)] assms(2,3) unfolding decides_def constrained_def by fastforce

lemma cycle_refutes:
  assumes "\<not> acyclic (pack_edges (bt_get selected))"
  shows "decides env candidates roots selected (Inl f)"
proof -
  have "acyclic (pack_edges \<sigma>) \<Longrightarrow> \<not> bt_get selected \<subseteq>\<^sub>m \<sigma>" for \<sigma>
    using assms acyclic_subset [OF _ pack_edges_mono] by metis
  then show ?thesis unfolding decides_def resolution_def by simp
qed

lemma search_leaf_decides:
  assumes inv: "search_inv env (sc_candidates ctx) roots constraints selected"
    and st: "\<not> MAX_DOMAIN_PACK_RESOLUTION_SEARCH_STATES \<le> st"
    and none: "find (\<lambda>key. bt_get selected key = None) (map fst constraints) = None"
  shows "decides env (sc_candidates ctx) roots selected (snd (search env ctx st constraints selected))"
proof -
  have "bt_get selected k \<noteq> None" if "k \<in> dom (bt_get constraints)" for k
    using none that unfolding find_None_iff bt_keys by metis
  then have "dom (bt_get constraints) \<subseteq> dom (bt_get selected)" by (auto simp only: domIff)
  note leaf = search_leaf [OF inv this]
  have "\<not> selected_conflict env selected" using inv unfolding search_inv_def by blast
  then show ?thesis
    using leaf cycle_refutes [of selected] st none
    by (cases "acyclic (pack_edges (bt_get selected))") (simp_all add: search.simps graph_has_cycle_iff)
qed

lemma resolution_in_universe:
  "resolution env candidates roots \<sigma> \<Longrightarrow> \<sigma> key = Some a \<Longrightarrow> \<exists>universe. bt_get candidates key = Some universe \<and> a \<in> set universe"
  unfolding resolution_def by metis

text \<open>The search after one coordinate was picked, given what its recursive calls decide.\<close>

lemma search_node_decides:
  assumes inv: "search_inv env (sc_candidates ctx) roots constraints selected"
    and key: "bt_get selected key = None" "key \<in> dom (bt_get constraints)" and univ: "bt_get (sc_candidates ctx) key = Some universe"
    and choices: "choices = filter (\<lambda>a. satisfies env a (constraints_at constraints key)) universe"
    and descend: "\<And>choice st c s. choice \<in> set choices \<Longrightarrow> extend_selection env key choice constraints selected = Inr (c, s) \<Longrightarrow>
      decides env (sc_candidates ctx) roots s (snd (descend st c s))"
  shows "decides env (sc_candidates ctx) roots selected
    (snd (try_choices descend env ctx key constraints selected st None (order_choices env ctx key choices)))" (is "decides _ _ _ _ ?r")
proof -
  have t: "case ?r of
      Inr solution \<Rightarrow> decides env (sc_candidates ctx) roots selected (Inr solution)
    | Inl failure \<Rightarrow> \<not> resource_exhausted failure \<longrightarrow>
        (\<forall>\<sigma>. resolution env (sc_candidates ctx) roots \<sigma> \<longrightarrow> bt_get selected \<subseteq>\<^sub>m \<sigma> \<longrightarrow>
          (\<forall>choice \<in> set (order_choices env ctx key choices). \<sigma> key \<noteq> Some choice))"
    using descend by (intro try_choices_decides [OF inv key(1)]) simp
  show ?thesis
  proof (cases ?r)
    case (Inl f)
    show ?thesis unfolding Inl
    proof (rule unsatisfied_refutes [OF inv key(2)])
      fix \<sigma> a assume r: "resolution env (sc_candidates ctx) roots \<sigma>" "bt_get selected \<subseteq>\<^sub>m \<sigma>" "\<sigma> key = Some a"
        "satisfies env a (constraints_at constraints key)" "\<not> resource_exhausted f"
      then have "a \<in> set (order_choices env ctx key choices)" using resolution_in_universe [OF r(1,3)] univ by (simp add: choices)
      moreover have "\<forall>choice \<in> set (order_choices env ctx key choices). \<sigma> key \<noteq> Some choice"
        using t r(1,2,5) unfolding Inl sum.case by metis
      ultimately show False using r(3) by metis
    qed
  qed (use t in simp)
qed

lemma search_decides:
  "search_inv env (sc_candidates ctx) roots constraints selected \<Longrightarrow>
     decides env (sc_candidates ctx) roots selected (snd (search env ctx st constraints selected))"
proof (induction env ctx st constraints selected rule: search.induct)
  case (1 env ctx st constraints selected)
  show ?case
  proof (cases "MAX_DOMAIN_PACK_RESOLUTION_SEARCH_STATES \<le> st")
    case False
    show ?thesis
    proof (cases "find (\<lambda>key. bt_get selected key = None) (map fst constraints)")
      case None
      then show ?thesis by (rule search_leaf_decides [OF 1(2) False])
    next
      case (Some key)
      then have key: "bt_get selected key = None" "key \<in> dom (bt_get constraints)"
        using find_SomeD [OF Some] unfolding bt_keys by simp_all
      let ?choices = "\<lambda>universe. filter (\<lambda>a. satisfies env a (constraints_at constraints key)) universe"
      show ?thesis
      proof (cases "\<exists>universe. bt_get (sc_candidates ctx) key = Some universe \<and> ?choices universe \<noteq> []")
        case True
        then obtain universe where univ: "bt_get (sc_candidates ctx) key = Some universe" and ne: "?choices universe \<noteq> []" by metis
        have "decides env (sc_candidates ctx) roots s (snd (search env ctx st' c s))"
          if "choice \<in> set (?choices universe)" "extend_selection env key choice constraints selected = Inr (c, s)" for choice st' c s
          using 1(1) [OF False Some univ refl ne _ that(2)] extend_inv [OF 1(2) key univ _ that(2)] that(1) by simp
        note d = search_node_decides [where descend = "search env ctx", OF 1(2) key univ refl this]
        show ?thesis using d False Some univ ne by (subst search.simps) (simp add: Let_def)
      next
        case none: False
        have "decides env (sc_candidates ctx) roots selected (Inl (missing_failure ctx key))"
        proof (rule unsatisfied_refutes [OF 1(2) key(2)])
          fix \<sigma> a assume r: "resolution env (sc_candidates ctx) roots \<sigma>" "\<sigma> key = Some a" "satisfies env a (constraints_at constraints key)"
          then show False using none resolution_in_universe [OF r(1,2)] by (metis (mono_tags, lifting) filter_empty_conv)
        qed
        moreover have "snd (search env ctx st constraints selected) = Inl (missing_failure ctx key)"
          using False Some none by (cases "bt_get (sc_candidates ctx) key"; subst search.simps) (simp_all add: Let_def)
        ultimately show ?thesis by simp
      qed
    qed
  qed (simp add: search.simps decides_def)
qed

lemma search_start:
  "search_inv env candidates constraints constraints []"
  by (simp add: search_inv_def partly_constrained_def selected_conflict_def bt_values_def pack_edges_def dom_def)

section \<open>Locked versions are kept\<close>

text \<open>
  A resolution made of the locked versions: none of its coordinates is to be upgraded, and no other candidate
  of a coordinate has the version that is locked.
\<close>

definition locked_resolution :: "('v, 'r) pack_env \<Rightarrow> 'v SearchContext \<Rightarrow> (string \<Rightarrow> 'v Admitted option) \<Rightarrow> bool" where
  "locked_resolution env ctx \<sigma> \<longleftrightarrow>
     (\<forall>k a universe. \<sigma> k = Some a \<longrightarrow> bt_get (sc_candidates ctx) k = Some universe \<longrightarrow>
        k \<notin> set (sc_upgrade_targets ctx) \<and> bt_get (sc_locked ctx) k = Some (version_text env (ad_version a)) \<and>
        (\<forall>b \<in> set universe. version_text env (ad_version b) = version_text env (ad_version a) \<longrightarrow> b = a))"

lemma hd_insort_by: "hd (insort_by le x ys) = (if ys = [] \<or> le x (hd ys) then x else hd ys)"
  by (cases ys) auto

lemma sort_by_Nil [simp]: "sort_by le xs = [] \<longleftrightarrow> xs = []"
  by (metis length_0_conv length_sort_by)

lemma hd_sort_by:
  "a \<in> set xs \<Longrightarrow> le a a \<Longrightarrow> (\<And>b. b \<in> set xs \<Longrightarrow> b \<noteq> a \<Longrightarrow> le a b \<and> \<not> le b a) \<Longrightarrow> hd (sort_by le xs) = a"
proof (induction xs)
  case (Cons x xs)
  have step: "sort_by le (x # xs) = insort_by le x (sort_by le xs)" by (simp add: sort_by_def)
  show ?case
  proof (cases "a \<in> set xs")
    case True
    then have "hd (sort_by le xs) = a" using Cons by simp
    moreover have "sort_by le xs \<noteq> []" using True by auto
    ultimately show ?thesis using Cons.prems(2) Cons.prems(3) [of x] by (auto simp: step hd_insort_by)
  next
    case False
    then have x: "x = a" using Cons.prems(1) by simp
    show ?thesis
    proof (cases "xs = []")
      case False
      then have "hd (sort_by le xs) \<in> set xs" by (metis hd_in_set set_sort_by sort_by_Nil)
      then have "le a (hd (sort_by le xs))" using Cons.prems(2,3) by (metis list.set_intros(2))
      then show ?thesis using step x by (simp add: hd_insort_by)
    qed (simp add: step x sort_by_def)
  qed
qed simp

lemma order_choices_locked:
  assumes l: "locked_resolution env ctx \<sigma>" "\<sigma> key = Some a" "bt_get (sc_candidates ctx) key = Some universe"
    and c: "a \<in> set choices" "set choices \<subseteq> set universe"
  shows "\<exists>rest. order_choices env ctx key choices = a # rest"
proof -
  define locked where "locked b \<longleftrightarrow> version_text env (ad_version b) = version_text env (ad_version a)" for b :: "'a Admitted"
  define le where "le l r \<longleftrightarrow> locked l \<and> \<not> locked r \<or> locked l = locked r \<and> (ad_version r < ad_version l \<or>
      ad_version r = ad_version l \<and> candidate_order_key env (ad_candidate l) \<le> candidate_order_key env (ad_candidate r))" for l r
  have k: "key \<notin> set (sc_upgrade_targets ctx)" "bt_get (sc_locked ctx) key = Some (version_text env (ad_version a))"
    and u: "\<And>b. b \<in> set universe \<Longrightarrow> locked b \<Longrightarrow> b = a"
    using l(1) [unfolded locked_resolution_def, rule_format, OF l(2,3)] by (simp_all add: locked_def)
  have o: "order_choices env ctx key choices = sort_by le choices"
    unfolding order_choices_def Let_def le_def locked_def using k by simp
  have "hd (sort_by le choices) = a"
  proof (rule hd_sort_by [OF c(1)])
    show "le a a" by (simp add: le_def)
    fix b assume b: "b \<in> set choices" "b \<noteq> a"
    have "locked a" by (simp add: locked_def)
    moreover have "\<not> locked b" using u [of b] b c(2) by auto
    ultimately show "le a b \<and> \<not> le b a" by (simp add: le_def)
  qed
  moreover have "sort_by le choices \<noteq> []" using c(1) by auto
  ultimately show ?thesis unfolding o by (cases "sort_by le choices") auto
qed

lemma search_keeps_lock:
  assumes "search_inv env (sc_candidates ctx) roots constraints selected" "bt_get selected \<subseteq>\<^sub>m \<sigma>"
    and "resolution env (sc_candidates ctx) roots \<sigma>" "locked_resolution env ctx \<sigma>"
    and "st + card (dom \<sigma> - dom (bt_get selected)) < MAX_DOMAIN_PACK_RESOLUTION_SEARCH_STATES" "finite (dom \<sigma>)"
  shows "\<exists>solution. snd (search env ctx st constraints selected) = Inr solution \<and> bt_get solution \<subseteq>\<^sub>m \<sigma>"
  using assms
proof (induction env ctx st constraints selected rule: search.induct)
  case (1 env ctx st constraints selected)
  have st: "\<not> MAX_DOMAIN_PACK_RESOLUTION_SEARCH_STATES \<le> st" using 1(6) by simp
  show ?case
  proof (cases "find (\<lambda>key. bt_get selected key = None) (map fst constraints)")
    case None
    have "acyclic (pack_edges \<sigma>)" using 1(4) unfolding resolution_def by (elim conjE)
    then have "acyclic (pack_edges (bt_get selected))" by (rule acyclic_subset [OF _ pack_edges_mono [OF 1(3)]])
    moreover have "\<not> selected_conflict env selected" using 1(2) unfolding search_inv_def by blast
    ultimately show ?thesis using st None 1(3) by (simp add: search.simps graph_has_cycle_iff)
  next
    case (Some key)
    then have key: "bt_get selected key = None" "key \<in> dom (bt_get constraints)"
      using find_SomeD [OF Some] unfolding bt_keys by simp_all
    then obtain cs where cs: "bt_get constraints key = Some cs" by (auto simp: dom_def)
    with resolution_constrained [OF 1(2,4,3)] obtain a where a: "\<sigma> key = Some a" "satisfies env a cs"
      unfolding constrained_def by metis
    from resolution_in_universe [OF 1(4) a(1)] obtain universe where
      univ: "bt_get (sc_candidates ctx) key = Some universe" "a \<in> set universe" by metis
    let ?choices = "filter (\<lambda>a. satisfies env a (constraints_at constraints key)) universe"
    have ch: "a \<in> set ?choices" "set ?choices \<subseteq> set universe" using a(2) univ(2) cs by auto
    then have ne: "?choices \<noteq> []" by (metis empty_iff empty_set)
    from order_choices_locked [OF 1(5) a(1) univ(1) ch] obtain rest where o: "order_choices env ctx key ?choices = a # rest" by metis
    from extend_refutes [OF 1(2,4,3) a(1)] obtain c s where
      e: "extend_selection env key a constraints selected = Inr (c, s)" and le: "bt_get s \<subseteq>\<^sub>m \<sigma>" by metis
    have "dom (bt_get s) = insert key (dom (bt_get selected))" unfolding extend_selection_Inr(1) [OF e] bt_get_insert by simp
    moreover have "key \<in> dom \<sigma>" "key \<notin> dom (bt_get selected)" using a(1) key(1) by (simp_all add: domIff)
    ultimately have "dom \<sigma> - dom (bt_get s) \<subset> dom \<sigma> - dom (bt_get selected)" by blast
    then have "card (dom \<sigma> - dom (bt_get s)) < card (dom \<sigma> - dom (bt_get selected))" using 1(7) by (intro psubset_card_mono) simp_all
    then have card: "Suc st + card (dom \<sigma> - dom (bt_get s)) < MAX_DOMAIN_PACK_RESOLUTION_SEARCH_STATES" using 1(6) by linarith
    have "\<exists>solution. snd (search env ctx (Suc st) c s) = Inr solution \<and> bt_get solution \<subseteq>\<^sub>m \<sigma>"
      by (rule 1(1) [OF st Some univ(1) refl ne _ e extend_inv [OF 1(2) key univ e] le 1(4,5) card 1(7)]) (simp add: o)
    then obtain solution st' where "search env ctx (Suc st) c s = (st', Inr solution)" "bt_get solution \<subseteq>\<^sub>m \<sigma>"
      by (cases "search env ctx (Suc st) c s") auto
    then show ?thesis using st Some univ(1) ne o e by (subst search.simps) (simp add: Let_def)
  qed
qed

section \<open>Properties\<close>

text \<open>
  C10. The search decides: what it returns is a resolution of the roots among the candidates (every root and
  every dependency is met by the selected version, no declared conflict is hit, the dependencies are
  acyclic) without packs that neither a root nor a dependency asks for; when it fails before its 10000
  states are used up, there is no resolution at all.
\<close>

theorem search_sound_complete:
  "case snd (search env ctx 0 roots []) of
     Inr solution \<Rightarrow>
       resolution env (sc_candidates ctx) roots (bt_get solution) \<and>
       dom (bt_get solution) = dom (bt_get roots) \<union> Domain (pack_edges (bt_get solution))
   | Inl failure \<Rightarrow>
       (if resource_exhausted failure then True else \<nexists>\<sigma>. resolution env (sc_candidates ctx) roots \<sigma>)"
  using search_decides [OF search_start, of env ctx roots 0]
  by (cases "snd (search env ctx 0 roots [])") (simp_all add: decides_def map_le_def dom_def)


text \<open>An application that needs a library, of which two versions exist; versions are numbers, and a requirement is a lower bound.\<close>

definition sample_env :: "(nat, nat) pack_env" where
  "sample_env =
     \<lparr> parse_version = parse_digits, version_text = show_nat, pre_is_empty = (\<lambda>_. True), parse_req = parse_digits,
       req_matches = (\<le>), comparators_pre_empty = (\<lambda>_. [True]), candidate_digest = (\<lambda>_. None) \<rparr>"

definition sample_coordinate :: "string \<Rightarrow> DomainPackCoordinate" where
  "sample_coordinate name = \<lparr> co_publisher = ''acme'', co_name = name \<rparr>"

definition sample_dependency :: "string \<Rightarrow> string \<Rightarrow> DomainPackDependency" where
  "sample_dependency name req =
     \<lparr> dep_pack = sample_coordinate name, dep_version_requirement = req, dep_required_content_digest = None \<rparr>"

definition sample_binding :: DomainPackArtifactBinding where
  "sample_binding = \<lparr> artifact_ref = ''LICENSE'', raw_sha256 = [], canonical_sha256 = [] \<rparr>"

definition sample_content :: DomainPackContentBinding where
  "sample_content = \<lparr> content_ref = ''content'', cb_raw_sha256 = [], cb_canonical_sha256 = [] \<rparr>"

definition sample_candidate :: "string \<Rightarrow> nat \<Rightarrow> DomainPackDependency list \<Rightarrow> DomainPackResolutionCandidate" where
  "sample_candidate name version deps =
     \<lparr> cand_input =
         \<lparr> in_manifest_binding = sample_binding,
           in_manifest = \<lparr> mfd_schema_version = ''0.1'', domain_pack_manifest =
             \<lparr> mf_identity = \<lparr> pid_publisher = ''acme'', pid_name = name, pid_namespace = ''acme'', pid_version = show_nat version \<rparr>,
               mf_compatibility = \<lparr> pack_schema_requirement = ''0'', forge_core_requirement = ''0'' \<rparr>,
               mf_provenance = \<lparr> license_text = sample_binding, provenance_rest = [] \<rparr>, mf_content = sample_content,
               mf_dependencies = deps, mf_conflicts = [], mf_rest = [] \<rparr> \<rparr>,
           in_content = \<lparr> ctd_schema_version = ''0.1'', domain_pack_content =
             \<lparr> ct_pack = \<lparr> vr_publisher = ''acme'', vr_name = name, vr_version = show_nat version \<rparr>, ct_rest = [] \<rparr> \<rparr> \<rparr>,
       cand_package = \<lparr> package_ref = name, pb_package_digest = [], pb_manifest = sample_binding, pb_content = sample_content,
         pb_license = sample_binding, pb_fixtures = [] \<rparr>,
       cand_registry_record_digest = None \<rparr>"

definition sample_record :: DomainPackRegistryPackageRecord where
  "sample_record =
     (let descriptor = \<lparr> rd_kind = RkManifest, rd_binding = sample_binding, object_path = [], byte_length = 0, media_type = TextPlain \<rparr> in
      \<lparr> rr_identity = \<lparr> pid_publisher = ''acme'', pid_name = [], pid_namespace = [], pid_version = [] \<rparr>,
        rr_package_digest = [], rr_manifest_digest = [], rr_content_digest = [], rr_license_digest = [], rr_fixture_digests = [],
        rr_artifacts = \<lparr> as_manifest = descriptor, as_content = descriptor, as_license = descriptor, as_fixtures = [] \<rparr>,
        rr_namespace_grant_id = [], rr_publisher_credential_id = [], rr_publisher_signature_hex = [], rr_record_digest = [] \<rparr>)"

definition sample_pack :: "string \<Rightarrow> nat \<Rightarrow> DomainPackDependency list \<Rightarrow> nat Admitted" where
  "sample_pack name version deps =
     \<lparr> ad_candidate_index = version, ad_candidate = sample_candidate name version deps, ad_record = sample_record, ad_version = version \<rparr>"

definition sample_app :: "nat Admitted" where
  "sample_app = sample_pack ''app'' 1 [sample_dependency ''lib'' ''1'']"

definition sample_context :: "nat SearchContext" where
  "sample_context =
     \<lparr> sc_candidates = [(''acme::app'', [sample_app]), (''acme::lib'', [sample_pack ''lib'' 2 [], sample_pack ''lib'' 1 []])],
       sc_locked = [(''acme::app'', ''1''), (''acme::lib'', ''1'')], sc_upgrade_targets = [], sc_root_coordinates = [''acme::app''] \<rparr>"

definition sample_roots :: "nat constraints" where
  "sample_roots = [(''acme::app'', [\<lparr> cn_requirement = 1, cn_required_content_digest = None \<rparr>])]"

definition sample_locked :: "string \<Rightarrow> nat Admitted option" where
  "sample_locked = bt_get [(''acme::app'', sample_app), (''acme::lib'', sample_pack ''lib'' 1 [])]"

lemma sample_locked_eq: "sample_locked k =
  (if k = ''acme::app'' then Some sample_app else if k = ''acme::lib'' then Some (sample_pack ''lib'' 1 []) else None)"
  by (simp add: sample_locked_def bt_get_def)

lemma sample_pack_deps [simp]: "pack_dependencies (sample_pack name version deps) = deps" "pack_conflicts (sample_pack name version deps) = []"
  "ad_version (sample_pack name version deps) = version"
  by (simp_all add: sample_pack_def sample_candidate_def)

lemma sample_keys [simp]: "coordinate_key (dep_pack (sample_dependency name req)) = ''acme::'' @ name"
  "dep_version_requirement (sample_dependency name req) = req" "dep_required_content_digest (sample_dependency name req) = None"
  by (simp_all add: sample_dependency_def sample_coordinate_def coordinate_key_def coordinate_key_parts_def)

lemma sample_meets [simp]: "meets sample_env a \<lparr> cn_requirement = r, cn_required_content_digest = None \<rparr> \<longleftrightarrow> r \<le> ad_version a"
  by (simp add: meets_def sample_env_def)

lemma sample_digits: "show_nat (Suc 0) = ''1''" "show_nat 2 = ''2''" "parse_digits ''1'' = Some (Suc 0)"
  by code_simp+

lemma sample_locked_Some:
  "sample_locked k = Some a \<longleftrightarrow> k = ''acme::app'' \<and> a = sample_app \<or> k = ''acme::lib'' \<and> a = sample_pack ''lib'' 1 []"
  unfolding sample_locked_eq by auto

lemma sample_edges: "pack_edges sample_locked \<subseteq> {(''acme::lib'', ''acme::app'')}"
proof
  fix p assume "p \<in> pack_edges sample_locked"
  then obtain d k a where p: "p = (coordinate_key (dep_pack d), k)" "sample_locked k = Some a" "d \<in> set (pack_dependencies a)"
    unfolding pack_edges_def by blast
  then show "p \<in> {(''acme::lib'', ''acme::app'')}" unfolding sample_locked_Some by (elim disjE conjE) (simp_all add: sample_app_def)
qed

lemma sample_resolution: "resolution sample_env (sc_candidates sample_context) sample_roots sample_locked"
  unfolding resolution_def
proof (intro conjI allI impI ballI)
  show "constrained sample_env sample_roots sample_locked"
    by (simp add: constrained_def sample_roots_def bt_get_def sample_locked_eq satisfies_meets sample_app_def)
  have "acyclic {(''acme::lib'', ''acme::app'')}" by (intro acyclic_insert [THEN iffD2] conjI) (simp_all add: acyclic_def)
  then show "acyclic (pack_edges sample_locked)" by (rule acyclic_subset [OF _ sample_edges])
next
  fix k a assume k: "sample_locked k = Some a"
  show "\<exists>universe. bt_get (sc_candidates sample_context) k = Some universe \<and> a \<in> set universe"
    using k unfolding sample_locked_Some by (elim disjE) (simp_all add: sample_context_def bt_get_def)
  fix d assume "d \<in> set (pack_dependencies a)"
  then have "d = sample_dependency ''lib'' ''1''" using k unfolding sample_locked_Some by (elim disjE) (simp_all add: sample_app_def)
  then show "dependency_met sample_env sample_locked d"
    by (simp add: dependency_met_def sample_locked_eq) (simp add: sample_env_def sample_digits)
next
  fix k a c assume "sample_locked k = Some a" "c \<in> set (pack_conflicts a)"
  then show "\<not> conflict_hit sample_env sample_locked c"
    unfolding sample_locked_Some by (elim disjE) (simp_all add: sample_app_def)
qed


end
