(* ===== verification/Pack_Order.thy ===== *)
theory Pack_Order
  imports Pack_Search
begin

text \<open>
  The order of the selected packs: \<open>topological_edges_and_order\<close> and \<open>build_selected\<close> of
  \<open>src/crates/forge-core-decisions/src/domain_pack_resolution.rs\<close>.

  The lemmas show exactly when an order is found: when the dependencies are acyclic and no pack
  lists the same pack twice among its dependencies.  The count of a pack is the length of its list of
  dependencies, while the packs waiting for it are a set, so a pack with a repeated dependency is never
  ready and the selection is reported as cyclic.
\<close>

section \<open>Edges and order\<close>

record DomainPackResolutionDependencyEdge =
  edge_from_ref :: DomainPackVersionReference
  edge_to_ref :: DomainPackVersionReference
  edge_required_content_digest :: "string option"

definition version_reference :: "DomainPackIdentity \<Rightarrow> DomainPackVersionReference" where
  "version_reference i = \<lparr> vr_publisher = pid_publisher i, vr_name = pid_name i, vr_version = pid_version i \<rparr>"

definition edge_key :: "DomainPackResolutionDependencyEdge \<Rightarrow> string" where
  "edge_key e =
     vr_publisher (edge_from_ref e) @ ''::'' @ vr_name (edge_from_ref e) @ ''::'' @ vr_version (edge_from_ref e) @ ''>'' @
     vr_publisher (edge_to_ref e) @ ''::'' @ vr_name (edge_to_ref e) @ ''::'' @ vr_version (edge_to_ref e) @ ''|'' @
     (case edge_required_content_digest e of Some d \<Rightarrow> d | None \<Rightarrow> [])"

text \<open>
  The two nested loops that collect the edges and, for every pack, the set of the packs waiting for it.  That
  map is a function here, with the empty set for an absent key.
\<close>

type_synonym edge_state = "(string \<Rightarrow> string list) \<times> DomainPackResolutionDependencyEdge list"

fun collect_dependencies ::
  "'v selection \<Rightarrow> string \<Rightarrow> 'v Admitted \<Rightarrow> DomainPackDependency list \<Rightarrow> edge_state \<Rightarrow> SearchFailure + edge_state" where
  "collect_dependencies selected from_key candidate [] st = Inr st"
| "collect_dependencies selected from_key candidate (d # ds) (dependents, edges) =
     (let to_key = coordinate_key (dep_pack d) in
      case bt_get selected to_key of
        None \<Rightarrow>
          Inl (selection_failure MissingDependency (''selection.'' @ from_key @ ''.dependencies'') ''selected dependency is absent'')
      | Some to_candidate \<Rightarrow>
          collect_dependencies selected from_key candidate ds
            (dependents(to_key := bs_insert from_key (dependents to_key)),
             edges @ [\<lparr> edge_from_ref = version_reference (candidate_identity (ad_candidate candidate)),
               edge_to_ref = version_reference (candidate_identity (ad_candidate to_candidate)),
               edge_required_content_digest = dep_required_content_digest d \<rparr>]))"

fun collect_edges :: "'v selection \<Rightarrow> (string \<times> 'v Admitted) list \<Rightarrow> edge_state \<Rightarrow> SearchFailure + edge_state" where
  "collect_edges selected [] st = Inr st"
| "collect_edges selected ((from_key, candidate) # rest) st =
     (case collect_dependencies selected from_key candidate (pack_dependencies candidate) st of
        Inl f \<Rightarrow> Inl f
      | Inr st' \<Rightarrow> collect_edges selected rest st')"

text \<open>
  The loop over the packs waiting for one that was placed: a key without a count is skipped, and a
  subtraction below zero, where the code panics, is \<open>None\<close>.
\<close>

fun release_dependents ::
  "string list \<Rightarrow> string list \<Rightarrow> (string \<Rightarrow> nat) \<times> string list \<Rightarrow> ((string \<Rightarrow> nat) \<times> string list) option" where
  "release_dependents keys [] st = Some st"
| "release_dependents keys (d # ds) (count, ready) =
     (if d \<notin> set keys then release_dependents keys ds (count, ready)
      else if count d = 0 then None
      else release_dependents keys ds
             (count(d := count d - 1), if count d - 1 = 0 then bs_insert d ready else ready))"

lemma release_dependents_relax:
  "release_dependents keys ds (count, ready) = relax keys (filter (\<lambda>d. d \<in> set keys) ds) (count, ready)"
  by (induction keys ds "(count, ready)" arbitrary: count ready rule: release_dependents.induct) auto

function drain_ready ::
  "string list \<Rightarrow> (string \<Rightarrow> string list) \<Rightarrow> string list \<Rightarrow> (string \<Rightarrow> nat) \<Rightarrow> string list \<Rightarrow> string list option" where
  "drain_ready keys dependents order count [] = Some order"
| "drain_ready keys dependents order count (key # ready) =
     (case release_dependents keys (dependents key) (count, ready) of
        None \<Rightarrow> None
      | Some (count', ready') \<Rightarrow> drain_ready keys dependents (order @ [key]) count' ready')"
  by pat_completeness auto
termination
proof (relation "measure (\<lambda>(keys, dependents, order, count, ready). sum count (set keys) + length ready)", goal_cases)
  case (2 keys dependents order count key ready x count' ready')
  then show ?case
    using relax_measure [of keys "filter (\<lambda>d. d \<in> set keys) (dependents key)" count ready count' ready']
    by (auto simp: release_dependents_relax)
qed simp

definition dependency_count :: "'v selection \<Rightarrow> string \<Rightarrow> nat" where
  "dependency_count selected k = (case bt_get selected k of Some a \<Rightarrow> length (pack_dependencies a) | None \<Rightarrow> 0)"

definition cycle_failure :: SearchFailure where
  "cycle_failure = selection_failure DependencyCycle ''selection'' ''selected dependency graph contains a cycle''"

definition topological_edges_and_order ::
  "'v selection \<Rightarrow> SearchFailure + DomainPackResolutionDependencyEdge list \<times> string list" where
  "topological_edges_and_order selected =
     (case collect_edges selected selected (\<lambda>_. [], []) of
        Inl f \<Rightarrow> Inl f
      | Inr (dependents, edges) \<Rightarrow>
          (let keys = map fst selected; count = dependency_count selected;
               order = (case drain_ready keys dependents [] count (filter (\<lambda>k. count k = 0) keys) of
                          Some order \<Rightarrow> order
                        | None \<Rightarrow> [])
           in if length order \<noteq> length selected then Inl cycle_failure
              else Inr (sort_by (\<lambda>l r. edge_key l \<le> edge_key r) edges, order)))"

section \<open>The selected packages\<close>

datatype DomainPackSourceAssurance = ExplicitlyUntrusted | LocalExplicit | SupplyChainVerified

datatype DomainPackSemanticAssurance = Unreviewed | ValidatedCandidate | Reviewed

record DomainPackResolvedPackage =
  rp_identity :: DomainPackIdentity
  rp_package :: DomainPackPackageBinding
  rp_registry_record_digest :: string
  rp_namespace_grant_id :: string
  rp_source_assurance :: DomainPackSourceAssurance
  rp_semantic_assurance :: DomainPackSemanticAssurance
  rp_reviewed_entry_digest :: "string option"
  rp_promotion_authorization_digest :: "string option"
  rp_dependencies :: "DomainPackDependency list"
  rp_deterministic_order :: "32 word"

text \<open>The order of \<open>Option<String>\<close>: \<open>None\<close> first.\<close>

fun option_le :: "string option \<Rightarrow> string option \<Rightarrow> bool" where
  "option_le None _ = True"
| "option_le (Some x) None = False"
| "option_le (Some x) (Some y) = (x \<le> y)"

definition sorted_dependencies :: "DomainPackDependency list \<Rightarrow> DomainPackDependency list" where
  "sorted_dependencies ds =
     sort_by (\<lambda>l r.
       coordinate_key (dep_pack l) < coordinate_key (dep_pack r) \<or>
       coordinate_key (dep_pack l) = coordinate_key (dep_pack r) \<and>
         (dep_version_requirement l < dep_version_requirement r \<or>
          dep_version_requirement l = dep_version_requirement r \<and>
            option_le (dep_required_content_digest l) (dep_required_content_digest r))) ds"

text \<open>\<open>u32::try_from(position).unwrap_or(u32::MAX)\<close>.\<close>

definition order_number :: "nat \<Rightarrow> 32 word" where
  "order_number position = (if position < 2 ^ 32 then of_nat position else - 1)"

definition resolved_package :: "nat \<times> 'v Admitted \<Rightarrow> DomainPackResolvedPackage" where
  "resolved_package p =
     (case p of (position, a) \<Rightarrow>
      \<lparr> rp_identity = candidate_identity (ad_candidate a),
        rp_package = cand_package (ad_candidate a),
        rp_registry_record_digest = rr_record_digest (ad_record a),
        rp_namespace_grant_id = rr_namespace_grant_id (ad_record a),
        rp_source_assurance = ExplicitlyUntrusted,
        rp_semantic_assurance = Unreviewed,
        rp_reviewed_entry_digest = None,
        rp_promotion_authorization_digest = None,
        rp_dependencies = sorted_dependencies (pack_dependencies a),
        rp_deterministic_order = order_number position \<rparr>)"

definition build_selected :: "'v selection \<Rightarrow> DomainPackResolvedPackage list" where
  "build_selected selected =
     (case topological_edges_and_order selected of
        Inl _ \<Rightarrow> []
      | Inr (_, order) \<Rightarrow>
          map resolved_package
            (List.map_filter (\<lambda>(position, key). map_option (\<lambda>a. (position, a)) (bt_get selected key)) (enumerate 0 order)))"

section \<open>When there is an order\<close>

text \<open>A selection in which every dependency is selected, and a pack with a repeated dependency.\<close>

definition closed_selection :: "'v selection \<Rightarrow> bool" where
  "closed_selection selected \<longleftrightarrow> Domain (pack_edges (bt_get selected)) \<subseteq> dom (bt_get selected)"

definition repeats_dependency :: "'v Admitted \<Rightarrow> bool" where
  "repeats_dependency a \<longleftrightarrow> \<not> distinct (map (\<lambda>d. coordinate_key (dep_pack d)) (pack_dependencies a))"

definition repeat_free :: "'v selection \<Rightarrow> bool" where
  "repeat_free selected \<longleftrightarrow> (\<forall>a \<in> ran (bt_get selected). \<not> repeats_dependency a)"

lemma collect_dependencies_result:
  assumes "\<And>d. d \<in> set ds \<Longrightarrow> coordinate_key (dep_pack d) \<in> dom (bt_get selected)"
  shows "\<exists>edges'. collect_dependencies selected k a ds (dependents, edges) =
      Inr (\<lambda>t. if t \<in> (\<lambda>d. coordinate_key (dep_pack d)) ` set ds then bs_insert k (dependents t) else dependents t, edges')"
  using assms
proof (induction ds arbitrary: dependents edges)
  case (Cons d ds)
  let ?t = "coordinate_key (dep_pack d)"
  obtain b where b: "bt_get selected ?t = Some b" using Cons.prems [of d] by auto
  let ?dep = "dependents(?t := bs_insert k (dependents ?t))"
  let ?edges = "edges @ [\<lparr> edge_from_ref = version_reference (candidate_identity (ad_candidate a)),
      edge_to_ref = version_reference (candidate_identity (ad_candidate b)),
      edge_required_content_digest = dep_required_content_digest d \<rparr>]"
  have "\<exists>edges'. collect_dependencies selected k a ds (?dep, ?edges) =
      Inr (\<lambda>t. if t \<in> (\<lambda>d. coordinate_key (dep_pack d)) ` set ds then bs_insert k (?dep t) else ?dep t, edges')"
    by (rule Cons.IH, rule Cons.prems) simp
  then obtain edges' where e: "collect_dependencies selected k a ds (?dep, ?edges) =
      Inr (\<lambda>t. if t \<in> (\<lambda>d. coordinate_key (dep_pack d)) ` set ds then bs_insert k (?dep t) else ?dep t, edges')" ..
  have "(\<lambda>t. if t \<in> (\<lambda>d. coordinate_key (dep_pack d)) ` set ds then bs_insert k (?dep t) else ?dep t) =
      (\<lambda>t. if t \<in> (\<lambda>d. coordinate_key (dep_pack d)) ` set (d # ds) then bs_insert k (dependents t) else dependents t)"
    by (auto simp: fun_eq_iff bs_insert_def set_insort_key)
  then show ?case using e b by (auto simp: Let_def)
qed simp

text \<open>The packs waiting for each pack, after some of the selected packs were visited.\<close>

definition waiting_inv :: "(string \<times> 'v Admitted) list \<Rightarrow> (string \<Rightarrow> string list) \<Rightarrow> bool" where
  "waiting_inv visited dependents \<longleftrightarrow>
     (\<forall>t. distinct (dependents t) \<and>
        set (dependents t) = {k. \<exists>a d. (k, a) \<in> set visited \<and> d \<in> set (pack_dependencies a) \<and> t = coordinate_key (dep_pack d)})"

lemma collect_edges_result:
  assumes "\<And>k a d. (k, a) \<in> set rest \<Longrightarrow> d \<in> set (pack_dependencies a) \<Longrightarrow> coordinate_key (dep_pack d) \<in> dom (bt_get selected)"
    and "waiting_inv visited dependents"
  shows "\<exists>dependents' edges'. collect_edges selected rest (dependents, edges) = Inr (dependents', edges') \<and>
    waiting_inv (visited @ rest) dependents'"
  using assms
proof (induction rest arbitrary: visited dependents edges)
  case (Cons p rest)
  obtain k a where p: "p = (k, a)" by fastforce
  let ?dep = "\<lambda>t. if t \<in> (\<lambda>d. coordinate_key (dep_pack d)) ` set (pack_dependencies a) then bs_insert k (dependents t) else dependents t"
  have "\<exists>edges'. collect_dependencies selected k a (pack_dependencies a) (dependents, edges) = Inr (?dep, edges')"
    by (rule collect_dependencies_result, rule Cons.prems(1) [of k a]) (simp_all add: p)
  then obtain edges' where e: "collect_dependencies selected k a (pack_dependencies a) (dependents, edges) = Inr (?dep, edges')" ..
  have "waiting_inv (visited @ [p]) ?dep"
    using Cons.prems(2) unfolding waiting_inv_def p by auto
  then have "\<exists>dependents' edges''. collect_edges selected rest (?dep, edges') = Inr (dependents', edges'') \<and>
      waiting_inv ((visited @ [p]) @ rest) dependents'"
    by (intro Cons.IH) (rule Cons.prems(1), rule list.set_intros(2), assumption+)
  then show ?case using e p by simp
qed simp

lemma release_dependents_ready:
  "release_dependents keys ds (count, ready) = Some (count', ready') \<Longrightarrow> set ready \<subseteq> set keys \<Longrightarrow> set ready' \<subseteq> set keys"
  by (induction keys ds "(count, ready)" arbitrary: count ready rule: release_dependents.induct) (auto split: if_splits)

lemma drain_ready_kahn:
  "(\<And>u. set (dependents u) \<subseteq> set keys) \<Longrightarrow> set ready \<subseteq> set keys \<Longrightarrow>
     drain_ready keys dependents order count ready = kahn keys dependents order count ready"
proof (induction keys dependents order count ready rule: drain_ready.induct)
  case (2 keys dependents order count key ready)
  have f: "filter (\<lambda>d. d \<in> set keys) (dependents key) = dependents key" using 2(2) [of key] by (simp add: filter_id_conv subset_iff)
  have r: "release_dependents keys (dependents key) (count, ready) = relax keys (dependents key) (count, ready)"
    unfolding release_dependents_relax f ..
  show ?case
  proof (cases "relax keys (dependents key) (count, ready)")
    case (Some p)
    obtain count' ready' where p: "p = (count', ready')" by fastforce
    have "set ready' \<subseteq> set keys" using release_dependents_ready [of keys "dependents key" count ready count' ready'] Some p r 2(3) by simp
    then have "drain_ready keys dependents (order @ [key]) count' ready' = kahn keys dependents (order @ [key]) count' ready'"
      by (intro 2(1) [OF _ p [symmetric] 2(2)]) (simp_all add: Some r)
    then show ?thesis using Some p r 2(3) by simp
  qed (use r 2(3) in simp)
qed simp

lemma pack_edges_into:
  "{u. (u, v) \<in> pack_edges \<sigma>} = (case \<sigma> v of Some a \<Rightarrow> (\<lambda>d. coordinate_key (dep_pack d)) ` set (pack_dependencies a) | None \<Rightarrow> {})"
  by (auto simp: pack_edges_def split: option.splits)

text \<open>What the count of a pack has too much: the repeated entries among its dependencies.\<close>

definition pack_excess :: "'v selection \<Rightarrow> string \<Rightarrow> nat" where
  "pack_excess selected v = dependency_count selected v - card {u. (u, v) \<in> pack_edges (bt_get selected)}"

lemma dependency_count_excess:
  "dependency_count selected v = card {u. (u, v) \<in> pack_edges (bt_get selected)} + pack_excess selected v"
proof -
  have "card ((\<lambda>d. coordinate_key (dep_pack d)) ` set ds) \<le> length ds" for ds :: "DomainPackDependency list"
    using card_length [of "map (\<lambda>d. coordinate_key (dep_pack d)) ds"] by simp
  then show ?thesis
    unfolding pack_excess_def pack_edges_into dependency_count_def by (cases "bt_get selected v") simp_all
qed

lemma pack_excess_zero: "bt_get selected v = Some a \<Longrightarrow> pack_excess selected v = 0 \<longleftrightarrow> \<not> repeats_dependency a"
proof -
  assume a: "bt_get selected v = Some a"
  let ?ks = "map (\<lambda>d. coordinate_key (dep_pack d)) (pack_dependencies a)"
  have "pack_excess selected v = length ?ks - card (set ?ks)"
    unfolding pack_excess_def pack_edges_into dependency_count_def a by simp
  moreover have "card (set ?ks) \<le> length ?ks" by (rule card_length)
  moreover have "distinct ?ks \<longleftrightarrow> card (set ?ks) = length ?ks" by (metis card_distinct distinct_card)
  ultimately show ?thesis unfolding repeats_dependency_def by linarith
qed

lemma pack_edges_closed:
  assumes "closed_selection selected"
  shows "pack_edges (bt_get selected) \<subseteq> dom (bt_get selected) \<times> dom (bt_get selected)"
proof (clarify, rule conjI)
  fix u v assume e: "(u, v) \<in> pack_edges (bt_get selected)"
  then have "u \<in> Domain (pack_edges (bt_get selected))" by (rule DomainI)
  then show "u \<in> dom (bt_get selected)" using assms unfolding closed_selection_def by (rule set_mp [rotated])
  show "v \<in> dom (bt_get selected)" using e by (auto simp: pack_edges_def)
qed

text \<open>The maps the loop starts from.\<close>

lemma collect_edges_closed:
  assumes sorted: "bt_sorted selected" and closed: "closed_selection selected"
  shows "\<exists>dependents edges. collect_edges selected selected (\<lambda>_. [], []) = Inr (dependents, edges) \<and>
    pack_edges (bt_get selected) = {(u, v). v \<in> set (dependents u)} \<and> (\<forall>u. distinct (dependents u))"
proof -
  have dep: "coordinate_key (dep_pack d) \<in> dom (bt_get selected)" if "(k, a) \<in> set selected" "d \<in> set (pack_dependencies a)" for k a d
  proof -
    have "a \<in> ran (bt_get selected)" using that(1) unfolding bt_get_in_set [OF sorted] by (rule ranI)
    then show ?thesis using closed that(2) unfolding closed_selection_def Domain_pack_edges by blast
  qed
  have "\<exists>dependents' edges'. collect_edges selected selected (\<lambda>_. [], []) = Inr (dependents', edges') \<and>
      waiting_inv ([] @ selected) dependents'"
    by (rule collect_edges_result, rule dep) (simp_all add: waiting_inv_def)
  then obtain dependents edges where c: "collect_edges selected selected (\<lambda>_. [], []) = Inr (dependents, edges)"
    and w: "waiting_inv selected dependents" by auto
  have "(u, v) \<in> pack_edges (bt_get selected) \<longleftrightarrow> v \<in> set (dependents u)" for u v
  proof -
    have "set (dependents u) = {k. \<exists>a d. bt_get selected k = Some a \<and> d \<in> set (pack_dependencies a) \<and> u = coordinate_key (dep_pack d)}"
      using w unfolding waiting_inv_def bt_get_in_set [OF sorted] by blast
    then show ?thesis by (auto simp: pack_edges_def)
  qed
  moreover have "\<forall>u. distinct (dependents u)" using w unfolding waiting_inv_def by blast
  ultimately show ?thesis using c by auto
qed

lemma kahn_inv_start:
  assumes "bt_sorted selected"
  shows "kahn_inv (map fst selected) (pack_edges (bt_get selected)) (pack_excess selected) [] (dependency_count selected)
    (filter (\<lambda>k. dependency_count selected k = 0) (map fst selected))"
proof -
  have "sorted (map fst selected)" "distinct (map fst selected)"
    using assms bt_sorted_distinct unfolding bt_sorted_def strict_sorted_iff by blast+
  then show ?thesis
    unfolding kahn_inv_def topological_def using dependency_count_excess [of selected] by (simp add: sorted_wrt_filter)
qed

lemma ball_dom_ran: "(\<And>v a. f v = Some a \<Longrightarrow> P v \<longleftrightarrow> Q a) \<Longrightarrow> (\<forall>v \<in> dom f. P v) \<longleftrightarrow> (\<forall>a \<in> ran f. Q a)"
  unfolding dom_def ran_def by auto

lemma topological_result:
  fixes selected :: "'v selection"
  defines "E \<equiv> pack_edges (bt_get selected)"
  assumes sorted: "bt_sorted selected" and closed: "closed_selection selected"
  shows "case topological_edges_and_order selected of
      Inr (edges, order) \<Rightarrow> distinct order \<and> set order = dom (bt_get selected) \<and> topological E order \<and> acyclic E \<and>
        (\<forall>a \<in> ran (bt_get selected). \<not> repeats_dependency a)
    | Inl f \<Rightarrow> f = cycle_failure \<and> (acyclic E \<longrightarrow> (\<exists>a \<in> ran (bt_get selected). repeats_dependency a))"
proof -
  let ?keys = "map fst selected" and ?ex = "pack_excess selected" and ?count = "dependency_count selected"
  let ?ready = "filter (\<lambda>k. ?count k = 0) ?keys"
  from collect_edges_closed [OF sorted closed] obtain dependents edges where
    c: "collect_edges selected selected (\<lambda>_. [], []) = Inr (dependents, edges)" and
    E: "E = {(u, v). v \<in> set (dependents u)}" "\<And>u. distinct (dependents u)" unfolding E_def by blast
  have sub: "E \<subseteq> set ?keys \<times> set ?keys" unfolding E_def bt_keys by (rule pack_edges_closed [OF closed])
  from kahn_result [OF E sub, of ?ex "[]" ?count ?ready] kahn_inv_start [OF sorted] obtain order count' where
    k: "kahn ?keys dependents [] ?count ?ready = Some order" and inv: "kahn_inv ?keys E ?ex order count' []"
    unfolding E_def by blast
  have "set (dependents u) \<subseteq> set ?keys" for u using E(1) sub by blast
  then have d: "drain_ready ?keys dependents [] ?count ?ready = Some order"
    using k by (subst drain_ready_kahn) auto
  have o: "distinct order" "set order \<subseteq> set ?keys" "topological E order" "\<forall>v \<in> set order. ?ex v = 0"
    using inv unfolding kahn_inv_def by blast+
  have "card (set ?keys) = length selected" using distinct_card [OF bt_sorted_distinct [OF sorted]] by simp
  then have len: "length order = length selected \<longleftrightarrow> set order = set ?keys"
    using distinct_card [OF o(1)] card_subset_eq [OF finite_set o(2)] by (metis (no_types))
  have rep: "(\<forall>v \<in> set ?keys. ?ex v = 0) \<longleftrightarrow> (\<forall>a \<in> ran (bt_get selected). \<not> repeats_dependency a)"
    unfolding bt_keys by (rule ball_dom_ran) (rule pack_excess_zero)
  have full: "set order = set ?keys \<longleftrightarrow> acyclic E \<and> (\<forall>v \<in> set ?keys. ?ex v = 0)"
    using kahn_stuck [OF inv sub] topological_acyclic [OF o(3,1)] o(4) sub by metis
  have r: "topological_edges_and_order selected =
      (if set order = set ?keys then Inr (sort_by (\<lambda>l r. edge_key l \<le> edge_key r) edges, order) else Inl cycle_failure)"
    unfolding topological_edges_and_order_def c by (simp add: d len Let_def)
  show ?thesis unfolding r using full o(1,3) rep bt_keys [of selected] by (cases "set order = set ?keys") simp_all
qed

section \<open>Properties\<close>

text \<open>
  C40. The order of a selection in which every dependency is selected: when the dependencies are acyclic and no
  pack lists a dependency twice, every pack comes exactly once and after everything it depends on; in
  every other case the selection is refused as cyclic, also when it is acyclic and only a dependency
  is repeated.
\<close>

theorem pack_order_exact:
  assumes "bt_sorted selected" "closed_selection selected"
  shows "if acyclic (pack_edges (bt_get selected)) \<and> repeat_free selected
    then \<exists>edges order. topological_edges_and_order selected = Inr (edges, order) \<and> distinct order \<and>
      set order = dom (bt_get selected) \<and> topological (pack_edges (bt_get selected)) order
    else topological_edges_and_order selected = Inl cycle_failure"
  using topological_result [OF assms] unfolding repeat_free_def
  by (cases "topological_edges_and_order selected") auto

definition sample_repeated :: "nat selection" where
  "sample_repeated =
     [(''acme::app'', sample_pack ''app'' 1 [sample_dependency ''lib'' ''1'', sample_dependency ''lib'' ''1'']),
      (''acme::lib'', sample_pack ''lib'' 1 [])]"

lemma sample_repeated_Some:
  "bt_get sample_repeated k = Some a \<longleftrightarrow>
     k = ''acme::app'' \<and> a = sample_pack ''app'' 1 [sample_dependency ''lib'' ''1'', sample_dependency ''lib'' ''1''] \<or>
     k = ''acme::lib'' \<and> a = sample_pack ''lib'' 1 []"
  by (auto simp: sample_repeated_def bt_get_def)

lemma sample_repeated_edges: "pack_edges (bt_get sample_repeated) \<subseteq> {(''acme::lib'', ''acme::app'')}"
proof
  fix p assume "p \<in> pack_edges (bt_get sample_repeated)"
  then obtain d k a where p: "p = (coordinate_key (dep_pack d), k)" "bt_get sample_repeated k = Some a" "d \<in> set (pack_dependencies a)"
    unfolding pack_edges_def by blast
  then show "p \<in> {(''acme::lib'', ''acme::app'')}" unfolding sample_repeated_Some by (elim disjE conjE) simp_all
qed

lemma sample_repeated_closed: "closed_selection sample_repeated"
proof -
  have "Domain (pack_edges (bt_get sample_repeated)) \<subseteq> {''acme::lib''}"
    using Domain_mono [OF sample_repeated_edges] by simp
  also have "\<dots> \<subseteq> dom (bt_get sample_repeated)"
    by (simp only: insert_subset empty_subsetI simp_thms, rule domI) (simp add: sample_repeated_Some)
  finally show ?thesis unfolding closed_selection_def .
qed

lemma sample_repeated_repeats: "\<not> repeat_free sample_repeated"
proof
  assume "repeat_free sample_repeated"
  moreover have "sample_pack ''app'' 1 [sample_dependency ''lib'' ''1'', sample_dependency ''lib'' ''1''] \<in> ran (bt_get sample_repeated)"
    by (rule ranI [of _ "''acme::app''"]) (simp add: sample_repeated_Some)
  ultimately have "\<not> repeats_dependency (sample_pack ''app'' 1 [sample_dependency ''lib'' ''1'', sample_dependency ''lib'' ''1''])"
    unfolding repeat_free_def by (rule bspec)
  then show False by (simp add: repeats_dependency_def)
qed

lemma sample_repeated_acyclic: "acyclic (pack_edges (bt_get sample_repeated))"
proof (rule acyclic_subset [OF _ sample_repeated_edges])
  show "acyclic {(''acme::lib'', ''acme::app'')}" by (simp add: acyclic_insert wf_acyclic)
qed

theorem pack_order_exact_witness:
  "topological_edges_and_order sample_repeated = Inl cycle_failure \<and> acyclic (pack_edges (bt_get sample_repeated))"
proof -
  have "bt_sorted sample_repeated" by (simp add: sample_repeated_def bt_sorted_def)
  from pack_order_exact [OF this sample_repeated_closed]
  have "topological_edges_and_order sample_repeated = Inl cycle_failure"
    by (simp only: sample_repeated_repeats simp_thms if_False)
  then show ?thesis using sample_repeated_acyclic by (rule conjI)
qed

end
