(* ===== verification/Pack_Resolution.thy ===== *)
theory Pack_Resolution
  imports Pack_Order
begin

text \<open>
  The resolution of domain packs against a registry, \<open>resolve_domain_packs\<close> of
  \<open>src/crates/forge-core-decisions/src/domain_pack_resolution.rs\<close>: validation of the request, admission of the
  candidates, the search of \<open>Pack_Search\<close> and the order of \<open>Pack_Order\<close>, and the projection that is
  returned.  Canonical JSON and SHA-256 are the fields of \<open>digest_env\<close>.

  The lemmas show what an admitted candidate has in the registry, that a resolved projection lists a
  resolution in the order of its dependencies, and what a blocked projection means.
\<close>

section \<open>Requests\<close>

datatype DomainPackResolutionRootReason =
  ExistingProjectRoot | InstallIntent | UpgradeIntent | PersistentDomainRequirement | RollbackIntent

record DomainPackResolutionRoot =
  root_pack :: DomainPackCoordinate
  root_version_requirement :: string
  root_required_content_digest :: "string option"
  root_reason :: DomainPackResolutionRootReason

record DomainPackLockedPackage =
  lp_identity :: DomainPackIdentity
  lp_rest :: string

record DomainPackLockedCapabilityBinding =
  lcb_binding_id :: string
  lcb_rest :: string

record DomainPackExactLockPayload =
  pl_project_id :: string
  pl_roots :: "DomainPackResolutionRoot list"
  pl_packages :: "DomainPackLockedPackage list"
  pl_verified_capability_bindings :: "DomainPackLockedCapabilityBinding list"
  pl_unresolved_capability_gaps :: "string list"
  pl_rest :: string

record DomainPackExactLock =
  lk_payload :: DomainPackExactLockPayload
  lock_digest :: string

record DomainPackExactLockDocument =
  lkd_schema_version :: string
  domain_pack_exact_lock :: DomainPackExactLock

record DomainPackDomainRequirement =
  dr_id :: string
  dr_domain_id :: string
  dr_pack_version_requirement :: string
  dr_required_capability_refs :: "string list"

record DomainPackProjectRequirements =
  pr_project_id :: string
  pr_requirement_set_id :: string
  pr_required_domains :: "DomainPackDomainRequirement list"

record DomainPackProjectRequirementsDocument =
  prd_schema_version :: string
  domain_pack_project_requirements :: DomainPackProjectRequirements

record DomainPackCoreBinding =
  core_bundle_digest :: string
  core_policy_set_digest :: string
  core_rest :: string

record DomainPackResolutionRequest =
  rq_request_id :: string
  rq_project_id :: string
  rq_forge_core_version :: string
  rq_core :: DomainPackCoreBinding
  rq_requirements :: DomainPackProjectRequirementsDocument
  rq_roots :: "DomainPackResolutionRoot list"
  rq_current_lock :: "DomainPackExactLockDocument option"
  rq_registry_snapshot_digest :: string
  rq_candidates :: "DomainPackResolutionCandidate list"

record DomainPackResolutionRequestDocument =
  rqd_schema_version :: string
  domain_pack_resolution_request :: DomainPackResolutionRequest

section \<open>Issues\<close>

record DomainPackResolutionIssue =
  issue_code :: DomainPackResolutionIssueCode
  issue_path :: string
  issue_message :: string

text \<open>The codes are ordered as they are declared.\<close>

definition issue_codes :: "DomainPackResolutionIssueCode list" where
  "issue_codes =
     [UnsupportedSchemaVersion, InvalidIdentity, InvalidDigest, InvalidVersionRequirement, RegistryDigestMismatch,
      RegistryRecordMissing, RegistryRecordMismatch, RegistryExpired, RegistrySignatureInvalid, PublisherSignatureInvalid,
      NamespaceNotGranted, RevokedPackage, ExplicitlyUntrustedIssue, DuplicateVersionEquivocation, MissingRoot,
      MissingDependency, IncompatibleDependency, DependencyCycle, DeclaredConflict, PrereleaseNotExplicit,
      CurrentLockMismatch, ResourceLimitExceeded, CompositionBlocked]"

definition code_rank :: "DomainPackResolutionIssueCode \<Rightarrow> nat" where
  "code_rank c = length (takeWhile (\<lambda>d. d \<noteq> c) issue_codes)"

lemma issue_codes_nth: "issue_codes ! code_rank c = c"
  by (cases c) (simp_all add: issue_codes_def code_rank_def)

lemma code_rank_inj: "code_rank c = code_rank d \<longleftrightarrow> c = d"
  by (metis issue_codes_nth)

instantiation DomainPackResolutionIssueCode :: linorder
begin

definition less_eq_DomainPackResolutionIssueCode :: "DomainPackResolutionIssueCode \<Rightarrow> DomainPackResolutionIssueCode \<Rightarrow> bool" where
  "less_eq_DomainPackResolutionIssueCode c d \<longleftrightarrow> code_rank c \<le> code_rank d"

definition less_DomainPackResolutionIssueCode :: "DomainPackResolutionIssueCode \<Rightarrow> DomainPackResolutionIssueCode \<Rightarrow> bool" where
  "less_DomainPackResolutionIssueCode c d \<longleftrightarrow> code_rank c < code_rank d"

instance
  by standard (auto simp: less_eq_DomainPackResolutionIssueCode_def less_DomainPackResolutionIssueCode_def code_rank_inj)

end

definition MAX_DOMAIN_PACK_RESOLUTION_CANDIDATES :: nat where
  "MAX_DOMAIN_PACK_RESOLUTION_CANDIDATES = 512"

definition MAX_DOMAIN_PACK_RESOLUTION_VERSIONS_PER_COORDINATE :: nat where
  "MAX_DOMAIN_PACK_RESOLUTION_VERSIONS_PER_COORDINATE = 64"

definition MAX_DOMAIN_PACK_RESOLUTION_ROOTS :: nat where
  "MAX_DOMAIN_PACK_RESOLUTION_ROOTS = 64"

definition MAX_DOMAIN_PACK_RESOLUTION_DEPENDENCIES_PER_PACK :: nat where
  "MAX_DOMAIN_PACK_RESOLUTION_DEPENDENCIES_PER_PACK = 64"

definition MAX_DOMAIN_PACK_RESOLUTION_DIAGNOSTICS :: nat where
  "MAX_DOMAIN_PACK_RESOLUTION_DIAGNOSTICS = 1024"

definition DOMAIN_PACK_LIFECYCLE_SCHEMA_VERSION :: string where
  "DOMAIN_PACK_LIFECYCLE_SCHEMA_VERSION = ''0.5''"

definition DOMAIN_PACK_SCHEMA_VERSION :: string where
  "DOMAIN_PACK_SCHEMA_VERSION = ''0.1''"

text \<open>\<open>issue\<close> pushes unless the vector is full; \<open>report\<close> is a conditional call of it.\<close>

definition issue :: "DomainPackResolutionIssueCode \<Rightarrow> string \<Rightarrow> string \<Rightarrow> DomainPackResolutionIssue list \<Rightarrow> DomainPackResolutionIssue list" where
  "issue code path message issues =
     (if length issues < MAX_DOMAIN_PACK_RESOLUTION_DIAGNOSTICS
      then issues @ [\<lparr> issue_code = code, issue_path = path, issue_message = message \<rparr>] else issues)"

definition resource_issue :: "string \<Rightarrow> string \<Rightarrow> DomainPackResolutionIssue list \<Rightarrow> DomainPackResolutionIssue list" where
  "resource_issue path message = issue ResourceLimitExceeded path message"

definition report ::
  "bool \<Rightarrow> DomainPackResolutionIssueCode \<Rightarrow> string \<Rightarrow> string \<Rightarrow> DomainPackResolutionIssue list \<Rightarrow> DomainPackResolutionIssue list" where
  "report bad code path message issues = (if bad then issue code path message issues else issues)"

definition push_failure :: "SearchFailure \<Rightarrow> DomainPackResolutionIssue list \<Rightarrow> DomainPackResolutionIssue list" where
  "push_failure f =
     issue (case sf_code f of Some code \<Rightarrow> code | None \<Rightarrow> IncompatibleDependency) (sf_path f) (sf_message f)"

definition finish_issues :: "DomainPackResolutionIssue list \<Rightarrow> DomainPackResolutionIssue list" where
  "finish_issues issues =
     take MAX_DOMAIN_PACK_RESOLUTION_DIAGNOSTICS (remdups_adj (sort_by (\<lambda>l r.
       issue_code l < issue_code r \<or>
       issue_code l = issue_code r \<and>
         (issue_path l < issue_path r \<or> issue_path l = issue_path r \<and> issue_message l \<le> issue_message r)) issues))"

section \<open>Validation of the request\<close>

datatype DomainPackResolutionStatus = PackResolved | PackBlocked

record DomainPackRejectedCandidate =
  rj_identity :: DomainPackIdentity
  rj_package_digest :: string
  rj_reasons :: "DomainPackResolutionIssueCode list"

text \<open>
  \<open>canonical_digest\<close> at the types it is called with: a lock payload, an unresolved capability gap, and the
  subject of the resolution digest; and the digest of the text for a failed encoding.
\<close>

record digest_env =
  lock_payload_digest :: "DomainPackExactLockPayload \<Rightarrow> string option"
  gap_digest :: "string \<Rightarrow> string option"
  subject_digest ::
    "DomainPackResolutionRequestDocument \<Rightarrow> string \<Rightarrow> DomainPackResolutionStatus \<Rightarrow> DomainPackResolvedPackage list \<Rightarrow>
     DomainPackResolutionDependencyEdge list \<Rightarrow> DomainPackRejectedCandidate list \<Rightarrow> DomainPackResolutionIssue list \<Rightarrow> string option"
  encoding_failed_digest :: string

definition valid_identity :: "DomainPackIdentity \<Rightarrow> bool" where
  "valid_identity i \<longleftrightarrow> valid_id (pid_publisher i) \<and> valid_id (pid_name i) \<and> valid_id (pid_namespace i)"

definition valid_coordinate :: "DomainPackCoordinate \<Rightarrow> bool" where
  "valid_coordinate c \<longleftrightarrow> valid_id (co_publisher c) \<and> valid_id (co_name c)"

definition validate_current_lock ::
  "digest_env \<Rightarrow> DomainPackResolutionRequest \<Rightarrow> DomainPackResolutionIssue list \<Rightarrow> DomainPackResolutionIssue list" where
  "validate_current_lock dg input issues =
     (case rq_current_lock input of
        None \<Rightarrow> issues
      | Some lock \<Rightarrow>
          (report (\<not> valid_digest (lock_digest (domain_pack_exact_lock lock)) \<or>
              lock_payload_digest dg (lk_payload (domain_pack_exact_lock lock)) \<noteq> Some (lock_digest (domain_pack_exact_lock lock)))
             InvalidDigest ''current_lock.lock_digest'' ''current lock digest does not match its canonical payload'' \<circ>
           report (pl_project_id (lk_payload (domain_pack_exact_lock lock)) \<noteq> rq_project_id input)
             CurrentLockMismatch ''current_lock.payload.project_id'' ''current lock belongs to a different project'' \<circ>
           report (lkd_schema_version lock \<noteq> DOMAIN_PACK_LIFECYCLE_SCHEMA_VERSION)
             CurrentLockMismatch ''current_lock.schema_version'' ''current lock has an unsupported schema'') issues)"

definition validate_root ::
  "('v, 'r) pack_env \<Rightarrow> nat \<times> DomainPackResolutionRoot \<Rightarrow> DomainPackResolutionIssue list \<Rightarrow> DomainPackResolutionIssue list" where
  "validate_root env p =
     (case p of (index, root) \<Rightarrow>
      (let path = ''roots.'' @ show_nat index in
       report (case root_required_content_digest root of None \<Rightarrow> False | Some digest \<Rightarrow> \<not> valid_digest digest)
         InvalidDigest (path @ ''.required_content_digest'') ''invalid sha256 digest'' \<circ>
       report (parse_req env (root_version_requirement root) = None)
         InvalidVersionRequirement (path @ ''.version_requirement'') ''invalid semantic-version requirement'' \<circ>
       report (\<not> valid_coordinate (root_pack root)) InvalidIdentity (path @ ''.pack'') ''invalid root coordinate''))"

text \<open>The checks in the order of the code; a composition runs its last function first.\<close>

definition validate_request_and_registry ::
  "('v, 'r) pack_env \<Rightarrow> digest_env \<Rightarrow> DomainPackResolutionRequestDocument \<Rightarrow> DomainPackSupplyChainRegistryDocument \<Rightarrow>
     DomainPackResolutionIssue list \<Rightarrow> DomainPackResolutionIssue list" where
  "validate_request_and_registry env dg request registry =
     (let input = domain_pack_resolution_request request; rv = domain_pack_supply_chain_registry registry;
          check_id = (\<lambda>(path, v). report (\<not> valid_id v) InvalidIdentity path ''invalid stable id'');
          check_digest = (\<lambda>(path, v). report (\<not> valid_digest v) InvalidDigest path ''invalid sha256 digest'')
      in validate_current_lock dg input \<circ>
         fold (validate_root env) (enumerate 0 (rq_roots input)) \<circ>
         (if length (rq_candidates input) > MAX_DOMAIN_PACK_RESOLUTION_CANDIDATES
          then resource_issue ''candidates'' ''candidate count exceeds 512'' else id) \<circ>
         (if length (rq_roots input) > MAX_DOMAIN_PACK_RESOLUTION_ROOTS
          then resource_issue ''roots'' ''root count exceeds 64'' else id) \<circ>
         report (validate_remote_acquisition_metadata registry \<noteq> None) RegistryRecordMismatch
           ''registry.remote_acquisition_metadata'' ''registry remote artifact metadata is structurally invalid'' \<circ>
         report (issued_at_unix rv > expires_at_unix rv) RegistryExpired
           ''registry.expires_at_unix'' ''registry validity interval is inverted'' \<circ>
         report (rq_registry_snapshot_digest input \<noteq> snapshot_digest rv) RegistryDigestMismatch
           ''registry_snapshot_digest'' ''request does not bind the supplied registry snapshot'' \<circ>
         fold check_digest
           [(''registry_snapshot_digest'', rq_registry_snapshot_digest input),
            (''registry.snapshot_digest'', snapshot_digest rv),
            (''core.bundle_digest'', core_bundle_digest (rq_core input)),
            (''core.policy_set_digest'', core_policy_set_digest (rq_core input))] \<circ>
         report (parse_version env (rq_forge_core_version input) = None) InvalidVersionRequirement
           ''forge_core_version'' ''forge core version must be strict semantic version'' \<circ>
         report (prd_schema_version (rq_requirements input) \<noteq> DOMAIN_PACK_SCHEMA_VERSION) UnsupportedSchemaVersion
           ''requirements.schema_version'' ''P6a requirements must use schema 0.1'' \<circ>
         report (rq_project_id input \<noteq> pr_project_id (domain_pack_project_requirements (rq_requirements input))) InvalidIdentity
           ''requirements.project_id'' ''requirements project differs from resolution project'' \<circ>
         fold check_id
           [(''request_id'', rq_request_id input), (''project_id'', rq_project_id input),
            (''registry.registry_id'', registry_id rv), (''registry.audience'', audience rv)] \<circ>
         report (rgd_schema_version registry \<noteq> DOMAIN_PACK_LIFECYCLE_SCHEMA_VERSION) UnsupportedSchemaVersion
           ''registry.schema_version''
           (''expected '' @ DOMAIN_PACK_LIFECYCLE_SCHEMA_VERSION @ '', found '' @ rgd_schema_version registry) \<circ>
         report (rqd_schema_version request \<noteq> DOMAIN_PACK_LIFECYCLE_SCHEMA_VERSION) UnsupportedSchemaVersion
           ''schema_version''
           (''expected '' @ DOMAIN_PACK_LIFECYCLE_SCHEMA_VERSION @ '', found '' @ rqd_schema_version request))"

section \<open>Admission of the candidates\<close>

definition add_reason ::
  "bool \<Rightarrow> DomainPackResolutionIssueCode \<Rightarrow> DomainPackResolutionIssueCode list \<Rightarrow> DomainPackResolutionIssueCode list" where
  "add_reason bad code reasons = (if bad then insort_insert code reasons else reasons)"

definition binding_digests_valid :: "DomainPackArtifactBinding \<Rightarrow> bool" where
  "binding_digests_valid b \<longleftrightarrow> valid_digest (raw_sha256 b) \<and> valid_digest (canonical_sha256 b)"

text \<open>
  The pack schema version is a constant that the code parses and expects to be valid; \<open>the\<close> is that
  expectation.
\<close>

definition validate_candidate_shape ::
  "('v, 'r) pack_env \<Rightarrow> DomainPackResolutionCandidate \<Rightarrow> string \<Rightarrow>
     DomainPackResolutionIssueCode list \<Rightarrow> DomainPackResolutionIssueCode list" where
  "validate_candidate_shape env c forge_core_version reasons =
     (let manifest_doc = in_manifest (cand_input c); content_doc = in_content (cand_input c);
          manifest = domain_pack_manifest manifest_doc; identity = mf_identity manifest;
          pack = ct_pack (domain_pack_content content_doc); package = cand_package c;
          reasons = add_reason (mfd_schema_version manifest_doc \<noteq> DOMAIN_PACK_SCHEMA_VERSION \<or>
              ctd_schema_version content_doc \<noteq> DOMAIN_PACK_SCHEMA_VERSION) UnsupportedSchemaVersion reasons;
          reasons = add_reason (\<not> valid_identity identity \<or> vr_publisher pack \<noteq> pid_publisher identity \<or>
              vr_name pack \<noteq> pid_name identity \<or> vr_version pack \<noteq> pid_version identity) InvalidIdentity reasons
      in case parse_version env (pid_version identity) of
           None \<Rightarrow> add_reason True InvalidVersionRequirement reasons
         | Some version \<Rightarrow>
             (let pack_schema = the (parse_version env (DOMAIN_PACK_SCHEMA_VERSION @ ''.0''));
                  forge_core = parse_version env forge_core_version;
                  pack_requirement = parse_req env (pack_schema_requirement (mf_compatibility manifest));
                  core_requirement = parse_req env (forge_core_requirement (mf_compatibility manifest));
                  reasons = add_reason (version_text env version \<noteq> pid_version identity) InvalidVersionRequirement reasons;
                  reasons = add_reason (pack_requirement = None \<or> core_requirement = None \<or>
                      list_ex (\<lambda>d. parse_req env (dep_version_requirement d) = None) (mf_dependencies manifest) \<or>
                      list_ex (\<lambda>k. parse_req env (pc_version_requirement k) = None) (mf_conflicts manifest))
                    InvalidVersionRequirement reasons;
                  reasons = add_reason
                    ((case pack_requirement of None \<Rightarrow> False | Some r \<Rightarrow> \<not> req_matches env r pack_schema) \<or>
                     (case core_requirement of None \<Rightarrow> False
                      | Some r \<Rightarrow> (case forge_core of None \<Rightarrow> True | Some v \<Rightarrow> \<not> req_matches env r v)))
                    IncompatibleDependency reasons;
                  reasons = add_reason (length (mf_dependencies manifest) > MAX_DOMAIN_PACK_RESOLUTION_DEPENDENCIES_PER_PACK)
                    ResourceLimitExceeded reasons;
                  reasons = add_reason
                    (\<not> list_all binding_digests_valid [in_manifest_binding (cand_input c), pb_manifest package, pb_license package] \<or>
                     \<not> valid_digest (pb_package_digest package) \<or> \<not> valid_digest (cb_raw_sha256 (pb_content package)) \<or>
                     \<not> valid_digest (cb_canonical_sha256 (pb_content package)) \<or>
                     \<not> list_all binding_digests_valid (pb_fixtures package)) InvalidDigest reasons
              in add_reason
                   (pb_manifest package \<noteq> in_manifest_binding (cand_input c) \<or> pb_content package \<noteq> mf_content manifest \<or>
                    pb_license package \<noteq> license_text (mf_provenance manifest)) RegistryRecordMismatch reasons))"

definition record_matches_candidate :: "DomainPackRegistryPackageRecord \<Rightarrow> DomainPackResolutionCandidate \<Rightarrow> bool" where
  "record_matches_candidate r c \<longleftrightarrow>
     (let package = cand_package c; artifacts = rr_artifacts r in
      rr_identity r = candidate_identity c \<and> rr_package_digest r = pb_package_digest package \<and>
      rr_manifest_digest r = raw_sha256 (pb_manifest package) \<and> rr_content_digest r = cb_raw_sha256 (pb_content package) \<and>
      rr_license_digest r = raw_sha256 (pb_license package) \<and>
      sort (rr_fixture_digests r) = sort (map raw_sha256 (pb_fixtures package)) \<and>
      rd_binding (as_manifest artifacts) = pb_manifest package \<and>
      artifact_ref (rd_binding (as_content artifacts)) = content_ref (pb_content package) \<and>
      raw_sha256 (rd_binding (as_content artifacts)) = cb_raw_sha256 (pb_content package) \<and>
      canonical_sha256 (rd_binding (as_content artifacts)) = cb_canonical_sha256 (pb_content package) \<and>
      rd_binding (as_license artifacts) = pb_license package \<and>
      length (as_fixtures artifacts) = length (pb_fixtures package) \<and>
      list_all (\<lambda>(descriptor, binding). rd_binding descriptor = binding) (zip (as_fixtures artifacts) (pb_fixtures package)) \<and>
      valid_digest (rr_record_digest r) \<and> valid_digest (rr_package_digest r) \<and> valid_digest (rr_manifest_digest r) \<and>
      valid_digest (rr_content_digest r) \<and> valid_digest (rr_license_digest r) \<and> list_all valid_digest (rr_fixture_digests r))"

definition identity_key :: "DomainPackIdentity \<Rightarrow> string" where
  "identity_key i = pid_publisher i @ ''::'' @ pid_name i @ ''::'' @ pid_version i"

definition record_equivocation_key :: "DomainPackRegistryPackageRecord \<Rightarrow> string" where
  "record_equivocation_key r =
     rr_package_digest r @ ''|'' @ rr_manifest_digest r @ ''|'' @ rr_content_digest r @ ''|'' @ rr_license_digest r @ ''|'' @
     rr_record_digest r"

definition candidate_equivocation_key :: "DomainPackResolutionCandidate \<Rightarrow> string" where
  "candidate_equivocation_key c =
     pb_package_digest (cand_package c) @ ''|'' @ raw_sha256 (pb_manifest (cand_package c)) @ ''|'' @
     cb_raw_sha256 (pb_content (cand_package c)) @ ''|'' @ raw_sha256 (pb_license (cand_package c)) @ ''|'' @
     (case cand_registry_record_digest c of Some d \<Rightarrow> d | None \<Rightarrow> [])"

text \<open>\<open>str::split_once("::")\<close>, of which \<open>splitn\<close> takes the first parts.\<close>

fun split_once_colons :: "string \<Rightarrow> (string \<times> string) option" where
  "split_once_colons [] = None"
| "split_once_colons (c # cs) =
     (if starts_with (c # cs) ''::'' then Some ([], drop 2 (c # cs))
      else map_option (\<lambda>(a, b). (c # a, b)) (split_once_colons cs))"

definition identity_coordinate :: "string \<Rightarrow> string option" where
  "identity_coordinate identity =
     (case split_once_colons identity of
        None \<Rightarrow> None
      | Some (publisher, rest) \<Rightarrow>
          Some (publisher @ ''::'' @ (case split_once_colons rest of Some (name, _) \<Rightarrow> name | None \<Rightarrow> rest)))"

definition add_variant :: "string \<Rightarrow> string \<Rightarrow> string list btree_map \<Rightarrow> string list btree_map" where
  "add_variant identity variant m =
     bt_insert identity (bs_insert variant (case bt_get m identity of Some vs \<Rightarrow> vs | None \<Rightarrow> [])) m"

definition equivocated_coordinates ::
  "DomainPackSupplyChainRegistryDocument \<Rightarrow> DomainPackResolutionRequest \<Rightarrow> string list" where
  "equivocated_coordinates registry input =
     (let by_exact = fold (\<lambda>r. add_variant (identity_key (rr_identity r)) (record_equivocation_key r))
            (packages (domain_pack_supply_chain_registry registry)) [];
          by_exact = fold (\<lambda>c. add_variant (identity_key (candidate_identity c)) (candidate_equivocation_key c))
            (rq_candidates input) by_exact
      in bs_of (List.map_filter (\<lambda>(identity, variants). if length variants > 1 then identity_coordinate identity else None) by_exact))"

definition namespace_is_granted :: "string \<Rightarrow> string \<Rightarrow> bool" where
  "namespace_is_granted namespace prefix \<longleftrightarrow>
     valid_id namespace \<and> valid_id prefix \<and>
     (namespace = prefix \<or> starts_with namespace prefix \<and> starts_with (drop (length prefix) namespace) ''.'')"

text \<open>\<open>collect::<BTreeMap<_, _>>()\<close>: of two values with the same key the last one stays.\<close>

definition bt_collect :: "('a \<Rightarrow> string) \<Rightarrow> 'a list \<Rightarrow> 'a btree_map" where
  "bt_collect key xs = fold (\<lambda>x. bt_insert (key x) x) xs []"

definition grant_covers :: "DomainPackSupplyChainRegistry \<Rightarrow> DomainPackIdentity \<Rightarrow> DomainPackNamespaceGrant \<Rightarrow> bool" where
  "grant_covers rv i g \<longleftrightarrow>
     gr_publisher g = pid_publisher i \<and> namespace_is_granted (pid_namespace i) (gr_namespace_prefix g) \<and>
     gr_valid_from_unix g \<le> issued_at_unix rv \<and> issued_at_unix rv \<le> gr_valid_until_unix g"

definition credential_covers :: "DomainPackSupplyChainRegistry \<Rightarrow> DomainPackIdentity \<Rightarrow> DomainPackPublisherCredential \<Rightarrow> bool" where
  "credential_covers rv i k \<longleftrightarrow>
     cr_publisher k = pid_publisher i \<and> cr_status k = CredentialActive \<and>
     cr_valid_from_unix k \<le> issued_at_unix rv \<and> issued_at_unix rv \<le> cr_valid_until_unix k"

text \<open>One pass of the admission loop: the reasons against a candidate, and the candidate if it is admitted.\<close>

definition admit_candidate ::
  "('v, 'r) pack_env \<Rightarrow> DomainPackSupplyChainRegistry \<Rightarrow> string list \<Rightarrow> string \<Rightarrow> nat \<times> DomainPackResolutionCandidate \<Rightarrow>
     DomainPackResolutionIssueCode list \<times> 'v Admitted option" where
  "admit_candidate env rv equivocated forge_core_version p =
     (case p of (index, c) \<Rightarrow>
      (let identity = candidate_identity c;
           reasons = validate_candidate_shape env c forge_core_version [];
           reasons = add_reason (coordinate_key_parts (pid_publisher identity) (pid_name identity) \<in> set equivocated)
             DuplicateVersionEquivocation reasons
       in case cand_registry_record_digest c of
            None \<Rightarrow> (add_reason True RegistryRecordMissing reasons, None)
          | Some record_digest \<Rightarrow>
              (case bt_get (bt_collect rr_record_digest (packages rv)) record_digest of
                 None \<Rightarrow> (add_reason True RegistryRecordMissing reasons, None)
               | Some r \<Rightarrow>
                   (let reasons = add_reason (record_digest \<in> rv_record_digest ` set (revocations rv)) RevokedPackage reasons;
                        reasons = add_reason (\<not> record_matches_candidate r c) RegistryRecordMismatch reasons;
                        reasons = add_reason
                          (case bt_get (bt_collect gr_grant_id (namespace_grants rv)) (rr_namespace_grant_id r) of
                             Some g \<Rightarrow> \<not> grant_covers rv identity g | None \<Rightarrow> True) NamespaceNotGranted reasons;
                        reasons = add_reason
                          (case bt_get (bt_collect cr_credential_id (publisher_credentials rv)) (rr_publisher_credential_id r) of
                             Some k \<Rightarrow> \<not> credential_covers rv identity k | None \<Rightarrow> True) RegistryRecordMismatch reasons
                    in (reasons,
                        if reasons = []
                        then map_option (\<lambda>version.
                          \<lparr> ad_candidate_index = index, ad_candidate = c, ad_record = r, ad_version = version \<rparr>)
                          (parse_version env (pid_version identity))
                        else None)))))"

definition admissions ::
  "('v, 'r) pack_env \<Rightarrow> DomainPackResolutionRequest \<Rightarrow> DomainPackSupplyChainRegistryDocument \<Rightarrow>
     (DomainPackResolutionIssueCode list \<times> 'v Admitted option) list" where
  "admissions env input registry =
     map (admit_candidate env (domain_pack_supply_chain_registry registry) (equivocated_coordinates registry input)
           (rq_forge_core_version input))
       (enumerate 0 (take MAX_DOMAIN_PACK_RESOLUTION_CANDIDATES (rq_candidates input)))"

definition admitted_key :: "'v Admitted \<Rightarrow> string" where
  "admitted_key a =
     coordinate_key_parts (pid_publisher (candidate_identity (ad_candidate a))) (pid_name (candidate_identity (ad_candidate a)))"

definition admitted_by_coordinate ::
  "('v, 'r) pack_env \<Rightarrow> DomainPackResolutionRequest \<Rightarrow> DomainPackSupplyChainRegistryDocument \<Rightarrow> 'v Admitted list btree_map" where
  "admitted_by_coordinate env input registry =
     fold (\<lambda>a. bt_push (admitted_key a) a) (List.map_filter snd (admissions env input registry)) []"

text \<open>The order of versions of a coordinate, and the cut at 64 of them.\<close>

definition sort_versions :: "('v :: linorder, 'r) pack_env \<Rightarrow> 'v Admitted list \<Rightarrow> 'v Admitted list" where
  "sort_versions env =
     sort_by (\<lambda>l r.
       ad_version r < ad_version l \<or>
       ad_version r = ad_version l \<and> candidate_order_key env (ad_candidate l) \<le> candidate_order_key env (ad_candidate r))"

definition cut_versions ::
  "('v :: linorder, 'r) pack_env \<Rightarrow> 'v Admitted list btree_map \<Rightarrow> 'v Admitted list btree_map" where
  "cut_versions env = bt_map (\<lambda>as. take MAX_DOMAIN_PACK_RESOLUTION_VERSIONS_PER_COORDINATE (sort_versions env as))"

definition cut_issues :: "'v Admitted list btree_map \<Rightarrow> DomainPackResolutionIssue list \<Rightarrow> DomainPackResolutionIssue list" where
  "cut_issues admitted =
     fold (\<lambda>(coordinate, as).
       if length as > MAX_DOMAIN_PACK_RESOLUTION_VERSIONS_PER_COORDINATE
       then resource_issue (''candidates.'' @ coordinate) ''version count exceeds 64 for one coordinate'' else id) admitted"

definition cut_rejections ::
  "('v :: linorder, 'r) pack_env \<Rightarrow> 'v Admitted list btree_map \<Rightarrow>
     DomainPackResolutionIssueCode list list \<Rightarrow> DomainPackResolutionIssueCode list list" where
  "cut_rejections env admitted =
     fold (\<lambda>a codes. codes[ad_candidate_index a := insort_insert ResourceLimitExceeded (codes ! ad_candidate_index a)])
       (concat (map (\<lambda>(_, as). drop MAX_DOMAIN_PACK_RESOLUTION_VERSIONS_PER_COORDINATE (sort_versions env as)) admitted))"

section \<open>The resolution\<close>

definition build_rejections ::
  "DomainPackResolutionRequest \<Rightarrow> DomainPackResolutionIssueCode list list \<Rightarrow> DomainPackRejectedCandidate list" where
  "build_rejections input codes =
     map (\<lambda>(c, reasons).
         \<lparr> rj_identity = candidate_identity c, rj_package_digest = pb_package_digest (cand_package c), rj_reasons = reasons \<rparr>)
       (filter (\<lambda>(c, reasons). reasons \<noteq> []) (zip (rq_candidates input) codes))"

definition sort_rejections :: "DomainPackRejectedCandidate list \<Rightarrow> DomainPackRejectedCandidate list" where
  "sort_rejections =
     sort_by (\<lambda>l r.
       identity_key (rj_identity l) < identity_key (rj_identity r) \<or>
       identity_key (rj_identity l) = identity_key (rj_identity r) \<and> rj_package_digest l \<le> rj_package_digest r)"

definition compatible_lock_preferences :: "DomainPackExactLockDocument option \<Rightarrow> string btree_map" where
  "compatible_lock_preferences lock =
     (case lock of
        None \<Rightarrow> []
      | Some lock \<Rightarrow>
          fold (\<lambda>p. bt_insert (coordinate_key_parts (pid_publisher (lp_identity p)) (pid_name (lp_identity p))) (pid_version (lp_identity p)))
            (pl_packages (lk_payload (domain_pack_exact_lock lock))) [])"

definition root_constraints :: "('v, 'r) pack_env \<Rightarrow> DomainPackResolutionRoot list \<Rightarrow> 'r constraints" where
  "root_constraints env roots =
     fold (\<lambda>root constraints.
       case parse_req env (root_version_requirement root) of
         None \<Rightarrow> constraints
       | Some r \<Rightarrow>
           bt_push (coordinate_key (root_pack root))
             \<lparr> cn_requirement = r, cn_required_content_digest = root_required_content_digest root \<rparr> constraints) roots []"

definition search_context ::
  "('v :: linorder, 'r) pack_env \<Rightarrow> DomainPackResolutionRequest \<Rightarrow> 'v Admitted list btree_map \<Rightarrow> 'v SearchContext" where
  "search_context env input candidates =
     \<lparr> sc_candidates = candidates,
       sc_locked = compatible_lock_preferences (rq_current_lock input),
       sc_upgrade_targets = bs_of (map (coordinate_key \<circ> root_pack) (filter (\<lambda>r. root_reason r = UpgradeIntent) (rq_roots input))),
       sc_root_coordinates = bs_of (map (coordinate_key \<circ> root_pack) (rq_roots input)) \<rparr>"

record DomainPackResolutionProjection =
  pj_request_id :: string
  pj_status :: DomainPackResolutionStatus
  pj_selected :: "DomainPackResolvedPackage list"
  pj_dependency_edges :: "DomainPackResolutionDependencyEdge list"
  pj_rejected :: "DomainPackRejectedCandidate list"
  pj_issues :: "DomainPackResolutionIssue list"
  pj_resolution_digest :: string

record DomainPackResolutionProjectionDocument =
  pjd_schema_version :: string
  domain_pack_resolution_projection :: DomainPackResolutionProjection

text \<open>The normal form of a request that its digest is taken of.\<close>

fun root_reason_text :: "DomainPackResolutionRootReason \<Rightarrow> string" where
  "root_reason_text ExistingProjectRoot = ''ExistingProjectRoot''"
| "root_reason_text InstallIntent = ''InstallIntent''"
| "root_reason_text UpgradeIntent = ''UpgradeIntent''"
| "root_reason_text PersistentDomainRequirement = ''PersistentDomainRequirement''"
| "root_reason_text RollbackIntent = ''RollbackIntent''"

definition root_le :: "DomainPackResolutionRoot \<Rightarrow> DomainPackResolutionRoot \<Rightarrow> bool" where
  "root_le l r \<longleftrightarrow>
     coordinate_key (root_pack l) < coordinate_key (root_pack r) \<or>
     coordinate_key (root_pack l) = coordinate_key (root_pack r) \<and>
       (root_version_requirement l < root_version_requirement r \<or>
        root_version_requirement l = root_version_requirement r \<and>
          (root_required_content_digest l = root_required_content_digest r \<and>
             root_reason_text (root_reason l) \<le> root_reason_text (root_reason r) \<or>
           root_required_content_digest l \<noteq> root_required_content_digest r \<and>
             option_le (root_required_content_digest l) (root_required_content_digest r)))"

definition locked_root_le :: "DomainPackResolutionRoot \<Rightarrow> DomainPackResolutionRoot \<Rightarrow> bool" where
  "locked_root_le l r \<longleftrightarrow>
     coordinate_key (root_pack l) < coordinate_key (root_pack r) \<or>
     coordinate_key (root_pack l) = coordinate_key (root_pack r) \<and> root_version_requirement l \<le> root_version_requirement r"

definition normalized_payload :: "digest_env \<Rightarrow> DomainPackExactLockPayload \<Rightarrow> DomainPackExactLockPayload" where
  "normalized_payload dg payload =
     payload
       \<lparr> pl_roots := sort_by locked_root_le (pl_roots payload),
         pl_packages := sort_by (\<lambda>l r. identity_key (lp_identity l) \<le> identity_key (lp_identity r)) (pl_packages payload),
         pl_verified_capability_bindings :=
           sort_by (\<lambda>l r. lcb_binding_id l \<le> lcb_binding_id r) (pl_verified_capability_bindings payload),
         pl_unresolved_capability_gaps :=
           sort_by (\<lambda>l r.
               (case gap_digest dg l of Some d \<Rightarrow> d | None \<Rightarrow> []) \<le> (case gap_digest dg r of Some d \<Rightarrow> d | None \<Rightarrow> []))
             (pl_unresolved_capability_gaps payload) \<rparr>"

definition normalized_requirements :: "DomainPackProjectRequirements \<Rightarrow> DomainPackProjectRequirements" where
  "normalized_requirements req =
     req\<lparr> pr_required_domains :=
       map (\<lambda>d. d\<lparr> dr_required_capability_refs := sort (dr_required_capability_refs d) \<rparr>)
         (sort_by (\<lambda>l r. dr_id l \<le> dr_id r) (pr_required_domains req)) \<rparr>"

definition normalized_request ::
  "('v, 'r) pack_env \<Rightarrow> digest_env \<Rightarrow> DomainPackResolutionRequestDocument \<Rightarrow> DomainPackResolutionRequestDocument" where
  "normalized_request env dg request =
     (let input = domain_pack_resolution_request request in
      request\<lparr> domain_pack_resolution_request :=
        input
          \<lparr> rq_roots := sort_by root_le (rq_roots input),
            rq_candidates := sort_by (\<lambda>l r. candidate_order_key env l \<le> candidate_order_key env r) (rq_candidates input),
            rq_requirements := (rq_requirements input)
              \<lparr> domain_pack_project_requirements := normalized_requirements (domain_pack_project_requirements (rq_requirements input)) \<rparr>,
            rq_current_lock := map_option (\<lambda>lock.
                lock\<lparr> domain_pack_exact_lock := (domain_pack_exact_lock lock)
                  \<lparr> lk_payload := normalized_payload dg (lk_payload (domain_pack_exact_lock lock)) \<rparr> \<rparr>) (rq_current_lock input) \<rparr> \<rparr>)"

definition resolution_digest ::
  "('v, 'r) pack_env \<Rightarrow> digest_env \<Rightarrow> DomainPackResolutionRequestDocument \<Rightarrow> string \<Rightarrow> DomainPackResolutionStatus \<Rightarrow>
     DomainPackResolvedPackage list \<Rightarrow> DomainPackResolutionDependencyEdge list \<Rightarrow> DomainPackRejectedCandidate list \<Rightarrow>
     DomainPackResolutionIssue list \<Rightarrow> string" where
  "resolution_digest env dg request snapshot status selected edges rejected issues =
     (case subject_digest dg (normalized_request env dg request) snapshot status selected edges rejected issues of
        Some d \<Rightarrow> d
      | None \<Rightarrow> encoding_failed_digest dg)"

definition domain_pack_resolution_projection_digest ::
  "('v, 'r) pack_env \<Rightarrow> digest_env \<Rightarrow> DomainPackResolutionRequestDocument \<Rightarrow> string \<Rightarrow> DomainPackResolutionProjection \<Rightarrow> string" where
  "domain_pack_resolution_projection_digest env dg request snapshot p =
     resolution_digest env dg request snapshot (pj_status p) (pj_selected p) (pj_dependency_edges p) (pj_rejected p) (pj_issues p)"

text \<open>The issues before the search, the selection with its edges, and the whole resolution.\<close>

definition admission_issues ::
  "('v, 'r) pack_env \<Rightarrow> digest_env \<Rightarrow> DomainPackResolutionRequestDocument \<Rightarrow> DomainPackSupplyChainRegistryDocument \<Rightarrow>
     DomainPackResolutionIssue list" where
  "admission_issues env dg request registry =
     cut_issues (admitted_by_coordinate env (domain_pack_resolution_request request) registry)
       (validate_request_and_registry env dg request registry [])"

definition resolution_candidates ::
  "('v :: linorder, 'r) pack_env \<Rightarrow> DomainPackResolutionRequest \<Rightarrow> DomainPackSupplyChainRegistryDocument \<Rightarrow> 'v Admitted list btree_map" where
  "resolution_candidates env input registry = cut_versions env (admitted_by_coordinate env input registry)"

definition root_search ::
  "('v :: linorder, 'r) pack_env \<Rightarrow> DomainPackResolutionRequest \<Rightarrow> DomainPackSupplyChainRegistryDocument \<Rightarrow>
     SearchFailure + 'v selection" where
  "root_search env input registry =
     snd (search env (search_context env input (resolution_candidates env input registry)) 0
       (root_constraints env (rq_roots input)) [])"

definition select_packs ::
  "('v :: linorder, 'r) pack_env \<Rightarrow> DomainPackResolutionRequest \<Rightarrow> DomainPackSupplyChainRegistryDocument \<Rightarrow>
     DomainPackResolutionIssue list \<Rightarrow>
     'v selection \<times> DomainPackResolutionDependencyEdge list \<times> DomainPackResolutionIssue list" where
  "select_packs env input registry issues =
     (if issues \<noteq> [] then ([], [], issues)
      else
        (case root_search env input registry of
           Inl failure \<Rightarrow> ([], [], push_failure failure issues)
         | Inr solution \<Rightarrow>
             (case topological_edges_and_order solution of
                Inl failure \<Rightarrow> (solution, [], push_failure failure issues)
              | Inr (edges, _) \<Rightarrow> (solution, edges, issues))))"

definition resolve_domain_packs ::
  "('v :: linorder, 'r) pack_env \<Rightarrow> digest_env \<Rightarrow> DomainPackResolutionRequestDocument \<Rightarrow>
     DomainPackSupplyChainRegistryDocument \<Rightarrow> DomainPackResolutionProjectionDocument" where
  "resolve_domain_packs env dg request registry =
     (let input = domain_pack_resolution_request request;
          admitted = admitted_by_coordinate env input registry;
          codes = cut_rejections env admitted (map fst (admissions env input registry));
          (selected, edges, issues) = select_packs env input registry (admission_issues env dg request registry);
          rejected = sort_rejections (build_rejections input codes);
          issues = finish_issues issues;
          status = (if issues = [] then PackResolved else PackBlocked);
          edges = (if issues = [] then edges else []);
          selected_output = (if status = PackResolved then build_selected selected else [])
      in \<lparr> pjd_schema_version = DOMAIN_PACK_LIFECYCLE_SCHEMA_VERSION,
           domain_pack_resolution_projection =
             \<lparr> pj_request_id = rq_request_id input, pj_status = status, pj_selected = selected_output, pj_dependency_edges = edges,
               pj_rejected = rejected, pj_issues = issues,
               pj_resolution_digest =
                 resolution_digest env dg request (snapshot_digest (domain_pack_supply_chain_registry registry)) status
                   selected_output edges rejected issues \<rparr> \<rparr>)"

section \<open>What an admitted candidate has in the registry\<close>

lemma add_reason_Nil [simp]: "add_reason bad code reasons = [] \<longleftrightarrow> \<not> bad \<and> reasons = []"
  by (auto simp: add_reason_def insort_insert_key_def)

lemma bt_collect_SomeD: "bt_get (bt_collect key xs) k = Some x \<Longrightarrow> x \<in> set xs \<and> key x = k"
  unfolding bt_collect_def bt.get_fold_ins by (auto dest: find_SomeD split: option.splits)

text \<open>
  The requirements on an admitted pack: the registry holds its record, unrevoked and agreeing with the
  package, its namespace is granted and its publisher's credential active at the time of the snapshot, its
  version is not equivocated, and everything the search parses is well formed.
\<close>

definition registered ::
  "('v, 'r) pack_env \<Rightarrow> DomainPackResolutionRequest \<Rightarrow> DomainPackSupplyChainRegistryDocument \<Rightarrow> 'v Admitted \<Rightarrow> bool" where
  "registered env input registry a \<longleftrightarrow>
     (let rv = domain_pack_supply_chain_registry registry; c = ad_candidate a; r = ad_record a; i = candidate_identity c in
      c \<in> set (rq_candidates input) \<and> r \<in> set (packages rv) \<and>
      cand_registry_record_digest c = Some (rr_record_digest r) \<and> rr_record_digest r \<notin> rv_record_digest ` set (revocations rv) \<and>
      record_matches_candidate r c \<and>
      (\<exists>g \<in> set (namespace_grants rv). gr_grant_id g = rr_namespace_grant_id r \<and> grant_covers rv i g) \<and>
      (\<exists>k \<in> set (publisher_credentials rv). cr_credential_id k = rr_publisher_credential_id r \<and> credential_covers rv i k) \<and>
      admitted_key a \<notin> set (equivocated_coordinates registry input) \<and>
      validate_candidate_shape env c (rq_forge_core_version input) [] = [] \<and>
      parse_version env (pid_version i) = Some (ad_version a))"

lemma admit_candidate_registered:
  assumes "snd (admit_candidate env (domain_pack_supply_chain_registry registry) (equivocated_coordinates registry input)
      (rq_forge_core_version input) (index, c)) = Some a" "c \<in> set (rq_candidates input)"
  shows "registered env input registry a"
proof -
  let ?rv = "domain_pack_supply_chain_registry registry"
  let ?grant = "\<lambda>r. bt_get (bt_collect gr_grant_id (namespace_grants ?rv)) (rr_namespace_grant_id r)"
  let ?cred = "\<lambda>r. bt_get (bt_collect cr_credential_id (publisher_credentials ?rv)) (rr_publisher_credential_id r)"
  obtain d where d: "cand_registry_record_digest c = Some d"
    using assms(1) by (auto simp: admit_candidate_def Let_def split: option.splits)
  obtain r where r: "bt_get (bt_collect rr_record_digest (packages ?rv)) d = Some r"
    using assms(1) d by (auto simp: admit_candidate_def Let_def split: option.splits)
  have a: "validate_candidate_shape env c (rq_forge_core_version input) [] = []"
    "coordinate_key_parts (pid_publisher (candidate_identity c)) (pid_name (candidate_identity c)) \<notin> set (equivocated_coordinates registry input)"
    "d \<notin> rv_record_digest ` set (revocations ?rv)" "record_matches_candidate r c"
    "case ?grant r of Some g \<Rightarrow> grant_covers ?rv (candidate_identity c) g | None \<Rightarrow> False"
    "case ?cred r of Some k \<Rightarrow> credential_covers ?rv (candidate_identity c) k | None \<Rightarrow> False"
    "ad_candidate a = c" "ad_record a = r" "parse_version env (pid_version (candidate_identity c)) = Some (ad_version a)"
    using assms(1) d r by (auto simp: admit_candidate_def Let_def split: if_splits option.splits)
  have "r \<in> set (packages ?rv)" "rr_record_digest r = d" using bt_collect_SomeD [OF r] by auto
  moreover have "\<exists>g \<in> set (namespace_grants ?rv). gr_grant_id g = rr_namespace_grant_id r \<and> grant_covers ?rv (candidate_identity c) g"
    using a(5) by (auto split: option.splits dest!: bt_collect_SomeD)
  moreover have "\<exists>k \<in> set (publisher_credentials ?rv). cr_credential_id k = rr_publisher_credential_id r \<and>
      credential_covers ?rv (candidate_identity c) k"
    using a(6) by (auto split: option.splits dest!: bt_collect_SomeD)
  ultimately show ?thesis using a d assms(2) by (simp add: registered_def admitted_key_def)
qed

lemma fold_bt_push:
  "bt_get (fold (\<lambda>a. bt_push (key a) a) as m) k = Some xs \<Longrightarrow> a \<in> set xs \<Longrightarrow>
     (\<exists>ys. bt_get m k = Some ys \<and> a \<in> set ys) \<or> a \<in> set as \<and> key a = k"
proof (induction as arbitrary: m)
  case (Cons b as)
  from Cons.IH [of "bt_push (key b) b m"] Cons.prems
  consider ys where "bt_get (bt_push (key b) b m) k = Some ys" "a \<in> set ys" | "a \<in> set as" "key a = k" by auto
  then show ?case
  proof cases
    case 1
    then show ?thesis unfolding bt_get_push by (cases "k = key b"; cases "bt_get m k") auto
  qed simp
qed simp

lemma candidates_registered:
  assumes "bt_get (resolution_candidates env input registry) k = Some universe" "a \<in> set universe"
  shows "registered env input registry a" "admitted_key a = k"
proof -
  let ?as = "List.map_filter snd (admissions env input registry)"
  obtain xs where "bt_get (admitted_by_coordinate env input registry) k = Some xs" "a \<in> set xs"
    using assms unfolding resolution_candidates_def cut_versions_def bt_get_map sort_versions_def
    by (auto dest: in_set_takeD)
  from fold_bt_push [OF this [unfolded admitted_by_coordinate_def]]
  have a: "a \<in> set ?as" "admitted_key a = k" by auto
  then show "admitted_key a = k" by simp
  obtain index c where p: "(index, c) \<in> set (enumerate 0 (take MAX_DOMAIN_PACK_RESOLUTION_CANDIDATES (rq_candidates input)))"
    "snd (admit_candidate env (domain_pack_supply_chain_registry registry) (equivocated_coordinates registry input)
      (rq_forge_core_version input) (index, c)) = Some a"
    using a(1) unfolding admissions_def by (auto simp: List.map_filter_def)
  from p(1) have "c \<in> set (map snd (enumerate 0 (take MAX_DOMAIN_PACK_RESOLUTION_CANDIDATES (rq_candidates input))))"
    unfolding set_map by (rule rev_image_eqI) simp
  then have "c \<in> set (rq_candidates input)" by (auto dest: in_set_takeD)
  then show "registered env input registry a" by (rule admit_candidate_registered [OF p(2)])
qed

section \<open>What a projection says\<close>

lemma finish_issues_Nil [simp]: "finish_issues issues = [] \<longleftrightarrow> issues = []"
proof -
  have "sort_by le issues = [] \<longleftrightarrow> issues = []" for le :: "DomainPackResolutionIssue \<Rightarrow> DomainPackResolutionIssue \<Rightarrow> bool"
    by (metis length_0_conv length_sort_by)
  then show ?thesis by (simp add: finish_issues_def MAX_DOMAIN_PACK_RESOLUTION_DIAGNOSTICS_def)
qed

lemma push_failure_not_Nil [simp]: "push_failure f [] \<noteq> []"
  by (simp add: push_failure_def issue_def MAX_DOMAIN_PACK_RESOLUTION_DIAGNOSTICS_def)

lemma resolution_closed: "resolution env candidates constraints (bt_get selected) \<Longrightarrow> closed_selection selected"
  unfolding closed_selection_def resolution_def dependency_met_def pack_edges_def by (clarsimp, metis)

lemma build_selected_order:
  assumes "topological_edges_and_order selected = Inr (edges, order)" "set order \<subseteq> dom (bt_get selected)"
  shows "build_selected selected = map (\<lambda>(position, k). resolved_package (position, the (bt_get selected k))) (enumerate 0 order)"
proof -
  have "List.map_filter (\<lambda>(position, key). map_option (\<lambda>a. (position, a)) (bt_get selected key)) (enumerate n xs) =
      map (\<lambda>(position, k). (position, the (bt_get selected k))) (enumerate n xs)" if "set xs \<subseteq> dom (bt_get selected)" for n xs
    using that by (induction xs arbitrary: n) auto
  then show ?thesis using assms by (simp add: build_selected_def case_prod_beta comp_def)
qed

lemma root_search_decides:
  "decides env (resolution_candidates env input registry) (root_constraints env (rq_roots input)) [] (root_search env input registry)"
  using search_decides [where ctx = "search_context env input (resolution_candidates env input registry)" and st = 0, OF search_start]
  unfolding root_search_def by (simp add: search_context_def)

lemma root_search_order:
  assumes "root_search env input registry = Inr solution"
  shows "case topological_edges_and_order solution of
      Inr (edges, order) \<Rightarrow> distinct order \<and> set order = dom (bt_get solution) \<and>
        topological (pack_edges (bt_get solution)) order \<and> repeat_free solution
    | Inl f \<Rightarrow> f = cycle_failure \<and> \<not> repeat_free solution"
proof -
  have d: "bt_sorted solution" "resolution env (resolution_candidates env input registry) (root_constraints env (rq_roots input)) (bt_get solution)"
    using root_search_decides [of env input registry] unfolding assms decides_def by simp_all
  then have "acyclic (pack_edges (bt_get solution))" unfolding resolution_def by blast
  then show ?thesis
    using topological_result [OF d(1) resolution_closed [OF d(2)]] unfolding repeat_free_def by (auto split: sum.splits)
qed

lemma resolve_status:
  "pj_status (domain_pack_resolution_projection (resolve_domain_packs env dg request registry)) = PackResolved \<longleftrightarrow>
     admission_issues env dg request registry = [] \<and>
     (\<exists>solution. root_search env (domain_pack_resolution_request request) registry = Inr solution \<and> repeat_free solution)"
proof -
  let ?input = "domain_pack_resolution_request request"
  obtain selected edges issues where s: "select_packs env ?input registry (admission_issues env dg request registry) = (selected, edges, issues)"
    by (metis prod_cases3)
  have "pj_status (domain_pack_resolution_projection (resolve_domain_packs env dg request registry)) = PackResolved \<longleftrightarrow> issues = []"
    by (simp add: resolve_domain_packs_def Let_def s)
  also have "\<dots> \<longleftrightarrow> admission_issues env dg request registry = [] \<and>
      (\<exists>solution. root_search env ?input registry = Inr solution \<and> repeat_free solution)"
    using s root_search_order [of env ?input registry]
    by (cases "root_search env ?input registry") (auto simp: select_packs_def split: if_splits sum.splits)
  finally show ?thesis .
qed

lemma resolve_blocked:
  assumes "pj_status (domain_pack_resolution_projection (resolve_domain_packs env dg request registry)) = PackBlocked"
  shows "pj_selected (domain_pack_resolution_projection (resolve_domain_packs env dg request registry)) = []"
    "pj_dependency_edges (domain_pack_resolution_projection (resolve_domain_packs env dg request registry)) = []"
    "pj_issues (domain_pack_resolution_projection (resolve_domain_packs env dg request registry)) \<noteq> []"
  using assms by (simp_all add: resolve_domain_packs_def Let_def case_prod_beta split: if_splits)

lemma resolve_resolved:
  assumes "admission_issues env dg request registry = []" "root_search env (domain_pack_resolution_request request) registry = Inr solution"
    "topological_edges_and_order solution = Inr (edges, order)"
  shows "pj_selected (domain_pack_resolution_projection (resolve_domain_packs env dg request registry)) = build_selected solution"
    "pj_issues (domain_pack_resolution_projection (resolve_domain_packs env dg request registry)) = []"
    "pj_dependency_edges (domain_pack_resolution_projection (resolve_domain_packs env dg request registry)) = edges"
  using assms by (simp_all add: resolve_domain_packs_def select_packs_def Let_def)

text \<open>
  C9. The outcome of a resolution.  A resolved projection lists a selection that satisfies every root and
  every dependency, hits no declared conflict and holds no pack that nothing asks for; the packs come in
  an order that respects their dependencies, and each is backed by an unrevoked record of the registry that
  agrees with it, by a grant of its namespace and by an active credential.  A blocked projection lists
  nothing but issues; when the request and the registry are in order, then the search ran out of
  states, or there is no such selection, or a pack of the selection found lists a dependency twice.
\<close>

theorem resolution_outcome:
  "let p = domain_pack_resolution_projection (resolve_domain_packs env dg request registry);
       input = domain_pack_resolution_request request;
       candidates = resolution_candidates env input registry; roots = root_constraints env (rq_roots input)
   in case pj_status p of
        PackResolved \<Rightarrow>
          (\<exists>\<sigma> order.
             resolution env candidates roots \<sigma> \<and> dom \<sigma> = dom (bt_get roots) \<union> Domain (pack_edges \<sigma>) \<and>
             distinct order \<and> set order = dom \<sigma> \<and> topological (pack_edges \<sigma>) order \<and>
             list_all (\<lambda>k. registered env input registry (the (\<sigma> k)) \<and> admitted_key (the (\<sigma> k)) = k) order \<and>
             pj_selected p = map (\<lambda>(position, k). resolved_package (position, the (\<sigma> k))) (enumerate 0 order) \<and>
             pj_issues p = [])
      | PackBlocked \<Rightarrow>
          pj_selected p = [] \<and> pj_dependency_edges p = [] \<and> pj_issues p \<noteq> [] \<and>
          (if admission_issues env dg request registry \<noteq> [] then True
           else case root_search env input registry of
                  Inl failure \<Rightarrow> if resource_exhausted failure then True else \<nexists>\<sigma>. resolution env candidates roots \<sigma>
                | Inr solution \<Rightarrow> \<not> repeat_free solution)"
proof -
  let ?p = "domain_pack_resolution_projection (resolve_domain_packs env dg request registry)"
  let ?input = "domain_pack_resolution_request request"
  let ?cs = "resolution_candidates env ?input registry" and ?roots = "root_constraints env (rq_roots ?input)"
  note dec = root_search_decides [of env ?input registry]
  show ?thesis
  proof (cases "pj_status ?p")
    case PackResolved
    then obtain solution where adm: "admission_issues env dg request registry = []" and
      s: "root_search env ?input registry = Inr solution" and free: "repeat_free solution" unfolding resolve_status by blast
    from root_search_order [OF s] free obtain edges order where o: "topological_edges_and_order solution = Inr (edges, order)"
      "distinct order" "set order = dom (bt_get solution)" "topological (pack_edges (bt_get solution)) order"
      by (auto split: sum.splits)
    have r: "resolution env ?cs ?roots (bt_get solution)" "dom (bt_get solution) = dom (bt_get ?roots) \<union> Domain (pack_edges (bt_get solution))"
      using dec unfolding s decides_def by simp_all
    have "registered env ?input registry (the (bt_get solution k)) \<and> admitted_key (the (bt_get solution k)) = k" if "k \<in> set order" for k
    proof -
      from that o(3) obtain a where a: "bt_get solution k = Some a" by auto
      from resolution_in_universe [OF r(1) a] candidates_registered [of env ?input registry k _ a] a show ?thesis by auto
    qed
    then have "list_all (\<lambda>k. registered env ?input registry (the (bt_get solution k)) \<and> admitted_key (the (bt_get solution k)) = k) order"
      by (simp add: list_all_iff)
    moreover have "pj_selected ?p = map (\<lambda>(position, k). resolved_package (position, the (bt_get solution k))) (enumerate 0 order)"
      unfolding resolve_resolved(1) [OF adm s o(1)] using o(3) by (intro build_selected_order [OF o(1)]) simp
    ultimately show ?thesis
      unfolding Let_def PackResolved DomainPackResolutionStatus.case
      using r o(2-4) resolve_resolved(2) [OF adm s o(1)] by (intro exI [of _ "bt_get solution"] exI [of _ order] conjI)
  next
    case PackBlocked
    have "\<nexists>\<sigma>. resolution env ?cs ?roots \<sigma>" if "root_search env ?input registry = Inl f" "\<not> resource_exhausted f" for f
      using dec that unfolding decides_def by (simp add: map_le_def dom_def)
    moreover have "\<not> (admission_issues env dg request registry = [] \<and>
        (\<exists>solution. root_search env ?input registry = Inr solution \<and> repeat_free solution))"
      unfolding resolve_status [symmetric] using PackBlocked by simp
    ultimately show ?thesis
      unfolding Let_def PackBlocked using resolve_blocked [OF PackBlocked] by (cases "root_search env ?input registry") simp_all
  qed
qed

end
