(* ===== verification/Spec2Isabelle.thy ===== *)
theory Spec2Isabelle
  imports Bus_Properties Isolation_Registry Phase_Gate Governance_Ledger Memory_Store Research_Ledger Graph_Dry_Run Obligation_Engine Pack_Resolution
begin

text \<open>
  \<^bold>\<open>The program.\<close>  \<open>forge-method-core\<close> coordinates agents that work on one repository.  An agent claims
  what it is going to change, the claims are kept in a write-ahead log, a guard compares every write
  with the claims of the other agents, and contracts give each agent a branch and a worktree of its own.
  Around this core there are hard gates between the phases of a project, ledgers kept as streams of
  events (arbitration of conflicts, memory, research sources), workflow graphs that can be run dry,
  an engine that derives an assurance case from what a host agent observed, and the resolution of
  domain packs against a registry.  This theory imports the development; the paths below are relative
  to \<open>src/crates\<close>.

  \<^bold>\<open>Correspondence.\<close>  A struct is a record, an enum a datatype, a function of the code a definition of the
  same name wherever Isabelle allows it; a clash of names is resolved by a prefix or a suffix.  A branch
  that returns an error is a branch of the definition.

  \<^item> \<open>Forge_Prelude\<close>, \<open>Ordered_Map\<close>, \<open>Diagnostics\<close>: the parts of the standard library the code uses (byte
    strings, machine integers, decimal numbers, \<open>BTreeMap\<close> and \<open>BTreeSet\<close>) and the diagnostics the validators share.
  \<^item> \<open>Civil_Time\<close>, \<open>Repo_Paths\<close>, \<open>Claim_Contracts\<close>, \<open>Claim_Engine\<close>, \<open>Write_Guard\<close>: the pure core of the
    coordination, \<open>forge-core-decisions/src/claim_engine.rs\<close> and \<open>conflict_detection.rs\<close> over the types of
    \<open>forge-core-contracts/src/claim.rs\<close> and \<open>governance.rs\<close>.  The lemmas give each operation on every
    branch, the exact condition for acquiring, the verdict of the guard, and the calendar's round trip.
  \<^item> \<open>Claim_Wal_Codec\<close>, \<open>Claim_Wal_Projection\<close>: \<open>forge-core-store/src/claim_wal.rs\<close>, from the bytes of a record
    to the materialised claims.  The lemmas show that the decoder inverts the encoder, that a torn tail is
    cut at the last complete record, and that a checkpoint is transparent to replay.
  \<^item> \<open>Claim_Bus\<close>, \<open>Bus_Safety\<close>, \<open>Bus_Properties\<close>: the commands of \<open>forge-core-cli/src/claim.rs\<close> over the log
    (\<open>forge-core-store/src/derive_state.rs\<close>), as a step relation with crashes.  The lemmas show mutual
    exclusion on every reachable bus, what each command stores, and that an unblocked acquire succeeds.
  \<^item> \<open>Isolation\<close>, \<open>Isolation_Registry\<close>: \<open>isolation.rs\<close> of \<open>forge-core-contracts\<close>, \<open>forge-core-decisions\<close> and
    \<open>forge-core-cli\<close>: contracts, collisions, lifecycle, registry, and the commands suggested to the user.
  \<^item> \<open>Phase_Gate\<close>: \<open>forge-core-contracts/src/phase.rs\<close> and \<open>forge-core-decisions/src/phase_transition.rs\<close>.
  \<^item> \<open>Event_Stream\<close>, \<open>Governance_Ledger\<close>, \<open>Memory_Store\<close>, \<open>Research_Ledger\<close>: \<open>forge-core-eventlog/src/tcb.rs\<close> and
    the three domains beside it, with the admission rules of \<open>memory.rs\<close> and \<open>research.rs\<close> of
    \<open>forge-core-contracts\<close>.  The lemmas show what replay gives, that decisions are final, that authority
    needs evidence, and what torn writes do.
  \<^item> \<open>Workflow_Graph\<close>, \<open>Graph_Dry_Run\<close>: \<open>forge-core-graph/src/lib.rs\<close>: topological order, the search for
    verifiers that have not passed, validation, and the exact outcome of a dry run.
  \<^item> \<open>Assurance_Case\<close>, \<open>Obligation_Engine\<close>: \<open>forge-core-validate/src/assurance.rs\<close> and
    \<open>forge-core-decisions/src/obligation_engine.rs\<close>: the exact condition under which a case is valid, when
    a derived case is, and what a verdict of readiness means.
  \<^item> \<open>Pack_Registry\<close>: the types of \<open>domain_pack.rs\<close> and \<open>domain_pack_resolution.rs\<close> of
    \<open>forge-core-contracts\<close>, and the validator of registry metadata of \<open>domain_pack_remote_acquisition.rs\<close>.
  \<^item> \<open>Pack_Search\<close>, \<open>Pack_Order\<close>, \<open>Pack_Resolution\<close>: \<open>forge-core-decisions/src/domain_pack_resolution.rs\<close>: the
    backtracking search, the order of the selected packs, and \<open>resolve_domain_packs\<close> around them.  The lemmas
    show that the search is sound and complete below its limit of states, that locked versions are kept,
    when a selection can be ordered, and what a resolved and a blocked projection mean.
  \<^item> \<open>Ordered_Kahn\<close>: the loop that removes nodes without unfinished predecessors, which the workflow
    graphs and the packs share, with its invariant.

  \<^bold>\<open>How the parts meet.\<close>  The bus runs the claim engine on the claims the projection of the log gives,
  appends the claim the engine returns, and asks the guard about a write; the isolation registry looks a
  linked claim up on the bus.  The ledgers are three instances of one event-sourced store.  The obligation
  engine produces what the validator of assurance cases accepts.  The interfaces are locales:
  \<open>map_interface\<close> (ordered maps, interpreted by the sorted list), \<open>claim_store\<close> (what the bus needs of a
  log, interpreted by the byte-level log), \<open>event_sourced\<close> (the trait of the ledgers, interpreted by the three
  domains) and \<open>registering\<close> (a validation pass that registers identifiers, interpreted by every pass of
  the validator).

  \<^bold>\<open>Parameters.\<close>  What is not part of the repository is an argument of the definitions: Unicode
  lower-casing (\<open>lower\<close>), CRC-32C, JSON and the checkpoint files of the claim log (\<open>wal_env\<close>), the JSON
  conversions of the event streams with the round trip they promise, the content hash of memory entries,
  and what a transaction meets on disk (a lock that is held, a read that fails, a write that stops early).  For the packs
  these are semantic versions with their requirements (the \<open>semver\<close> crate) and the digest of a candidate
  (\<open>pack_env\<close>), and the digests over serialised documents (\<open>digest_env\<close>).
  Where a theorem relies on such a promise it is a named hypothesis, and a concrete instance shows
  that it can hold.

  \<^bold>\<open>Bounds.\<close>  Every definition is a total function and no fuel is used: the loops of the graph algorithms
  decrease a measure of the work left, so that their results are those of the code's loops;
  the search for packs selects one more coordinate that has candidates with every call, and its limit
  of 10000 states is the code's own.  Sequence numbers
  and sizes of the log are kept at 64 bits, the ranks of actions at 32 bits, and an addition the code checks
  is checked here; seconds since 1970 are integers with the range of \<open>i64\<close> written out.

  \<^bold>\<open>Not modelled.\<close>
  \<^item> The file system protocols: lock files, retained directory handles, rotation of the log, backup and
    restore.  They are sequences of system calls whose effect depends on the operating system; their
    outcomes appear as arguments where a modelled operation sees them.
  \<^item> Parsing of arguments and contract files, rendering of envelopes, and the text of messages that no
    decision reads.
  \<^item> The execution kernel (\<open>forge-core-kernel\<close>), its effect store, the workflow governance ledgers and
    releases, the trusted stores of domain packs, and the signature and key management of
    \<open>forge-core-authority\<close> and \<open>forge-core-crypto\<close>: each is as large as everything modelled here, and rests
    on cryptography and on the file system protocols above.
  \<^item> The protocol server, the command registry, evaluation, tracing, schema generation, fuzzing and the
    build tools, which hold no state that the modelled parts read.
\<close>

end
